(* ===== verification/DdzPrelude.thy ===== *)
theory DdzPrelude
  imports Main "HOL-Library.Multiset" "HOL-Library.Word"
begin

text \<open>
  Shared vocabulary of the development: the names of the integer types the C++ code uses
  (\<^verbatim>\<open>int64_t\<close> identifiers, coins and millisecond clocks, \<^verbatim>\<open>int32_t\<close> cards), the
  theorem collections the component theories fill, and generic lemmas on lists, maps and
  multisets.

  Signed 64-bit and 32-bit quantities are modelled as \<^typ>\<open>int\<close>: signed overflow is
  undefined behaviour in C++, so the model describes exactly the executions in which none
  happens; where the code narrows a value with a cast or parses one with a range check, the
  width is written out (\<open>to_i32\<close>, \<open>in_i64\<close>). Unsigned words of the wire format and of
  SHA-256 are \<open>'w word\<close>.
\<close>

subsection \<open>Type names\<close>

type_synonym player_id = int
type_synonym room_id = int
type_synonym conn_id = int
type_synonym millis = int
type_synonym card = int

text \<open>Facts about what an operation leaves untouched, and facts that an operation keeps a
  component's invariant. The component theories add to these collections.\<close>

named_theorems frame_simps
named_theorems inv_intros

subsection \<open>Fixed-width integers\<close>

definition in_i64 :: "int \<Rightarrow> bool" where
  "in_i64 i \<longleftrightarrow> - (2 ^ 63) \<le> i \<and> i < 2 ^ 63"

definition in_i32 :: "int \<Rightarrow> bool" where
  "in_i32 i \<longleftrightarrow> - (2 ^ 31) \<le> i \<and> i < 2 ^ 31"

text \<open>\<^verbatim>\<open>static_cast<int32_t>\<close> of a wider integer: the value modulo \<open>2 ^ 32\<close>, read as
  two's complement.\<close>

definition to_i32 :: "int \<Rightarrow> int" where
  "to_i32 i = (i + 2 ^ 31) mod 2 ^ 32 - 2 ^ 31"

lemma to_i32_id [simp]: "in_i32 i \<Longrightarrow> to_i32 i = i"
  by (simp add: to_i32_def in_i32_def)

lemma in_i32_to_i32 [simp]: "in_i32 (to_i32 i)"
proof -
  have "0 \<le> (i + 2 ^ 31) mod 2 ^ 32" "(i + 2 ^ 31) mod 2 ^ 32 < (2 ^ 32 :: int)"
    by simp_all
  then show ?thesis unfolding to_i32_def in_i32_def by simp
qed

lemma in_i32_in_i64: "in_i32 i \<Longrightarrow> in_i64 i"
  by (simp add: in_i32_def in_i64_def)

subsection \<open>Lists\<close>

lemma upto_eq_Cons: "lo \<le> hi \<Longrightarrow> [lo..hi] = lo # [lo + 1..hi]"
  by (simp add: upto_rec1)

lemma sorted_upto_int [simp]: "sorted [lo..hi]"
  by simp

lemma last_upto_int [simp]: "lo \<le> hi \<Longrightarrow> last [lo..hi] = hi"
  by (simp add: upto_rec2)

lemma hd_upto_int [simp]: "lo \<le> hi \<Longrightarrow> hd [lo..hi] = lo"
  by (simp add: upto_rec1)

lemma count_mset_upto: "count (mset [lo..hi]) r = (if lo \<le> r \<and> r \<le> hi then 1 else 0)"
  using distinct_upto [of lo hi] by (auto simp: distinct_count_atmost_1)

lemma count_list_distinct: "distinct xs \<Longrightarrow> count_list xs x = (if x \<in> set xs then 1 else 0)"
  by (induction xs) auto

end
