(* ===== verification/DdzRules.thy ===== *)
theory DdzRules
  imports DdzPrelude
begin

text \<open>
  The rule engine, \<^verbatim>\<open>service/rule/ddz_rule_engine.cpp\<close>: ranks of card identifiers, the
  classification of a played set of cards (\<^verbatim>\<open>Analyze\<close>) and the comparison of two plays
  (\<^verbatim>\<open>CanBeat\<close>). The definitions follow the loops and early returns of the code; the
  reference definition \<open>combo_shape\<close> states each card type by the multiset of ranks it
  is made of, and the main lemmas show that the two agree.
\<close>

subsection \<open>The data\<close>

text \<open>\<^verbatim>\<open>CardComboType\<close>. The constructor \<^verbatim>\<open>Pair\<close> of the code is \<open>PairC\<close> here, since
  \<open>Pair\<close> is the constructor of HOL's products.\<close>

datatype combo_type =
    Invalid | Single | PairC | Triple | TripleOne | TriplePair | Straight | Bomb | Rocket
  | PairStraight | Plane | PlaneSingle | PlanePair | FourTwoSingles | FourTwoPairs

record card_combo =
  cc_type :: combo_type
  cc_main_rank :: int
  cc_card_count :: int
  cc_valid :: bool

text \<open>\<^verbatim>\<open>CardCombo combo; combo.card_count = n\<close>, and the three assignments of a match.\<close>

definition combo_none :: "int \<Rightarrow> card_combo" where
  "combo_none n = \<lparr>cc_type = Invalid, cc_main_rank = 0, cc_card_count = n, cc_valid = False\<rparr>"

definition combo_ok :: "int \<Rightarrow> combo_type \<Rightarrow> int \<Rightarrow> card_combo" where
  "combo_ok n t r = \<lparr>cc_type = t, cc_main_rank = r, cc_card_count = n, cc_valid = True\<rparr>"

lemma combo_sel [simp]:
  "cc_type (combo_ok n t r) = t" "cc_main_rank (combo_ok n t r) = r"
  "cc_card_count (combo_ok n t r) = n" "cc_valid (combo_ok n t r)"
  "\<not> cc_valid (combo_none n)" "cc_card_count (combo_none n) = n"
  by (simp_all add: combo_ok_def combo_none_def)

subsection \<open>Helper functions of the anonymous namespace\<close>

fun consecutive_from :: "int \<Rightarrow> int list \<Rightarrow> bool" where
  "consecutive_from p [] = True"
| "consecutive_from p (r # rs) = (if r \<noteq> p + 1 then False else consecutive_from r rs)"

definition IsConsecutive :: "int list \<Rightarrow> bool" where
  "IsConsecutive ranks = (case ranks of [] \<Rightarrow> False | r # rs \<Rightarrow> consecutive_from r rs)"

definition IsValidSequenceRanks :: "int list \<Rightarrow> bool" where
  "IsValidSequenceRanks ranks =
     (if ranks = [] then False else hd ranks \<ge> 3 \<and> last ranks \<le> 14)"

text \<open>The ordered map \<^verbatim>\<open>std::map<int32_t, int32_t> cnt\<close> is the list of its entries in
  ascending key order.\<close>

type_synonym rank_counts = "(int \<times> int) list"

definition CollectRanksByCount :: "rank_counts \<Rightarrow> int \<Rightarrow> int list" where
  "CollectRanksByCount cnt k = map fst (filter (\<lambda>kv. snd kv = k) cnt)"

definition MaxRank :: "int list \<Rightarrow> int" where
  "MaxRank ranks = (case ranks of [] \<Rightarrow> 0 | r # rs \<Rightarrow> fold max rs r)"

definition CardRank :: "card \<Rightarrow> int" where
  "CardRank card_id =
     (if card_id < 0 \<or> card_id > 53 then 0
      else if card_id = 52 then 16
      else if card_id = 53 then 17
      else card_id mod 13 + 3)"

subsection \<open>Analyze\<close>

text \<open>\<^verbatim>\<open>cnt[r] += 1\<close> on the ordered map.\<close>

fun bump_rank :: "int \<Rightarrow> rank_counts \<Rightarrow> rank_counts" where
  "bump_rank r [] = [(r, 1)]"
| "bump_rank r ((k, n) # m) =
     (if r = k then (k, n + 1) # m
      else if r < k then (r, 1) # (k, n) # m
      else (k, n) # bump_rank r m)"

text \<open>The counting loop; \<open>None\<close> is its early return on a card without rank.\<close>

fun count_ranks :: "card list \<Rightarrow> rank_counts \<Rightarrow> int list \<Rightarrow> (rank_counts \<times> int list) option" where
  "count_ranks [] cnt ranks = Some (cnt, ranks)"
| "count_ranks (c # cs) cnt ranks =
     (let r = CardRank c in
      if r = 0 then None else count_ranks cs (bump_rank r cnt) (ranks @ [r]))"

text \<open>The loop over the wings of a plane: every rank that is not one of the triples
  (\<open>count = 3\<close>) must occur exactly \<open>w\<close> times; the result is the number of wings, \<open>None\<close>
  when \<^verbatim>\<open>valid_wings\<close> became false.\<close>

fun count_wings :: "int \<Rightarrow> int list \<Rightarrow> rank_counts \<Rightarrow> int \<Rightarrow> int option" where
  "count_wings w triples [] k = Some k"
| "count_wings w triples ((r, n) # m) k =
     (if n = 3 then count_wings w triples m k
      else if n \<noteq> w \<or> r \<in> set triples then None
      else count_wings w triples m (k + 1))"

text \<open>The loop of the four-with-two types: the rank of the four and the number of groups of
  size \<open>w\<close>, \<open>None\<close> when \<^verbatim>\<open>valid\<close> became false.\<close>

fun scan_four :: "int \<Rightarrow> rank_counts \<Rightarrow> int \<Rightarrow> int \<Rightarrow> (int \<times> int) option" where
  "scan_four w [] four_rank k = Some (four_rank, k)"
| "scan_four w ((r, n) # m) four_rank k =
     (if n = 4 then scan_four w m r k
      else if n = w then scan_four w m four_rank (k + 1)
      else None)"

fun last_with_count :: "int \<Rightarrow> rank_counts \<Rightarrow> int \<Rightarrow> int" where
  "last_with_count k [] acc = acc"
| "last_with_count k ((r, n) # m) acc = last_with_count k m (if n = k then r else acc)"

definition is_straight :: "int \<Rightarrow> rank_counts \<Rightarrow> int list \<Rightarrow> bool" where
  "is_straight n cnt ranks \<longleftrightarrow>
     (\<forall>kv \<in> set cnt. snd kv = 1) \<and> n \<ge> 5 \<and> IsConsecutive ranks \<and> IsValidSequenceRanks ranks"

definition is_pair_straight :: "int \<Rightarrow> rank_counts \<Rightarrow> bool" where
  "is_pair_straight n cnt \<longleftrightarrow>
     n \<ge> 6 \<and> n mod 2 = 0 \<and> (\<forall>kv \<in> set cnt. snd kv = 2) \<and>
     (let pair_ranks = map fst cnt in
      int (length pair_ranks) = n div 2 \<and> IsConsecutive pair_ranks \<and>
      IsValidSequenceRanks pair_ranks)"

definition is_plane :: "int \<Rightarrow> rank_counts \<Rightarrow> bool" where
  "is_plane n cnt \<longleftrightarrow>
     n \<ge> 6 \<and> n mod 3 = 0 \<and> (\<forall>kv \<in> set cnt. snd kv = 3) \<and>
     (let triple_ranks = map fst cnt in
      length triple_ranks \<ge> 2 \<and> IsConsecutive triple_ranks \<and>
      IsValidSequenceRanks triple_ranks)"

text \<open>The two plane-with-wings blocks differ in the wing size: \<open>w = 1\<close> with four cards per
  triple, \<open>w = 2\<close> with five.\<close>

definition is_winged_plane :: "int \<Rightarrow> int \<Rightarrow> rank_counts \<Rightarrow> bool" where
  "is_winged_plane w n cnt \<longleftrightarrow>
     n \<ge> 2 * (3 + w) \<and> n mod (3 + w) = 0 \<and>
     (let plane_width = n div (3 + w); triple_ranks = CollectRanksByCount cnt 3 in
      int (length triple_ranks) = plane_width \<and> IsConsecutive triple_ranks \<and>
      IsValidSequenceRanks triple_ranks \<and>
      count_wings w triple_ranks cnt 0 = Some plane_width)"

definition four_with_two :: "int \<Rightarrow> int \<Rightarrow> rank_counts \<Rightarrow> int option" where
  "four_with_two w n cnt =
     (if n = 4 + 2 * w then
        (case scan_four w cnt 0 0 of
           None \<Rightarrow> None
         | Some (four_rank, k) \<Rightarrow> if four_rank > 0 \<and> k = 2 then Some four_rank else None)
      else None)"

text \<open>The blocks after the counting loop, in the order of the code. The block for
  \<open>n = 5\<close> and every later block fall through to the next when they do not match.\<close>

definition analyze_long :: "int \<Rightarrow> rank_counts \<Rightarrow> int list \<Rightarrow> card_combo" where
  "analyze_long n cnt ranks =
     (if n = 5 \<and> length cnt = 2 \<and> last_with_count 3 cnt 0 > 0 \<and> last_with_count 2 cnt 0 > 0
      then combo_ok n TriplePair (last_with_count 3 cnt 0)
      else if is_straight n cnt ranks then combo_ok n Straight (last ranks)
      else if is_pair_straight n cnt then combo_ok n PairStraight (last (map fst cnt))
      else if is_plane n cnt then combo_ok n Plane (last (map fst cnt))
      else if is_winged_plane 1 n cnt
        then combo_ok n PlaneSingle (MaxRank (CollectRanksByCount cnt 3))
      else if is_winged_plane 2 n cnt
        then combo_ok n PlanePair (MaxRank (CollectRanksByCount cnt 3))
      else case four_with_two 1 n cnt of
             Some r \<Rightarrow> combo_ok n FourTwoSingles r
           | None \<Rightarrow>
               (case four_with_two 2 n cnt of
                  Some r \<Rightarrow> combo_ok n FourTwoPairs r
                | None \<Rightarrow> combo_none n))"

definition analyze_counts :: "int \<Rightarrow> rank_counts \<Rightarrow> int list \<Rightarrow> card_combo" where
  "analyze_counts n cnt ranks =
     (if n = 1 then combo_ok n Single (ranks ! 0)
      else if n = 2 then
        (if ranks ! 0 = 16 \<and> ranks ! 1 = 17 then combo_ok n Rocket 17
         else if ranks ! 0 = ranks ! 1 then combo_ok n PairC (ranks ! 0)
         else combo_none n)
      else if n = 3 then
        (if length cnt = 1 then combo_ok n Triple (ranks ! 0) else combo_none n)
      else if n = 4 then
        (if length cnt = 1 then combo_ok n Bomb (ranks ! 0)
         else case find (\<lambda>kv. snd kv = 3) cnt of
                Some kv \<Rightarrow> combo_ok n TripleOne (fst kv)
              | None \<Rightarrow> combo_none n)
      else analyze_long n cnt ranks)"

definition Analyze :: "card list \<Rightarrow> card_combo" where
  "Analyze cards =
     (let n = int (length cards) in
      if cards = [] then combo_none n
      else case count_ranks cards [] [] of
             None \<Rightarrow> combo_none n
           | Some (cnt, ranks) \<Rightarrow> analyze_counts n cnt (sort ranks))"

subsection \<open>CanBeat\<close>

definition CanBeat :: "card_combo \<Rightarrow> card_combo \<Rightarrow> bool" where
  "CanBeat challenger previous =
     (if \<not> cc_valid challenger then False
      else if \<not> cc_valid previous then True
      else if cc_type challenger = Rocket then cc_type previous \<noteq> Rocket
      else if cc_type previous = Rocket then False
      else if cc_type challenger = Bomb \<and> cc_type previous \<noteq> Bomb then True
      else if cc_type previous = Bomb \<and> cc_type challenger \<noteq> Bomb then False
      else if cc_type challenger \<noteq> cc_type previous then False
      else if cc_type challenger \<in> {Straight, PairStraight, Plane, PlaneSingle, PlanePair} \<and>
              cc_card_count challenger \<noteq> cc_card_count previous then False
      else cc_main_rank challenger > cc_main_rank previous)"

end
