(* ===== verification/DdzRulesSpec.thy ===== *)
theory DdzRulesSpec
  imports DdzRules
begin

text \<open>
  The reference definition of the card types and the correctness of the rule engine. A play
  is judged by the multiset of its ranks; \<open>combo_shape\<close> gives, for each type and main rank,
  the multisets that have it. The lemmas below relate each check of \<open>Analyze\<close> to its shape;
  the properties at the end are the full equivalence and the order laws of \<open>CanBeat\<close>.
\<close>

subsection \<open>The reference definition\<close>

definition rank_mset :: "card list \<Rightarrow> int multiset" where
  "rank_mset cards = image_mset CardRank (mset cards)"

lemma rank_mset_simps [simp]:
  "rank_mset [] = {#}"
  "rank_mset (c # cs) = add_mset (CardRank c) (rank_mset cs)"
  by (simp_all add: rank_mset_def)

lemma size_rank_mset [simp]: "size (rank_mset cards) = length cards"
  by (simp add: rank_mset_def)

text \<open>\<open>run k lo hi\<close>: every rank from \<open>lo\<close> to \<open>hi\<close>, \<open>k\<close> times.\<close>

definition run :: "nat \<Rightarrow> int \<Rightarrow> int \<Rightarrow> int multiset" where
  "run k lo hi = repeat_mset k (mset [lo..hi])"

fun combo_shape :: "combo_type \<Rightarrow> int \<Rightarrow> int multiset \<Rightarrow> bool" where
  "combo_shape Invalid r M \<longleftrightarrow> False"
| "combo_shape Single r M \<longleftrightarrow> M = {#r#}"
| "combo_shape PairC r M \<longleftrightarrow> M = replicate_mset 2 r"
| "combo_shape Triple r M \<longleftrightarrow> M = replicate_mset 3 r"
| "combo_shape Bomb r M \<longleftrightarrow> M = replicate_mset 4 r"
| "combo_shape Rocket r M \<longleftrightarrow> r = 17 \<and> M = {#16, 17#}"
| "combo_shape TripleOne r M \<longleftrightarrow> (\<exists>a. a \<noteq> r \<and> M = replicate_mset 3 r + {#a#})"
| "combo_shape TriplePair r M \<longleftrightarrow> (\<exists>a. a \<noteq> r \<and> M = replicate_mset 3 r + replicate_mset 2 a)"
| "combo_shape Straight r M \<longleftrightarrow> (\<exists>lo. 3 \<le> lo \<and> lo + 4 \<le> r \<and> r \<le> 14 \<and> M = run 1 lo r)"
| "combo_shape PairStraight r M \<longleftrightarrow> (\<exists>lo. 3 \<le> lo \<and> lo + 2 \<le> r \<and> r \<le> 14 \<and> M = run 2 lo r)"
| "combo_shape Plane r M \<longleftrightarrow> (\<exists>lo. 3 \<le> lo \<and> lo + 1 \<le> r \<and> r \<le> 14 \<and> M = run 3 lo r)"
| "combo_shape PlaneSingle r M \<longleftrightarrow>
     (\<exists>lo W. 3 \<le> lo \<and> lo + 1 \<le> r \<and> r \<le> 14 \<and> finite W \<and> W \<inter> {lo..r} = {} \<and>
       int (card W) = r - lo + 1 \<and> M = run 3 lo r + mset_set W)"
| "combo_shape PlanePair r M \<longleftrightarrow>
     (\<exists>lo W. 3 \<le> lo \<and> lo + 1 \<le> r \<and> r \<le> 14 \<and> finite W \<and> W \<inter> {lo..r} = {} \<and>
       int (card W) = r - lo + 1 \<and> M = run 3 lo r + repeat_mset 2 (mset_set W))"
| "combo_shape FourTwoSingles r M \<longleftrightarrow>
     (\<exists>a b. a \<noteq> b \<and> a \<noteq> r \<and> b \<noteq> r \<and> M = replicate_mset 4 r + {#a, b#})"
| "combo_shape FourTwoPairs r M \<longleftrightarrow>
     (\<exists>a b. a \<noteq> b \<and> a \<noteq> r \<and> b \<noteq> r \<and>
       M = replicate_mset 4 r + replicate_mset 2 a + replicate_mset 2 b)"

subsection \<open>Ranks of cards\<close>

lemma CardRank_zero_iff: "CardRank c = 0 \<longleftrightarrow> \<not> (0 \<le> c \<and> c \<le> 53)"
proof -
  have "0 \<le> c mod 13" for c :: int by simp
  then have "c mod 13 + 3 \<noteq> 0" by (smt (verit))
  then show ?thesis by (auto simp: CardRank_def)
qed

lemma CardRank_range: "0 \<le> c \<Longrightarrow> c \<le> 53 \<Longrightarrow> 3 \<le> CardRank c \<and> CardRank c \<le> 17"
proof -
  assume "0 \<le> c" "c \<le> 53"
  moreover have "0 \<le> c mod 13" "c mod 13 < 13" by simp_all
  ultimately show ?thesis unfolding CardRank_def by (smt (verit))
qed

subsection \<open>The counting loop\<close>

definition counts_of :: "rank_counts \<Rightarrow> int multiset \<Rightarrow> bool" where
  "counts_of cnt M \<longleftrightarrow>
     sorted_wrt (<) (map fst cnt) \<and> set (map fst cnt) = set_mset M \<and>
     (\<forall>kv \<in> set cnt. snd kv = int (count M (fst kv)))"

lemma keys_bump_rank: "set (map fst (bump_rank r cnt)) = insert r (set (map fst cnt))"
  by (induction r cnt rule: bump_rank.induct) auto

lemma sorted_bump_rank:
  "sorted_wrt (<) (map fst cnt) \<Longrightarrow> sorted_wrt (<) (map fst (bump_rank r cnt))"
proof (induction r cnt rule: bump_rank.induct)
  case (2 r k n m)
  then show ?case using keys_bump_rank [of r m] by auto
qed simp

lemma values_bump_rank:
  assumes "sorted_wrt (<) (map fst cnt)"
    and "\<forall>kv \<in> set cnt. snd kv = int (f (fst kv))" and "r \<notin> set (map fst cnt) \<longrightarrow> f r = 0"
  shows "\<forall>kv \<in> set (bump_rank r cnt). snd kv = int ((f(r := Suc (f r))) (fst kv))"
  using assms
proof (induction r cnt rule: bump_rank.induct)
  case (2 r k n m)
  consider "r = k" | "r < k" | "k < r" by linarith
  then show ?case
  proof cases
    case 1
    with 2 show ?thesis by (auto simp: image_iff)
  next
    case 2
    with "2.prems" show ?thesis by (force simp: image_iff)
  next
    case 3
    with 2 show ?thesis by auto
  qed
qed simp

lemma counts_of_bump:
  assumes "counts_of cnt M"
  shows "counts_of (bump_rank r cnt) (add_mset r M)"
proof -
  have "r \<notin> set (map fst cnt) \<longrightarrow> count M r = 0"
    using assms by (simp add: counts_of_def not_in_iff)
  then have "\<forall>kv \<in> set (bump_rank r cnt).
      snd kv = int (((count M)(r := Suc (count M r))) (fst kv))"
    using assms values_bump_rank [of cnt "count M" r] by (simp add: counts_of_def)
  moreover have "((count M)(r := Suc (count M r))) = count (add_mset r M)"
    by (auto simp: fun_eq_iff)
  ultimately show ?thesis
    using assms by (simp add: counts_of_def sorted_bump_rank keys_bump_rank del: set_map)
qed

lemma count_ranks_inv:
  assumes "counts_of cnt M" and "mset ranks = M"
  shows "if \<forall>c \<in> set cards. 0 \<le> c \<and> c \<le> 53
         then \<exists>cnt' ranks'. count_ranks cards cnt ranks = Some (cnt', ranks') \<and>
                counts_of cnt' (M + rank_mset cards) \<and> mset ranks' = M + rank_mset cards
         else count_ranks cards cnt ranks = None"
  using assms
proof (induction cards arbitrary: cnt ranks M)
  case Nil
  then show ?case by simp
next
  case (Cons c cs)
  show ?case
  proof (cases "0 \<le> c \<and> c \<le> 53")
    case True
    have "counts_of (bump_rank (CardRank c) cnt) (add_mset (CardRank c) M)"
      using Cons.prems by (simp add: counts_of_bump)
    from Cons.IH [OF this, of "ranks @ [CardRank c]"] True Cons.prems show ?thesis
      by (simp add: CardRank_zero_iff Let_def split: if_splits)
  next
    case False
    then show ?thesis by (auto simp: CardRank_zero_iff Let_def)
  qed
qed

lemma count_ranks_Some:
  assumes "\<forall>c \<in> set cards. 0 \<le> c \<and> c \<le> 53"
  obtains cnt ranks where "count_ranks cards [] [] = Some (cnt, ranks)"
    "counts_of cnt (rank_mset cards)" "mset ranks = rank_mset cards"
  using count_ranks_inv [of "[]" "{#}" "[]" cards] assms by (auto simp: counts_of_def)

lemma count_ranks_None:
  "\<not> (\<forall>c \<in> set cards. 0 \<le> c \<and> c \<le> 53) \<Longrightarrow> count_ranks cards [] [] = None"
  using count_ranks_inv [of "[]" "{#}" "[]" cards] by (auto simp: counts_of_def split: if_splits)

subsection \<open>Sequences\<close>

lemma consecutive_from_iff: "consecutive_from p rs \<longleftrightarrow> rs = [p + 1..p + int (length rs)]"
proof (induction p rs rule: consecutive_from.induct)
  case (2 p r rs)
  then show ?case by (auto simp: upto_eq_Cons add.assoc)
qed simp

lemma IsConsecutive_iff: "IsConsecutive xs \<longleftrightarrow> (\<exists>lo hi. lo \<le> hi \<and> xs = [lo..hi])"
proof
  assume "IsConsecutive xs"
  then obtain r rs where "xs = r # rs" "rs = [r + 1..r + int (length rs)]"
    by (auto simp: IsConsecutive_def consecutive_from_iff split: list.splits)
  then show "\<exists>lo hi. lo \<le> hi \<and> xs = [lo..hi]"
    by (intro exI [of _ r] exI [of _ "r + int (length rs)"]) (simp add: upto_eq_Cons)
next
  assume "\<exists>lo hi. lo \<le> hi \<and> xs = [lo..hi]"
  then show "IsConsecutive xs"
    by (auto simp: IsConsecutive_def consecutive_from_iff upto_eq_Cons)
qed

lemma sequence_iff:
  "IsConsecutive xs \<and> IsValidSequenceRanks xs \<longleftrightarrow>
   (\<exists>lo hi. 3 \<le> lo \<and> lo \<le> hi \<and> hi \<le> 14 \<and> xs = [lo..hi])"
proof -
  have "IsValidSequenceRanks [lo..hi] \<longleftrightarrow> 3 \<le> lo \<and> hi \<le> 14" if "lo \<le> hi" for lo hi
    using that by (simp add: IsValidSequenceRanks_def)
  then show ?thesis unfolding IsConsecutive_iff by blast
qed

lemma count_run: "count (run k lo hi) r = (if lo \<le> r \<and> r \<le> hi then k else 0)"
  by (simp add: run_def count_mset_upto)

lemma in_run [simp]: "r \<in># run k lo hi \<longleftrightarrow> 0 < k \<and> lo \<le> r \<and> r \<le> hi"
  by (auto simp: count_run simp flip: count_greater_zero_iff split: if_splits)

lemma size_run: "size (run k lo hi) = k * nat (hi - lo + 1)"
  by (simp add: run_def)

lemma MaxRank_upto [simp]: "lo \<le> hi \<Longrightarrow> MaxRank [lo..hi] = hi"
proof -
  have *: "fold max [a + 1..hi] a = hi" if "a \<le> hi" for a
    using that
  proof (induction "nat (hi - a)" arbitrary: a)
    case (Suc d)
    then have "a + 1 \<le> hi" "d = nat (hi - (a + 1))" by simp_all
    with Suc.hyps(1) [of "a + 1"] show ?case by (simp add: upto_eq_Cons)
  qed simp
  assume "lo \<le> hi"
  then show ?thesis by (simp add: MaxRank_def * upto_eq_Cons)
qed

subsection \<open>Reading the count table\<close>

lemma counts_ofD:
  assumes "counts_of cnt M"
  shows "sorted_wrt (<) (map fst cnt)" "fst ` set cnt = set_mset M"
    "(r, n) \<in> set cnt \<longleftrightarrow> r \<in># M \<and> n = int (count M r)"
    "distinct (map fst cnt)"
  using assms by (force simp: counts_of_def strict_sorted_iff)+

lemma counts_of_keys_all:
  assumes "counts_of cnt M" and "\<forall>kv \<in> set cnt. snd kv = int k"
  shows "count M r = (if r \<in> set (map fst cnt) then k else 0)"
proof (cases "r \<in># M")
  case True
  then have "(r, int (count M r)) \<in> set cnt" using counts_ofD(3) [OF assms(1)] by simp
  with assms(2) True show ?thesis using counts_ofD(2) [OF assms(1)] by force
next
  case False
  then have "r \<notin> set (map fst cnt)" using counts_ofD(2) [OF assms(1)] by simp
  then show ?thesis using False by (simp add: not_in_iff)
qed

lemma collect_set:
  assumes "counts_of cnt M" and "0 < k"
  shows "set (CollectRanksByCount cnt (int k)) = {r. count M r = k}"
proof (rule set_eqI)
  fix r
  have "r \<in> set (CollectRanksByCount cnt (int k)) \<longleftrightarrow> (r, int k) \<in> set cnt"
    by (force simp: CollectRanksByCount_def)
  also have "\<dots> \<longleftrightarrow> r \<in># M \<and> k = count M r" using counts_ofD(3) [OF assms(1)] by simp
  also have "\<dots> \<longleftrightarrow> r \<in> {r. count M r = k}"
    using assms(2) by (auto simp: count_greater_zero_iff [symmetric] simp del: count_greater_zero_iff)
  finally show "r \<in> set (CollectRanksByCount cnt (int k)) \<longleftrightarrow> r \<in> {r. count M r = k}" .
qed

lemma collect_sorted:
  "counts_of cnt M \<Longrightarrow> sorted_wrt (<) (CollectRanksByCount cnt k)"
  unfolding CollectRanksByCount_def counts_of_def
  by (auto simp: sorted_wrt_map intro: sorted_wrt_filter)

lemma sorted_eq_upto:
  fixes xs :: "int list"
  assumes "sorted_wrt (<) xs" "set xs = {lo..hi}"
  shows "xs = [lo..hi]"
  using assms by (intro sorted_distinct_set_unique) (auto simp: strict_sorted_iff)

lemma multiset_eq_count: "(\<And>r. count M r = count N r) \<Longrightarrow> M = N"
  by (rule multiset_eqI)

text \<open>The loop over the wings counts the ranks that are not triples.\<close>

lemma count_wings_iff:
  "count_wings w ts cnt k = Some j \<longleftrightarrow>
     (\<forall>kv \<in> set cnt. snd kv = 3 \<or> snd kv = w \<and> fst kv \<notin> set ts) \<and>
     j = k + int (length (filter (\<lambda>kv. snd kv \<noteq> 3) cnt))"
  by (induction w ts cnt k rule: count_wings.induct) auto

lemma scan_four_iff:
  assumes "w \<noteq> 4"
  shows "scan_four w cnt f k = Some (f', k') \<longleftrightarrow>
     (\<forall>kv \<in> set cnt. snd kv = 4 \<or> snd kv = w) \<and> f' = last_with_count 4 cnt f \<and>
     k' = k + int (length (filter (\<lambda>kv. snd kv = w) cnt))"
  using assms by (induction w cnt f k rule: scan_four.induct) auto

lemma last_with_count_cases:
  "last_with_count k cnt acc = acc \<and> (\<forall>kv \<in> set cnt. snd kv \<noteq> k) \<or>
   (last_with_count k cnt acc, k) \<in> set cnt"
  by (induction k cnt acc rule: last_with_count.induct) auto

subsection \<open>The checks against the shapes\<close>

lemma run_1: "run (Suc 0) lo hi = mset [lo..hi]"
  by (simp add: run_def)

lemma sequence_upto:
  "3 \<le> lo \<Longrightarrow> lo \<le> hi \<Longrightarrow> hi \<le> 14 \<Longrightarrow> IsConsecutive [lo..hi]"
  "3 \<le> lo \<Longrightarrow> lo \<le> hi \<Longrightarrow> hi \<le> 14 \<Longrightarrow> IsValidSequenceRanks [lo..hi]"
  using sequence_iff [of "[lo..hi]"] by blast+

lemma sorted_mset_upto:
  "sorted xs \<Longrightarrow> mset xs = mset [lo..hi] \<Longrightarrow> xs = [lo..hi]"
  for xs :: "int list"
  by (metis properties_for_sort sort_upto)

lemma straight_sound:
  assumes "is_straight n cnt ranks" "mset ranks = M" "n = int (size M)"
  shows "combo_shape Straight (last ranks) M"
proof -
  obtain lo hi where *: "3 \<le> lo" "lo \<le> hi" "hi \<le> 14" "ranks = [lo..hi]" and "n \<ge> 5"
    using assms(1) sequence_iff [of ranks] by (auto simp: is_straight_def)
  with assms have "5 \<le> length [lo..hi]" by (auto simp: is_straight_def)
  then have "lo + 4 \<le> hi" by (simp split: if_splits)
  with * assms(2) show ?thesis by (auto simp: run_1)
qed

lemma straight_complete:
  assumes "combo_shape Straight r M" "sorted ranks" "mset ranks = M" "n = int (size M)"
    "counts_of cnt M"
  shows "is_straight n cnt ranks"
proof -
  obtain lo where lo: "3 \<le> lo" "lo + 4 \<le> r" "r \<le> 14" and M: "M = run 1 lo r"
    using assms(1) by auto
  have ranks: "ranks = [lo..r]"
    using assms(2,3) M sorted_mset_upto [of ranks lo r] by (simp add: run_1)
  have "snd kv = 1" if "kv \<in> set cnt" for kv
    using that counts_ofD(3) [OF assms(5), of "fst kv" "snd kv"]
    by (auto simp: M count_run split: if_splits)
  with lo ranks show ?thesis
    using assms(4) sequence_upto [of lo r] by (auto simp: is_straight_def M size_run)
qed

lemma all_count_run:
  assumes "counts_of cnt M" "\<forall>kv \<in> set cnt. snd kv = int k" "map fst cnt = [lo..hi]"
  shows "M = run k lo hi"
  using counts_of_keys_all [OF assms(1,2)]
  by (intro multiset_eqI) (simp add: count_run assms(3))

lemma run_all_count:
  assumes "counts_of cnt (run k lo hi)" "0 < k"
  shows "\<forall>kv \<in> set cnt. snd kv = int k" "map fst cnt = [lo..hi]"
proof -
  show "\<forall>kv \<in> set cnt. snd kv = int k"
    using counts_ofD(3) [OF assms(1)] by (auto simp: count_run split: if_splits)
  have "r \<in> set_mset (run k lo hi) \<longleftrightarrow> r \<in> {lo..hi}" for r
    using assms(2) by (auto simp: set_mset_def count_run)
  then have "set_mset (run k lo hi) = {lo..hi}" by blast
  then show "map fst cnt = [lo..hi]"
    using counts_ofD(1,2) [OF assms(1)] by (intro sorted_eq_upto) simp_all
qed

lemma pair_straight_sound:
  assumes "is_pair_straight n cnt" "counts_of cnt M" "n = int (size M)"
  shows "combo_shape PairStraight (last (map fst cnt)) M"
proof -
  obtain lo hi where *: "3 \<le> lo" "lo \<le> hi" "hi \<le> 14" "map fst cnt = [lo..hi]"
    and k: "\<forall>kv \<in> set cnt. snd kv = int 2" and n: "n \<ge> 6"
    using assms(1) sequence_iff [of "map fst cnt"] by (auto simp: is_pair_straight_def Let_def)
  have M: "M = run 2 lo hi" by (rule all_count_run [OF assms(2) k *(4)])
  then have "lo + 2 \<le> hi" using n assms(3) by (simp add: size_run split: if_splits)
  then show ?thesis using * M by (auto simp del: last_map)
qed

lemma pair_straight_complete:
  assumes "combo_shape PairStraight r M" "counts_of cnt M" "n = int (size M)"
  shows "is_pair_straight n cnt"
proof -
  obtain lo where lo: "3 \<le> lo" "lo + 2 \<le> r" "r \<le> 14" and M: "M = run 2 lo r"
    using assms(1) by auto
  note * = run_all_count [OF assms(2) [unfolded M]]
  have n: "n = 2 * (r - lo + 1)" using lo by (simp add: assms(3) M size_run)
  have len: "int (length cnt) = r - lo + 1"
    using arg_cong [OF *(2), of length] lo by simp
  show ?thesis
    using lo n len * sequence_upto [of lo r] by (auto simp: is_pair_straight_def Let_def)
qed

lemma plane_sound:
  assumes "is_plane n cnt" "counts_of cnt M" "n = int (size M)"
  shows "combo_shape Plane (last (map fst cnt)) M"
proof -
  obtain lo hi where *: "3 \<le> lo" "lo \<le> hi" "hi \<le> 14" "map fst cnt = [lo..hi]"
    and k: "\<forall>kv \<in> set cnt. snd kv = int 3" and n: "n \<ge> 6"
    using assms(1) sequence_iff [of "map fst cnt"] by (auto simp: is_plane_def Let_def)
  have M: "M = run 3 lo hi" by (rule all_count_run [OF assms(2) k *(4)])
  then have "lo + 1 \<le> hi" using n assms(3) by (simp add: size_run split: if_splits)
  then show ?thesis using * M by (auto simp del: last_map)
qed

lemma plane_complete:
  assumes "combo_shape Plane r M" "counts_of cnt M" "n = int (size M)"
  shows "is_plane n cnt"
proof -
  obtain lo where lo: "3 \<le> lo" "lo + 1 \<le> r" "r \<le> 14" and M: "M = run 3 lo r"
    using assms(1) by auto
  note * = run_all_count [OF assms(2) [unfolded M]]
  have n: "n = 3 * (r - lo + 1)" using lo by (simp add: assms(3) M size_run)
  have len: "int (length cnt) = r - lo + 1"
    using arg_cong [OF *(2), of length] lo by simp
  show ?thesis
    using lo n len * sequence_upto [of lo r] by (auto simp: is_plane_def Let_def)
qed

text \<open>Planes with wings of \<open>w\<close> cards each.\<close>

definition winged :: "nat \<Rightarrow> int \<Rightarrow> int multiset \<Rightarrow> bool" where
  "winged w r M \<longleftrightarrow>
     (\<exists>lo W. 3 \<le> lo \<and> lo + 1 \<le> r \<and> r \<le> 14 \<and> finite W \<and> W \<inter> {lo..r} = {} \<and>
       int (card W) = r - lo + 1 \<and> M = run 3 lo r + repeat_mset w (mset_set W))"

lemma winged_shapes:
  "combo_shape PlaneSingle r M \<longleftrightarrow> winged (Suc 0) r M"
  "combo_shape PlanePair r M \<longleftrightarrow> winged 2 r M"
  by (simp_all add: winged_def)

lemma length_filter_keys:
  assumes "counts_of cnt M"
  shows "length (filter (\<lambda>kv. P (snd kv)) cnt) = card {r. r \<in># M \<and> P (int (count M r))}"
proof -
  have d: "distinct (map fst (filter (\<lambda>kv. P (snd kv)) cnt))"
    using counts_ofD(4) [OF assms] by (simp add: distinct_map_filter)
  have "set (map fst (filter (\<lambda>kv. P (snd kv)) cnt)) = {r. r \<in># M \<and> P (int (count M r))}"
    using counts_ofD(3) [OF assms] by force
  with distinct_card [OF d] show ?thesis by simp
qed

lemma count_winged:
  assumes "finite W" "W \<inter> {lo..hi} = {}"
  shows "count (run 3 lo hi + repeat_mset w (mset_set W)) r =
    (if lo \<le> r \<and> r \<le> hi then 3 else if r \<in> W then w else 0)"
  using assms by (auto simp: count_run)

lemma winged_sound:
  assumes "is_winged_plane (int w) n cnt" "counts_of cnt M" "n = int (size M)" "w \<in> {1, 2}"
  shows "winged w (MaxRank (CollectRanksByCount cnt 3)) M"
proof -
  let ?T = "CollectRanksByCount cnt 3"
  have seq: "IsConsecutive ?T \<and> IsValidSequenceRanks ?T"
    and n: "n \<ge> 2 * (3 + int w)" and len: "int (length ?T) = n div (3 + int w)"
    and w: "count_wings (int w) ?T cnt 0 = Some (n div (3 + int w))"
    using assms(1) by (simp_all add: is_winged_plane_def Let_def)
  obtain lo hi where lo: "3 \<le> lo" "lo \<le> hi" "hi \<le> 14" and T: "?T = [lo..hi]"
    using seq unfolding sequence_iff by blast
  define W where "W = {r. r \<in># M \<and> int (count M r) \<noteq> 3}"
  have "{r. count M r = 3} = {lo..hi}"
    using collect_set [OF assms(2), of 3] by (simp add: T)
  then have three: "count M r = 3 \<longleftrightarrow> lo \<le> r \<and> r \<le> hi" for r
    by (simp add: set_eq_iff)
  have other: "count M r = w" if "r \<in> W" for r
  proof -
    have "(r, int (count M r)) \<in> set cnt" and "int (count M r) \<noteq> 3"
      using that counts_ofD(3) [OF assms(2)] by (simp_all add: W_def)
    with w show ?thesis unfolding count_wings_iff by (metis fst_conv of_nat_eq_iff snd_conv)
  qed
  have fin: "finite W" unfolding W_def by (rule finite_subset [of _ "set_mset M"]) auto
  have dis: "W \<inter> {lo..hi} = {}" by (simp add: W_def three disjoint_iff)
  have "n div (3 + int w) = int (card W)"
    using w length_filter_keys [OF assms(2), of "\<lambda>k. k \<noteq> 3"] by (simp add: count_wings_iff W_def)
  moreover have "n div (3 + int w) = hi - lo + 1" using len T lo by simp
  moreover have "2 \<le> n div (3 + int w)"
    using zdiv_mono1 [OF n, of "3 + int w"] nonzero_mult_div_cancel_right [of "3 + int w" 2] by simp
  moreover have "M = run 3 lo hi + repeat_mset w (mset_set W)"
  proof (rule multiset_eqI)
    fix r
    have "count M r = 0" if "r \<notin> W" "\<not> (lo \<le> r \<and> r \<le> hi)"
      using that three [of r] by (auto simp: W_def not_in_iff)
    then show "count M r = count (run 3 lo hi + repeat_mset w (mset_set W)) r"
      unfolding count_winged [OF fin dis] using three [of r] other [of r] by auto
  qed
  ultimately have "\<exists>lo W. 3 \<le> lo \<and> lo + 1 \<le> hi \<and> hi \<le> 14 \<and> finite W \<and> W \<inter> {lo..hi} = {} \<and>
      int (card W) = hi - lo + 1 \<and> M = run 3 lo hi + repeat_mset w (mset_set W)"
    using lo fin dis by (intro exI [of _ lo] exI [of _ W]) linarith
  then show ?thesis unfolding winged_def T MaxRank_upto [OF lo(2)] .
qed

lemma winged_complete:
  assumes "winged w r M" "counts_of cnt M" "n = int (size M)" "w \<in> {1, 2}"
  shows "is_winged_plane (int w) n cnt"
proof -
  obtain lo W where lo: "3 \<le> lo" "lo + 1 \<le> r" "r \<le> 14" and W: "finite W" "W \<inter> {lo..r} = {}"
    "int (card W) = r - lo + 1" and M: "M = run 3 lo r + repeat_mset w (mset_set W)"
    using assms(1) unfolding winged_def by blast
  let ?T = "CollectRanksByCount cnt 3"
  note count_M = count_winged [OF W(1,2), of w, folded M]
  have "set ?T = {lo..r}"
    using collect_set [OF assms(2), of 3] assms(4) by (auto simp: count_M)
  then have T: "?T = [lo..r]" by (intro sorted_eq_upto collect_sorted [OF assms(2)])
  have "n = 3 * (r - lo + 1) + int w * (r - lo + 1)"
    using lo W by (simp add: assms(3) M size_run)
  then have n: "n = (3 + int w) * (r - lo + 1)" by (simp add: algebra_simps)
  have width: "n div (3 + int w) = r - lo + 1" "n mod (3 + int w) = 0" by (simp_all add: n)
  have "{x. x \<in># M \<and> int (count M x) \<noteq> 3} = W"
    using assms(4) W(1,2) by (auto simp: count_M simp flip: count_greater_zero_iff split: if_splits)
  then have "int (length (filter (\<lambda>kv. snd kv \<noteq> 3) cnt)) = r - lo + 1"
    using length_filter_keys [OF assms(2), of "\<lambda>k. k \<noteq> 3"] W(3) by simp
  moreover have "snd kv = 3 \<or> snd kv = int w \<and> fst kv \<notin> set ?T" if "kv \<in> set cnt" for kv
    using that counts_ofD(3) [OF assms(2), of "fst kv" "snd kv"] assms(4) T
    by (auto simp: count_M simp flip: count_greater_zero_iff split: if_splits)
  ultimately have "count_wings (int w) ?T cnt 0 = Some (r - lo + 1)"
    by (simp add: count_wings_iff)
  moreover have "2 * (3 + int w) \<le> n"
    using mult_right_mono [of 2 "r - lo + 1" "3 + int w"] lo unfolding n by (simp add: mult.commute)
  ultimately show ?thesis
    using lo width sequence_upto [of lo r] by (simp add: is_winged_plane_def Let_def T)
qed

text \<open>Small plays and the four-with-two types: the counts found by the code add up to the whole
  play, so nothing else is in it.\<close>

lemma mset_eq_of_size: "N \<subseteq># M \<Longrightarrow> size M \<le> size N \<Longrightarrow> M = N"
  by (metis mset_subset_size nless_le subset_mset.nless_le verit_comp_simplify1(3))

lemma counts_in: "counts_of cnt M \<Longrightarrow> (r, int (Suc k)) \<in> set cnt \<longleftrightarrow> count M r = Suc k"
  using counts_ofD(3) [of cnt M r "int (Suc k)"] by (auto simp flip: count_greater_zero_iff)

definition fourish :: "nat \<Rightarrow> int \<Rightarrow> int multiset \<Rightarrow> bool" where
  "fourish w r M \<longleftrightarrow> (\<exists>a b. a \<noteq> b \<and> a \<noteq> r \<and> b \<noteq> r \<and>
     M = replicate_mset 4 r + replicate_mset w a + replicate_mset w b)"

lemma fourish_shapes:
  "combo_shape FourTwoSingles r M \<longleftrightarrow> fourish (Suc 0) r M"
  "combo_shape FourTwoPairs r M \<longleftrightarrow> fourish 2 r M"
  by (simp_all add: fourish_def add_mset_commute)

lemma four_sound:
  assumes "four_with_two (int w) n cnt = Some r" "counts_of cnt M" "n = int (size M)"
    "w \<in> {1, 2}"
  shows "fourish w r M"
proof -
  have n: "n = 4 + 2 * int w" and r: "r > 0" and s: "scan_four (int w) cnt 0 0 = Some (r, 2)"
    using assms(1) by (auto simp: four_with_two_def split: if_splits option.splits)
  have w4: "int w \<noteq> 4" using assms(4) by auto
  have "(r, 4) \<in> set cnt"
    using s r last_with_count_cases [of 4 cnt 0] unfolding scan_four_iff [OF w4] by auto
  then have r4: "count M r = 4" using counts_in [OF assms(2), of r 3] by simp
  have "card {x. x \<in># M \<and> int (count M x) = int w} = 2"
    using s length_filter_keys [OF assms(2), of "\<lambda>k. k = int w"] unfolding scan_four_iff [OF w4] by simp
  then obtain a b where ab: "{x. x \<in># M \<and> int (count M x) = int w} = {a, b}" "a \<noteq> b"
    by (auto simp: card_2_iff)
  then have "count M a = w" "count M b = w" by auto
  with r4 ab(2) w4 have ne: "a \<noteq> b" "a \<noteq> r" "b \<noteq> r" by auto
  let ?N = "replicate_mset 4 r + replicate_mset w a + replicate_mset w b"
  have "?N \<subseteq># M"
    using ne r4 \<open>count M a = w\<close> \<open>count M b = w\<close> by (auto simp: subseteq_mset_def)
  moreover have "size M = size ?N" using n assms(3) by simp
  ultimately have "M = ?N" by (simp add: mset_eq_of_size)
  with ne show ?thesis unfolding fourish_def by blast
qed

lemma four_complete:
  assumes "fourish w r M" "counts_of cnt M" "n = int (size M)" "w \<in> {1, 2}"
    "\<forall>x \<in># M. 0 < x"
  shows "\<exists>r'. four_with_two (int w) n cnt = Some r'"
proof -
  obtain a b where ne: "a \<noteq> b" "a \<noteq> r" "b \<noteq> r"
    and M: "M = replicate_mset 4 r + replicate_mset w a + replicate_mset w b"
    using assms(1) unfolding fourish_def by blast
  have cnt: "count M x = (if x = r then 4 else if x = a \<or> x = b then w else 0)" for x
    using ne by (auto simp: M)
  have w4: "int w \<noteq> 4" "w \<noteq> 4" "0 < w" using assms(4) by auto
  have all: "snd kv = 4 \<or> snd kv = int w" if "kv \<in> set cnt" for kv
    using that counts_ofD(3) [OF assms(2), of "fst kv" "snd kv"]
    by (auto simp: cnt simp flip: count_greater_zero_iff split: if_splits)
  have "(r, 4) \<in> set cnt" using counts_in [OF assms(2), of r 3] by (simp add: cnt)
  then have "(last_with_count 4 cnt 0, 4) \<in> set cnt"
    using last_with_count_cases [of 4 cnt 0] by auto
  then have last: "0 < last_with_count 4 cnt 0"
    using counts_ofD(3) [OF assms(2)] assms(5) by blast
  have "{x. x \<in># M \<and> int (count M x) = int w} = {a, b}"
    using w4 ne by (auto simp: cnt simp flip: count_greater_zero_iff)
  then have "length (filter (\<lambda>kv. snd kv = int w) cnt) = 2"
    using length_filter_keys [OF assms(2), of "\<lambda>k. k = int w"] ne(1) by simp
  then have "scan_four (int w) cnt 0 0 = Some (last_with_count 4 cnt 0, 2)"
    unfolding scan_four_iff [OF w4(1)] using all by simp
  with last show ?thesis by (simp add: four_with_two_def assms(3) M)
qed

lemma single_key:
  assumes "counts_of cnt M"
  shows "length cnt = 1 \<longleftrightarrow> (\<exists>x. set_mset M = {x})"
proof -
  have "length cnt = card (set_mset M)"
    using distinct_card [OF counts_ofD(4) [OF assms]] counts_ofD(2) [OF assms] by simp
  then show ?thesis by (auto simp: card_1_singleton_iff)
qed

lemma single_rank:
  assumes "counts_of cnt M" "mset ranks = M" "length cnt = 1"
  shows "M = replicate_mset (size M) (ranks ! 0)"
proof -
  obtain x where x: "set_mset M = {x}" using assms single_key by blast
  then have "ranks \<noteq> []" using assms(2) by auto
  then have "ranks ! 0 \<in> set ranks" by (cases ranks) auto
  then have "ranks ! 0 = x" using x assms(2) by (metis set_mset_mset singletonD)
  then show ?thesis using set_mset_subset_singletonD [of M x] x by simp
qed

subsection \<open>Soundness, completeness and determinism of the classification\<close>

lemma ranks_short:
  assumes "mset ranks = M"
  shows "size M = 1 \<Longrightarrow> M = {#ranks ! 0#}" "size M = 2 \<Longrightarrow> M = {#ranks ! 0, ranks ! 1#}"
proof -
  have len: "length ranks = size M" using assms by auto
  show "size M = 1 \<Longrightarrow> M = {#ranks ! 0#}" "size M = 2 \<Longrightarrow> M = {#ranks ! 0, ranks ! 1#}"
    using assms len by (auto simp: length_Suc_conv numeral_2_eq_2)
qed

lemma triple_one_sound:
  assumes "counts_of cnt M" "size M = 4" "find (\<lambda>kv. snd kv = 3) cnt = Some kv"
  shows "combo_shape TripleOne (fst kv) M"
proof -
  have "kv \<in> set cnt" "snd kv = 3" using assms(3) by (auto simp: find_Some_iff)
  define r where "r = fst kv"
  then have kv: "kv = (r, 3)" using \<open>snd kv = 3\<close> by (simp add: prod_eq_iff)
  then have "(r, 3) \<in> set cnt" using \<open>kv \<in> set cnt\<close> by simp
  then have r: "count M r = 3" using counts_in [OF assms(1), of r 2] by simp
  define N where "N = M - replicate_mset 3 r"
  have M: "M = replicate_mset 3 r + N"
    unfolding N_def using r by (simp add: multiset_eq_iff)
  then have "size N = 1" using assms(2) by simp
  then obtain a where a: "N = {#a#}" using size_1_singleton_mset by blast
  have "a \<noteq> r" using r by (auto simp: M a split: if_splits)
  then show ?thesis using M a kv by auto
qed

lemma triple_pair_sound:
  assumes "counts_of cnt M" "size M = 5"
    "last_with_count 3 cnt 0 > 0" "last_with_count 2 cnt 0 > 0"
  shows "combo_shape TriplePair (last_with_count 3 cnt 0) M"
proof -
  let ?r = "last_with_count 3 cnt 0" and ?a = "last_with_count 2 cnt 0"
  have "(?r, 3) \<in> set cnt" "(?a, 2) \<in> set cnt"
    using assms(3,4) last_with_count_cases [of 3 cnt 0] last_with_count_cases [of 2 cnt 0] by auto
  then have c: "count M ?r = 3" "count M ?a = 2"
    using counts_in [OF assms(1), of ?r 2] counts_in [OF assms(1), of ?a 1] by simp_all
  then have ne: "?a \<noteq> ?r" by auto
  then have "replicate_mset 3 ?r + replicate_mset 2 ?a \<subseteq># M"
    using c by (auto simp: subseteq_mset_def)
  then have "M = replicate_mset 3 ?r + replicate_mset 2 ?a"
    by (rule mset_eq_of_size) (simp add: assms(2))
  with ne show ?thesis unfolding combo_shape.simps by blast
qed

definition fits :: "card_combo \<Rightarrow> int multiset \<Rightarrow> bool" where
  "fits c M \<longleftrightarrow> (cc_valid c \<longrightarrow> combo_shape (cc_type c) (cc_main_rank c) M)"

lemma fits_ok [simp]: "fits (combo_ok n t r) M \<longleftrightarrow> combo_shape t r M"
  and fits_none [simp]: "fits (combo_none n) M"
  by (simp_all add: fits_def)

lemma analyze_long_sound:
  assumes "counts_of cnt M" "mset ranks = M" "n = int (size M)"
  shows "fits (analyze_long n cnt ranks) M"
proof -
  have "fits (combo_ok n t r) M" if "combo_shape t r M" for t r using that by simp
  note ok = this
  show ?thesis
    unfolding analyze_long_def
    using assms triple_pair_sound [OF assms(1)] straight_sound [OF _ assms(2,3), of cnt]
      pair_straight_sound [OF _ assms(1,3)] plane_sound [OF _ assms(1,3)]
      winged_sound [of 1, OF _ assms(1,3)] winged_sound [of 2, OF _ assms(1,3)]
      four_sound [of 1, OF _ assms(1,3)] four_sound [of 2, OF _ assms(1,3)]
    by (simp add: fourish_shapes winged_shapes del: combo_shape.simps split: option.split)
qed

lemma analyze_counts_sound:
  assumes "counts_of cnt M" "mset ranks = M" "n = int (size M)" "sorted ranks" "M \<noteq> {#}"
  shows "fits (analyze_counts n cnt ranks) M"
proof (cases "n = 1 \<or> n = 2 \<or> n = 3 \<or> n = 4")
  case False
  then show ?thesis
    using analyze_long_sound [OF assms(1-3)] by (simp add: analyze_counts_def)
next
  case True
  have one: "M = {#ranks ! 0#}" if "n = 1"
    using that assms(3) ranks_short(1) [OF assms(2)] by simp
  have two: "M = {#ranks ! 0, ranks ! 1#}" if "n = 2"
    using that assms(3) ranks_short(2) [OF assms(2)] by simp
  note key = single_rank [OF assms(1,2)]
  from True show ?thesis
  proof (elim disjE)
    assume "n = 1"
    with one show ?thesis by (simp add: analyze_counts_def)
  next
    assume "n = 2"
    with two show ?thesis by (simp add: analyze_counts_def numeral_2_eq_2)
  next
    assume "n = 3"
    with key assms(3) show ?thesis by (auto simp: analyze_counts_def)
  next
    assume "n = 4"
    with key assms(3) triple_one_sound [OF assms(1)] show ?thesis
      by (auto simp: analyze_counts_def simp del: combo_shape.simps(7) split: option.split)
  qed
qed

lemma analyze_long_valid:
  "is_straight n cnt ranks \<Longrightarrow> cc_valid (analyze_long n cnt ranks)"
  "is_pair_straight n cnt \<Longrightarrow> cc_valid (analyze_long n cnt ranks)"
  "is_plane n cnt \<Longrightarrow> cc_valid (analyze_long n cnt ranks)"
  "is_winged_plane 1 n cnt \<Longrightarrow> cc_valid (analyze_long n cnt ranks)"
  "is_winged_plane 2 n cnt \<Longrightarrow> cc_valid (analyze_long n cnt ranks)"
  "four_with_two 1 n cnt = Some r \<Longrightarrow> cc_valid (analyze_long n cnt ranks)"
  "four_with_two 2 n cnt = Some r \<Longrightarrow> cc_valid (analyze_long n cnt ranks)"
  "n = 5 \<Longrightarrow> length cnt = 2 \<Longrightarrow> last_with_count 3 cnt 0 > 0 \<Longrightarrow> last_with_count 2 cnt 0 > 0 \<Longrightarrow>
     cc_valid (analyze_long n cnt ranks)"
  by (simp_all add: analyze_long_def split: option.split)

lemma last_with_count_pos:
  assumes "counts_of cnt M" "count M r = Suc k" "\<forall>x \<in># M. 0 < x"
  shows "last_with_count (int (Suc k)) cnt 0 > 0"
proof -
  have "(r, int (Suc k)) \<in> set cnt" using counts_in [OF assms(1)] assms(2) by simp
  then have "(last_with_count (int (Suc k)) cnt 0, int (Suc k)) \<in> set cnt"
    using last_with_count_cases [of "int (Suc k)" cnt 0] by auto
  then show ?thesis using counts_ofD(3) [OF assms(1)] assms(3) by blast
qed

lemma length_keys: "counts_of cnt M \<Longrightarrow> length cnt = card (set_mset M)"
  using distinct_card [OF counts_ofD(4), of cnt M] counts_ofD(2) [of cnt M] by simp

lemma triple_one_complete:
  assumes "counts_of cnt M" "M = replicate_mset 3 r + {#a#}" "a \<noteq> r"
  shows "\<exists>kv. find (\<lambda>kv. snd kv = 3) cnt = Some kv"
proof -
  have "(r, 3) \<in> set cnt" using counts_in [OF assms(1), of r 2] assms(2,3) by simp
  then have "find (\<lambda>kv. snd kv = 3) cnt \<noteq> None" by (auto simp: find_None_iff)
  then show ?thesis by blast
qed

lemma combo_shape_size:
  "combo_shape t r M \<Longrightarrow>
     (case t of Single \<Rightarrow> size M = 1 | PairC \<Rightarrow> size M = 2 | Rocket \<Rightarrow> size M = 2
      | Triple \<Rightarrow> size M = 3 | Bomb \<Rightarrow> size M = 4 | TripleOne \<Rightarrow> size M = 4 | _ \<Rightarrow> 5 \<le> size M)"
  by (cases t) (auto simp: size_run)

lemma analyze_short_complete:
  assumes "combo_shape t r M" "counts_of cnt M" "mset ranks = M" "n = int (size M)"
    "sorted ranks" "t \<in> {Single, PairC, Rocket, Triple, Bomb, TripleOne}"
  shows "cc_valid (analyze_counts n cnt ranks)"
proof -
  have len: "length ranks = size M" using assms(3) by auto
  have r2: "ranks = [x, y]" if "M = {#x, y#}" "x \<le> y" for x y
    using that assms(3,5) properties_for_sort [of ranks "[x, y]"] sorted_sort_id [of "[x, y]"]
    by simp
  note simps = analyze_counts_def assms(4)
  from assms(6) show ?thesis
  proof (elim insertE emptyE)
    assume "t = Single"
    then show ?thesis using assms(1) by (simp add: simps)
  next
    assume "t = PairC"
    then have M: "M = {#r, r#}" using assms(1) by (simp add: numeral_2_eq_2)
    then show ?thesis using r2 [of r r] by (simp add: simps)
  next
    assume "t = Rocket"
    then have M: "M = {#16, 17#}" using assms(1) by simp
    then show ?thesis using r2 [of 16 17] by (simp add: simps)
  next
    assume "t = Triple"
    then show ?thesis using assms(1) length_keys [OF assms(2)] by (simp add: simps)
  next
    assume "t = Bomb"
    then show ?thesis using assms(1) length_keys [OF assms(2)] by (simp add: simps)
  next
    assume "t = TripleOne"
    then obtain a where a: "a \<noteq> r" "M = replicate_mset 3 r + {#a#}" using assms(1) by auto
    obtain kv where "find (\<lambda>kv. snd kv = 3) cnt = Some kv"
      using triple_one_complete [OF assms(2) a(2,1)] by blast
    then show ?thesis using a by (simp add: simps)
  qed
qed

lemma analyze_long_complete:
  assumes "combo_shape t r M" "counts_of cnt M" "mset ranks = M" "n = int (size M)"
    "sorted ranks" "\<forall>x \<in># M. 0 < x" "t \<notin> {Single, PairC, Rocket, Triple, Bomb, TripleOne}"
  shows "cc_valid (analyze_long n cnt ranks)"
proof (cases t)
  case TriplePair
  then obtain a where a: "a \<noteq> r" "M = replicate_mset 3 r + replicate_mset 2 a"
    using assms(1) by auto
  then have c: "count M r = Suc 2" "count M a = Suc 1" by auto
  have "set_mset M = {r, a}" using a by auto
  then have "length cnt = 2" using length_keys [OF assms(2)] a by simp
  moreover have "n = 5" using a assms(4) by simp
  ultimately show ?thesis
    using last_with_count_pos [OF assms(2) c(1) assms(6)] last_with_count_pos [OF assms(2) c(2) assms(6)]
    by (intro analyze_long_valid(8)) (simp_all add: numeral_eq_Suc)
next
  case Straight
  with assms show ?thesis by (metis analyze_long_valid(1) straight_complete)
next
  case PairStraight
  with assms show ?thesis by (metis analyze_long_valid(2) pair_straight_complete)
next
  case Plane
  with assms show ?thesis by (metis analyze_long_valid(3) plane_complete)
next
  case PlaneSingle
  then have "winged 1 r M" using assms(1) winged_shapes by simp
  from winged_complete [OF this assms(2,4)] show ?thesis by (intro analyze_long_valid(4)) simp
next
  case PlanePair
  then have "winged 2 r M" using assms(1) winged_shapes by simp
  from winged_complete [OF this assms(2,4)] show ?thesis by (intro analyze_long_valid(5)) simp
next
  case FourTwoSingles
  then have "fourish 1 r M" using assms(1) fourish_shapes by simp
  from four_complete [OF this assms(2,4) _ assms(6)] show ?thesis
    by (auto intro: analyze_long_valid(6))
next
  case FourTwoPairs
  then have "fourish 2 r M" using assms(1) fourish_shapes by simp
  from four_complete [OF this assms(2,4) _ assms(6)] show ?thesis
    by (auto intro: analyze_long_valid(7))
qed (use assms in auto)

lemma analyze_counts_complete:
  assumes "combo_shape t r M" "counts_of cnt M" "mset ranks = M" "n = int (size M)"
    "sorted ranks" "\<forall>x \<in># M. 0 < x"
  shows "cc_valid (analyze_counts n cnt ranks)"
proof (cases "t \<in> {Single, PairC, Rocket, Triple, Bomb, TripleOne}")
  case True
  then show ?thesis using analyze_short_complete [OF assms(1-5)] by blast
next
  case False
  then have "5 \<le> n" using combo_shape_size [OF assms(1)] assms(1,4) by (cases t) auto
  then show ?thesis
    using analyze_long_complete [OF assms False] by (simp add: analyze_counts_def)
qed

text \<open>The type and the main rank are determined by how many ranks occur once, twice, three
  and four times: no play has two readings.\<close>

fun profile :: "combo_type \<Rightarrow> nat \<Rightarrow> nat \<Rightarrow> nat \<Rightarrow> nat \<Rightarrow> bool" where
  "profile Invalid a b c d \<longleftrightarrow> False"
| "profile Single a b c d \<longleftrightarrow> a = 1 \<and> b = 0 \<and> c = 0 \<and> d = 0"
| "profile PairC a b c d \<longleftrightarrow> a = 0 \<and> b = 1 \<and> c = 0 \<and> d = 0"
| "profile Triple a b c d \<longleftrightarrow> a = 0 \<and> b = 0 \<and> c = 1 \<and> d = 0"
| "profile Bomb a b c d \<longleftrightarrow> a = 0 \<and> b = 0 \<and> c = 0 \<and> d = 1"
| "profile Rocket a b c d \<longleftrightarrow> a = 2 \<and> b = 0 \<and> c = 0 \<and> d = 0"
| "profile TripleOne a b c d \<longleftrightarrow> a = 1 \<and> b = 0 \<and> c = 1 \<and> d = 0"
| "profile TriplePair a b c d \<longleftrightarrow> a = 0 \<and> b = 1 \<and> c = 1 \<and> d = 0"
| "profile Straight a b c d \<longleftrightarrow> a \<ge> 5 \<and> b = 0 \<and> c = 0 \<and> d = 0"
| "profile PairStraight a b c d \<longleftrightarrow> a = 0 \<and> b \<ge> 3 \<and> c = 0 \<and> d = 0"
| "profile Plane a b c d \<longleftrightarrow> a = 0 \<and> b = 0 \<and> c \<ge> 2 \<and> d = 0"
| "profile PlaneSingle a b c d \<longleftrightarrow> a \<ge> 2 \<and> b = 0 \<and> c = a \<and> d = 0"
| "profile PlanePair a b c d \<longleftrightarrow> a = 0 \<and> b \<ge> 2 \<and> c = b \<and> d = 0"
| "profile FourTwoSingles a b c d \<longleftrightarrow> a = 2 \<and> b = 0 \<and> c = 0 \<and> d = 1"
| "profile FourTwoPairs a b c d \<longleftrightarrow> a = 0 \<and> b = 2 \<and> c = 0 \<and> d = 1"

fun main_count :: "combo_type \<Rightarrow> nat" where
  "main_count PairC = 2"
| "main_count PairStraight = 2"
| "main_count Triple = 3"
| "main_count TripleOne = 3"
| "main_count TriplePair = 3"
| "main_count Plane = 3"
| "main_count PlaneSingle = 3"
| "main_count PlanePair = 3"
| "main_count Bomb = 4"
| "main_count FourTwoSingles = 4"
| "main_count FourTwoPairs = 4"
| "main_count _ = 1"

definition with_count :: "nat \<Rightarrow> int multiset \<Rightarrow> int set" where
  "with_count k M = {x. count M x = k}"

lemma profile_inj: "profile t a b c d \<Longrightarrow> profile t' a b c d \<Longrightarrow> t = t'"
  by (cases t; cases t'; simp)

lemma with_count_run:
  "0 < k \<Longrightarrow> 0 < j \<Longrightarrow> with_count j (run k lo hi) = (if j = k then {lo..hi} else {})"
  by (auto simp: with_count_def count_run)

lemma with_count_replicate:
  "0 < j \<Longrightarrow> 0 < k \<Longrightarrow> with_count j (replicate_mset k r) = (if j = k then {r} else {})"
  by (auto simp: with_count_def)

lemma with_count_add_disjoint:
  assumes "set_mset M \<inter> set_mset N = {}" "0 < j"
  shows "with_count j (M + N) = with_count j M \<union> with_count j N"
proof -
  have *: "count M x = 0 \<or> count N x = 0" for x
    using assms(1) by (metis disjoint_iff not_in_iff)
  have "count M x + count N x = j \<longleftrightarrow> count M x = j \<or> count N x = j" for x
    using * [of x] assms(2) by auto
  then show ?thesis by (auto simp: with_count_def)
qed

lemma with_count_wings:
  assumes "finite W" "0 < w" "0 < j"
  shows "with_count j (repeat_mset w (mset_set W)) = (if j = w then W else {})"
  using assms by (auto simp: with_count_def count_mset_set')

lemma shape_profile:
  assumes "combo_shape t r M"
  shows "profile t (card (with_count 1 M)) (card (with_count 2 M))
           (card (with_count 3 M)) (card (with_count 4 M)) \<and>
         r \<in> with_count (main_count t) M \<and> (\<forall>x \<in> with_count (main_count t) M. x \<le> r)"
proof -
  have winged: "with_count j M = (if j = w then W else if j = 3 then {lo..r} else {})"
    if "0 < j" "0 < w" "w \<noteq> 3" "finite W" "W \<inter> {lo..r} = {}"
      "M = run 3 lo r + repeat_mset w (mset_set W)" for j w lo W
  proof -
    have "x \<notin># repeat_mset w (mset_set W)" if "x \<notin> W" for x
      using that by (simp add: not_in_iff count_mset_set')
    then have "set_mset (run 3 lo r) \<inter> set_mset (repeat_mset w (mset_set W)) = {}"
      using that(5) by (auto simp: disjoint_iff)
    then show ?thesis
      using that by (simp add: with_count_add_disjoint with_count_run with_count_wings)
  qed
  show ?thesis
  proof (cases t)
    case Rocket
    then have M: "count M x = (if x = 16 \<or> x = 17 then 1 else 0)" for x using assms by simp
    have "with_count 1 M = {16, 17}" "with_count 2 M = {}" "with_count 3 M = {}"
      "with_count 4 M = {}" by (auto simp: with_count_def M)
    then show ?thesis using Rocket assms by simp
  next
    case TripleOne
    then obtain a where a: "a \<noteq> r" "M = replicate_mset 3 r + {#a#}" using assms by auto
    then have M: "count M x = (if x = r then 3 else if x = a then 1 else 0)" for x by simp
    have "with_count 1 M = {a}" "with_count 2 M = {}" "with_count 3 M = {r}"
      "with_count 4 M = {}" using a by (auto simp: with_count_def M)
    then show ?thesis using TripleOne by simp
  next
    case TriplePair
    then obtain a where a: "a \<noteq> r" "M = replicate_mset 3 r + replicate_mset 2 a" using assms by auto
    then have M: "count M x = (if x = r then 3 else if x = a then 2 else 0)" for x by simp
    have "with_count 1 M = {}" "with_count 2 M = {a}" "with_count 3 M = {r}"
      "with_count 4 M = {}" using a by (auto simp: with_count_def M)
    then show ?thesis using TriplePair by simp
  next
    case FourTwoSingles
    then obtain a b where a: "a \<noteq> b" "a \<noteq> r" "b \<noteq> r" "M = replicate_mset 4 r + {#a, b#}"
      using assms by auto
    then have M: "count M x = (if x = r then 4 else if x = a \<or> x = b then 1 else 0)" for x by simp
    have "with_count 1 M = {a, b}" "with_count 2 M = {}" "with_count 3 M = {}"
      "with_count 4 M = {r}" using a by (auto simp: with_count_def M)
    then show ?thesis using FourTwoSingles a by simp
  next
    case FourTwoPairs
    then obtain a b where a: "a \<noteq> b" "a \<noteq> r" "b \<noteq> r"
      "M = replicate_mset 4 r + replicate_mset 2 a + replicate_mset 2 b" using assms by auto
    then have M: "count M x = (if x = r then 4 else if x = a \<or> x = b then 2 else 0)" for x by simp
    have "with_count 1 M = {}" "with_count 2 M = {a, b}" "with_count 3 M = {}"
      "with_count 4 M = {r}" using a by (auto simp: with_count_def M)
    then show ?thesis using FourTwoPairs a by simp
  next
    case PlaneSingle
    then obtain lo W where "lo + 1 \<le> r" "finite W" "W \<inter> {lo..r} = {}"
      "int (card W) = r - lo + 1" "M = run 3 lo r + repeat_mset 1 (mset_set W)"
      using assms by auto
    then show ?thesis using PlaneSingle winged [of _ 1 W lo] by simp
  next
    case PlanePair
    then obtain lo W where "lo + 1 \<le> r" "finite W" "W \<inter> {lo..r} = {}"
      "int (card W) = r - lo + 1" "M = run 3 lo r + repeat_mset 2 (mset_set W)"
      using assms by auto
    then show ?thesis using PlanePair winged [of _ 2 W lo] by simp
  next
    case Single
    then have "M = replicate_mset 1 r" using assms by simp
    then show ?thesis using Single with_count_replicate [of _ 1] by simp
  qed (use assms in \<open>auto simp: with_count_run with_count_replicate\<close>)
qed

lemma combo_shape_unique:
  assumes "combo_shape t r M" "combo_shape t' r' M"
  shows "t = t' \<and> r = r'"
proof -
  have "t = t'" using shape_profile [OF assms(1)] shape_profile [OF assms(2)] profile_inj by blast
  moreover from this have "r = r'"
    using shape_profile [OF assms(1)] shape_profile [OF assms(2)] by (simp add: antisym)
  ultimately show ?thesis by simp
qed

subsection \<open>The classification as a whole\<close>

lemma valid_ranks_pos:
  "set cards \<subseteq> {0..53} \<Longrightarrow> \<forall>x \<in># rank_mset cards. 0 < x"
proof -
  assume *: "set cards \<subseteq> {0..53}"
  have "0 < CardRank c" if "c \<in> set cards" for c
    using that * CardRank_range [of c] by (fastforce simp: subset_iff)
  then show ?thesis by (simp add: rank_mset_def)
qed

lemma Analyze_counts:
  assumes "set cards \<subseteq> {0..53}" "cards \<noteq> []"
  obtains cnt ranks where "Analyze cards = analyze_counts (int (length cards)) cnt ranks"
    "counts_of cnt (rank_mset cards)" "mset ranks = rank_mset cards" "sorted ranks"
proof -
  have "\<forall>c \<in> set cards. 0 \<le> c \<and> c \<le> 53" using assms(1) by auto
  then obtain cnt ranks where *: "count_ranks cards [] [] = Some (cnt, ranks)"
    "counts_of cnt (rank_mset cards)" "mset ranks = rank_mset cards"
    by (rule count_ranks_Some)
  show ?thesis
    by (rule that [of cnt "sort ranks"]) (use * assms(2) in \<open>simp_all add: Analyze_def Let_def\<close>)
qed

lemma Analyze_out_of_range: "\<not> set cards \<subseteq> {0..53} \<Longrightarrow> Analyze cards = combo_none (int (length cards))"
proof -
  assume "\<not> set cards \<subseteq> {0..53}"
  then have "count_ranks cards [] [] = None" by (intro count_ranks_None) auto
  then show ?thesis by (simp add: Analyze_def Let_def)
qed

lemma Analyze_Nil [simp]: "Analyze [] = combo_none 0"
  by (simp add: Analyze_def)

lemma cc_card_count_analyze_counts [simp]: "cc_card_count (analyze_counts n cnt ranks) = n"
  by (simp add: analyze_counts_def analyze_long_def split: option.split)

lemma cc_card_count_Analyze: "cc_card_count (Analyze cards) = int (length cards)"
  by (simp add: Analyze_def Let_def split: option.split prod.split)

lemma combo_shape_empty [simp]: "\<not> combo_shape t r {#}"
  using combo_shape_size [of t r "{#}"] by (cases t) auto

lemma Analyze_valid_shape:
  "cc_valid (Analyze cards) \<Longrightarrow> set cards \<subseteq> {0..53} \<and>
     combo_shape (cc_type (Analyze cards)) (cc_main_rank (Analyze cards)) (rank_mset cards)"
proof -
  assume v: "cc_valid (Analyze cards)"
  then have c: "set cards \<subseteq> {0..53}" "cards \<noteq> []"
    by (metis Analyze_out_of_range combo_sel(5), auto)
  then obtain cnt ranks where A: "Analyze cards = analyze_counts (int (length cards)) cnt ranks"
    and *: "counts_of cnt (rank_mset cards)" "mset ranks = rank_mset cards" "sorted ranks"
    by (rule Analyze_counts)
  have "rank_mset cards \<noteq> {#}" using c(2) by (cases cards) auto
  then have "fits (Analyze cards) (rank_mset cards)"
    unfolding A by (intro analyze_counts_sound [OF *(1,2) _ *(3)]) simp_all
  with v c(1) show ?thesis by (simp add: fits_def)
qed

lemma Analyze_shape_valid:
  assumes "set cards \<subseteq> {0..53}" "combo_shape t r (rank_mset cards)"
  shows "Analyze cards = combo_ok (int (length cards)) t r"
proof -
  have "cards \<noteq> []" using assms(2) by auto
  then obtain cnt ranks where A: "Analyze cards = analyze_counts (int (length cards)) cnt ranks"
    and *: "counts_of cnt (rank_mset cards)" "mset ranks = rank_mset cards" "sorted ranks"
    using Analyze_counts [OF assms(1)] by blast
  have v: "cc_valid (Analyze cards)"
    unfolding A
    by (rule analyze_counts_complete [OF assms(2) * (1,2) _ *(3) valid_ranks_pos [OF assms(1)]]) simp
  then have "cc_type (Analyze cards) = t \<and> cc_main_rank (Analyze cards) = r"
    using Analyze_valid_shape [OF v] combo_shape_unique assms(2) by blast
  with v show ?thesis by (simp add: combo_ok_def cc_card_count_Analyze)
qed

lemma analyze_long_cases:
  "cc_valid (analyze_long n cnt ranks) \<or> analyze_long n cnt ranks = combo_none n"
  by (simp add: analyze_long_def split: option.split)

lemma analyze_counts_cases:
  "cc_valid (analyze_counts n cnt ranks) \<or> analyze_counts n cnt ranks = combo_none n"
  using analyze_long_cases by (simp add: analyze_counts_def split: option.split)

lemma Analyze_invalid:
  "\<not> cc_valid (Analyze cards) \<Longrightarrow> Analyze cards = combo_none (int (length cards))"
  using analyze_counts_cases by (auto simp: Analyze_def Let_def split: option.splits if_splits)

text \<open>The interface the room uses to judge plays: the classification depends on the cards
  played and not on their order, nothing beats itself, and beating is transitive.\<close>

locale play_judge =
  fixes analyze :: "card list \<Rightarrow> 'c" and valid :: "'c \<Rightarrow> bool" and beats :: "'c \<Rightarrow> 'c \<Rightarrow> bool"
  assumes order_free: "mset xs = mset ys \<Longrightarrow> analyze xs = analyze ys"
    and empty_invalid: "\<not> valid (analyze [])"
    and beats_valid: "beats c d \<Longrightarrow> valid c"
    and lead: "valid c \<Longrightarrow> \<not> valid d \<Longrightarrow> beats c d"
    and irrefl: "valid c \<Longrightarrow> \<not> beats c c"
    and trans: "valid d \<Longrightarrow> beats b c \<Longrightarrow> beats c d \<Longrightarrow> beats b d"
begin

text \<open>A trick: each play beats the one before it (the latest play first).\<close>

fun trick :: "card list list \<Rightarrow> bool" where
  "trick [] \<longleftrightarrow> True"
| "trick [p] \<longleftrightarrow> valid (analyze p)"
| "trick (p # q # ps) \<longleftrightarrow> beats (analyze p) (analyze q) \<and> trick (q # ps)"

lemma trick_valid: "trick ps \<Longrightarrow> p \<in> set ps \<Longrightarrow> valid (analyze p)"
  by (induction ps rule: trick.induct) (auto dest: beats_valid)

lemma trick_tl: "trick (p # ps) \<Longrightarrow> trick ps"
  by (cases ps) auto

lemma trick_head_beats:
  "trick (p # ps) \<Longrightarrow> q \<in> set ps \<Longrightarrow> beats (analyze p) (analyze q)"
proof (induction ps arbitrary: p)
  case (Cons r rs)
  show ?case
  proof (cases "q = r")
    case False
    then have "beats (analyze r) (analyze q)" using Cons by auto
    then show ?thesis using Cons.prems trick_valid [OF Cons.prems(1), of q] trans by auto
  qed (use Cons.prems in auto)
qed simp

lemma trick_no_repeat:
  "trick ps \<Longrightarrow> distinct (map (\<lambda>p. analyze p) ps)"
proof (induction ps)
  case (Cons p ps)
  have "analyze p \<noteq> analyze q" if "q \<in> set ps" for q
    using trick_head_beats [OF Cons.prems that] trick_valid [OF Cons.prems, of q] irrefl that
    by (metis list.set_intros(2))
  then have "analyze p \<notin> analyze ` set ps" by blast
  then show ?case using Cons.IH trick_tl [OF Cons.prems] by simp
qed simp

lemma trick_not_reordered:
  "trick (p # ps) \<Longrightarrow> mset p = mset q \<Longrightarrow> q \<notin> set ps"
  using trick_no_repeat [of "p # ps"] order_free [of p q] by auto

end

lemma Analyze_mset: "mset xs = mset ys \<Longrightarrow> Analyze xs = Analyze ys"
proof -
  assume m: "mset xs = mset ys"
  have s: "set xs = set ys" "length xs = length ys" "rank_mset xs = rank_mset ys"
    using mset_eq_setD [OF m] mset_eq_length [OF m] m by (simp_all add: rank_mset_def)
  show ?thesis
  proof (cases "cc_valid (Analyze xs) \<or> cc_valid (Analyze ys)")
    case True
    then obtain t r where "set xs \<subseteq> {0..53}" "combo_shape t r (rank_mset xs)"
      using Analyze_valid_shape [of xs] Analyze_valid_shape [of ys] s by auto
    then show ?thesis
      using Analyze_shape_valid [of xs t r] Analyze_shape_valid [of ys t r] s by simp
  next
    case False
    then show ?thesis using Analyze_invalid [of xs] Analyze_invalid [of ys] s by simp
  qed
qed

text \<open>The order of plays, by strength class: a rocket above everything, a bomb above every
  ordinary type, and otherwise only the same type, of the same length for the sequences, with
  a higher main rank.\<close>

fun strength :: "combo_type \<Rightarrow> nat" where
  "strength Rocket = 2"
| "strength Bomb = 1"
| "strength _ = 0"

fun length_matters :: "combo_type \<Rightarrow> bool" where
  "length_matters Straight = True"
| "length_matters PairStraight = True"
| "length_matters Plane = True"
| "length_matters PlaneSingle = True"
| "length_matters PlanePair = True"
| "length_matters _ = False"

definition outranks :: "card_combo \<Rightarrow> card_combo \<Rightarrow> bool" where
  "outranks c d \<longleftrightarrow>
     strength (cc_type c) > strength (cc_type d) \<or>
     cc_type c = cc_type d \<and> cc_type c \<noteq> Rocket \<and>
     (length_matters (cc_type c) \<longrightarrow> cc_card_count c = cc_card_count d) \<and>
     cc_main_rank c > cc_main_rank d"

lemma CanBeat_outranks: "cc_valid c \<Longrightarrow> cc_valid d \<Longrightarrow> CanBeat c d = outranks c d"
  by (cases "cc_type c"; cases "cc_type d"; simp add: CanBeat_def outranks_def)

lemma CanBeat_lead: "\<not> cc_valid d \<Longrightarrow> CanBeat c d = cc_valid c"
  by (simp add: CanBeat_def)

lemma CanBeat_valid: "CanBeat c d \<Longrightarrow> cc_valid c"
  by (simp add: CanBeat_def split: if_splits)

lemma outranks_trans:
  assumes "outranks b c" "outranks c d"
  shows "outranks b d"
proof (cases "strength (cc_type b) > strength (cc_type c) \<or> strength (cc_type c) > strength (cc_type d)")
  case True
  then have "strength (cc_type b) > strength (cc_type d)"
    using assms unfolding outranks_def by (elim disjE conjE) simp_all
  then show ?thesis by (simp add: outranks_def)
next
  case False
  have bc: "cc_type b = cc_type c \<and> cc_type b \<noteq> Rocket \<and>
      (length_matters (cc_type b) \<longrightarrow> cc_card_count b = cc_card_count c) \<and>
      cc_main_rank b > cc_main_rank c"
    using assms(1) False unfolding outranks_def by blast
  have "cc_type c = cc_type d \<and> cc_type c \<noteq> Rocket \<and>
      (length_matters (cc_type c) \<longrightarrow> cc_card_count c = cc_card_count d) \<and>
      cc_main_rank c > cc_main_rank d"
    using assms(2) False unfolding outranks_def by blast
  with bc have "cc_type b = cc_type d \<and> cc_type b \<noteq> Rocket \<and>
      (length_matters (cc_type b) \<longrightarrow> cc_card_count b = cc_card_count d) \<and>
      cc_main_rank b > cc_main_rank d" by (elim conjE) simp
  then show ?thesis unfolding outranks_def by blast
qed

lemma CanBeat_trans:
  assumes "cc_valid d" "CanBeat b c" "CanBeat c d"
  shows "CanBeat b d"
  using assms CanBeat_valid [OF assms(2)] CanBeat_valid [OF assms(3)] outranks_trans [of b c d]
  by (simp add: CanBeat_outranks)

lemma CanBeat_irrefl: "cc_valid c \<Longrightarrow> \<not> CanBeat c c"
  by (simp add: CanBeat_outranks outranks_def)

interpretation judge: play_judge Analyze cc_valid CanBeat
proof unfold_locales
  show "\<not> cc_valid (Analyze [])" by simp
qed (rule Analyze_mset CanBeat_valid CanBeat_irrefl CanBeat_trans; assumption | simp add: CanBeat_lead)+

subsection \<open>The properties of the rule engine\<close>

text \<open>C1: a play is accepted with type t and main rank r exactly when every card is one of
  the 54 and the ranks form that shape; so every play has at most one reading, and a rejected
  play has none.\<close>

theorem Analyze_correct:
  "(cc_valid (Analyze cards) \<and> cc_type (Analyze cards) = t \<and> cc_main_rank (Analyze cards) = r)
   \<longleftrightarrow> set cards \<subseteq> {0..53} \<and> combo_shape t r (rank_mset cards)"
  using Analyze_valid_shape [of cards] Analyze_shape_valid [of cards t r] by auto

text \<open>C2: comparison of accepted plays is the strength order: rocket, then bombs by rank,
  then the same type (and length, for sequences) by main rank; an empty table is beaten by
  every accepted play and an unaccepted play beats nothing.\<close>

theorem CanBeat_correct:
  "CanBeat c d =
     (cc_valid c \<and> (if cc_valid d then outranks c d else True))"
  by (cases "cc_valid c"; cases "cc_valid d")
    (simp_all add: CanBeat_outranks CanBeat_lead, simp_all add: CanBeat_def)

text \<open>In a trick, where every play beats the one before, no play repeats an earlier one,
  not even with its cards in another order.\<close>

theorem trick_plays_differ:
  assumes "successively (\<lambda>a b. CanBeat (Analyze a) (Analyze b)) (p # ps)"
    "cc_valid (Analyze (last (p # ps)))" "mset p = mset q"
  shows "q \<notin> set ps"
proof -
  have "judge.trick qs" if "successively (\<lambda>a b. CanBeat (Analyze a) (Analyze b)) qs"
    "qs \<noteq> [] \<longrightarrow> cc_valid (Analyze (last qs))" for qs
    using that by (induction qs rule: judge.trick.induct) auto
  then show ?thesis using judge.trick_not_reordered assms by blast
qed

theorem trick_plays_differ_witness:
  "[53, 52] \<notin> set [[0, 13, 26, 39], [7::int]]"
proof (rule trick_plays_differ [of "[52, 53]"])
  show "successively (\<lambda>a b. CanBeat (Analyze a) (Analyze b)) [[52, 53], [0, 13, 26, 39], [7]]"
    "cc_valid (Analyze (last [[52, 53], [0, 13, 26, 39], [7]]))" by code_simp+
qed simp

end
