(* ===== verification/DdzText.thy ===== *)
theory DdzText
  imports DdzPrelude
begin

text \<open>
  The parts of the C++ standard library's text handling that the program uses:
  \<^verbatim>\<open>std::to_string\<close>, \<^verbatim>\<open>std::stoll\<close> and its relatives (leading white space, optional sign,
  the number of characters read, the two exceptions as \<open>None\<close>), \<^verbatim>\<open>std::getline\<close> with a
  delimiter, \<^verbatim>\<open>std::string::find\<close> for one character, and joining. The lemmas are the round
  trips that the codecs, the tokens and the data-access objects rest on.
\<close>

subsection \<open>Decimal numbers\<close>

definition digit_char :: "nat \<Rightarrow> char" where
  "digit_char d = char_of (48 + d)"

definition is_digit :: "char \<Rightarrow> bool" where
  "is_digit c \<longleftrightarrow> 48 \<le> (of_char c :: nat) \<and> (of_char c :: nat) \<le> 57"

definition digit_val :: "char \<Rightarrow> nat" where
  "digit_val c = of_char c - 48"

lemma digit_char [simp]:
  "d < 10 \<Longrightarrow> is_digit (digit_char d)" "d < 10 \<Longrightarrow> digit_val (digit_char d) = d"
  by (simp_all add: is_digit_def digit_val_def digit_char_def take_bit_eq_mod)

function nat_str :: "nat \<Rightarrow> string" where
  "nat_str n = (if n < 10 then [digit_char n] else nat_str (n div 10) @ [digit_char (n mod 10)])"
  by pat_completeness auto
termination by (relation "measure id") auto

declare nat_str.simps [simp del]

text \<open>\<^verbatim>\<open>std::to_string\<close> of a signed integer.\<close>

definition int_str :: "int \<Rightarrow> string" where
  "int_str i = (if i < 0 then CHR ''-'' # nat_str (nat (- i)) else nat_str (nat i))"

definition digits_val :: "string \<Rightarrow> nat" where
  "digits_val s = foldl (\<lambda>v c. 10 * v + digit_val c) 0 s"

lemma nat_str_digits: "list_all is_digit (nat_str n)"
proof (induction n rule: nat_str.induct)
  case (1 n)
  then show ?case by (subst nat_str.simps) simp
qed

lemma nat_str_not_Nil [simp]: "nat_str n \<noteq> []"
  by (subst nat_str.simps) simp

lemma digits_val_nat_str [simp]: "digits_val (nat_str n) = n"
proof (induction n rule: nat_str.induct)
  case (1 n)
  then show ?case by (subst nat_str.simps) (simp add: digits_val_def)
qed

lemma nat_str_inj: "nat_str m = nat_str n \<longleftrightarrow> m = n"
  by (metis digits_val_nat_str)

subsection \<open>Parsing\<close>

definition is_space :: "char \<Rightarrow> bool" where
  "is_space c \<longleftrightarrow> c = CHR '' '' \<or> 9 \<le> (of_char c :: nat) \<and> (of_char c :: nat) \<le> 13"

text \<open>What \<^verbatim>\<open>strtoll\<close> and \<^verbatim>\<open>strtoull\<close> read: the sign, the digits, and the number of
  characters up to the end of the digits; \<open>None\<close> when there is no digit.\<close>

definition scan_number :: "string \<Rightarrow> (bool \<times> nat \<times> nat) option" where
  "scan_number s =
     (let a = dropWhile is_space s;
          neg = (a \<noteq> [] \<and> hd a = CHR ''-'');
          b = (if a \<noteq> [] \<and> (hd a = CHR ''-'' \<or> hd a = CHR ''+'') then tl a else a);
          ds = takeWhile is_digit b
      in if ds = [] then None
         else Some (neg, digits_val ds, length s - length b + length ds))"

text \<open>\<^verbatim>\<open>std::stoll(s, &idx)\<close>: the value and \<open>idx\<close>; \<open>None\<close> stands for the exceptions
  \<^verbatim>\<open>invalid_argument\<close> and \<^verbatim>\<open>out_of_range\<close>.\<close>

definition stoll :: "string \<Rightarrow> (int \<times> nat) option" where
  "stoll s = (case scan_number s of
       None \<Rightarrow> None
     | Some (neg, v, k) \<Rightarrow>
         let i = (if neg then - int v else int v) in if in_i64 i then Some (i, k) else None)"

definition stoi :: "string \<Rightarrow> (int \<times> nat) option" where
  "stoi s = (case scan_number s of
       None \<Rightarrow> None
     | Some (neg, v, k) \<Rightarrow>
         let i = (if neg then - int v else int v) in if in_i32 i then Some (i, k) else None)"

text \<open>\<^verbatim>\<open>std::stoull\<close> and \<^verbatim>\<open>std::stoul\<close> (both 64 bits wide): a leading minus sign negates the
  value modulo \<open>2 ^ 64\<close>.\<close>

definition stoull :: "string \<Rightarrow> (int \<times> nat) option" where
  "stoull s = (case scan_number s of
       None \<Rightarrow> None
     | Some (neg, v, k) \<Rightarrow>
         if v < 2 ^ 64 then Some ((if neg then (- int v) mod 2 ^ 64 else int v), k) else None)"

text \<open>The idiom \<^verbatim>\<open>idx == s.size()\<close>: the whole string is the number.\<close>

definition stoll_all :: "string \<Rightarrow> int option" where
  "stoll_all s = (case stoll s of None \<Rightarrow> None | Some (v, k) \<Rightarrow> if k = length s then Some v else None)"

lemma is_space_digit: "is_digit c \<Longrightarrow> \<not> is_space c"
proof -
  have "(of_char (CHR '' '') :: nat) = 32" by simp
  then show "is_digit c \<Longrightarrow> \<not> is_space c" by (auto simp: is_digit_def is_space_def)
qed

lemma scan_number_digits:
  assumes "list_all is_digit ds" "ds \<noteq> []"
  shows "scan_number ds = Some (False, digits_val ds, length ds)"
    "scan_number (CHR ''-'' # ds) = Some (True, digits_val ds, Suc (length ds))"
proof -
  obtain d ds' where ds: "ds = d # ds'" "is_digit d" using assms by (cases ds) auto
  have tw: "takeWhile is_digit ds' = ds'" using assms(1) ds by (simp add: takeWhile_eq_all_conv list_all_iff)
  moreover have "dropWhile is_space ds = ds" using ds is_space_digit by simp
  moreover have "\<not> is_space (CHR ''-'')" "\<not> is_digit (CHR ''-'')" "\<not> is_digit (CHR ''+'')"
    by (simp_all add: is_space_def is_digit_def)
  moreover have "d \<noteq> CHR ''-''" "d \<noteq> CHR ''+''" using calculation ds(2) by auto
  ultimately show "scan_number ds = Some (False, digits_val ds, length ds)"
    "scan_number (CHR ''-'' # ds) = Some (True, digits_val ds, Suc (length ds))"
    using ds by (simp_all add: scan_number_def Let_def tw)
qed

lemma scan_number_int_str:
  "scan_number (int_str i) = Some (i < 0, nat \<bar>i\<bar>, length (int_str i))"
  using scan_number_digits [OF nat_str_digits nat_str_not_Nil] by (simp add: int_str_def)

lemma stoll_int_str [simp]: "in_i64 i \<Longrightarrow> stoll (int_str i) = Some (i, length (int_str i))"
  by (simp add: stoll_def scan_number_int_str)

lemma stoll_all_int_str [simp]: "in_i64 i \<Longrightarrow> stoll_all (int_str i) = Some i"
  by (simp add: stoll_all_def)

lemma stoi_int_str [simp]: "in_i32 i \<Longrightarrow> stoi (int_str i) = Some (i, length (int_str i))"
  by (simp add: stoi_def scan_number_int_str)

lemma stoull_int_str: "0 \<le> i \<Longrightarrow> i < 2 ^ 64 \<Longrightarrow> stoull (int_str i) = Some (i, length (int_str i))"
  by (simp add: stoull_def scan_number_int_str nat_less_iff)

lemma stoll_range: "stoll s = Some (v, k) \<Longrightarrow> in_i64 v"
  by (auto simp: stoll_def Let_def split: option.splits if_splits)

lemma stoll_all_range: "stoll_all s = Some v \<Longrightarrow> in_i64 v"
  by (auto simp: stoll_all_def dest: stoll_range split: option.splits if_splits)

lemma int_str_not_Nil [simp]: "int_str i \<noteq> []"
  by (simp add: int_str_def)

lemma int_str_chars: "c \<in> set (int_str i) \<Longrightarrow> is_digit c \<or> c = CHR ''-''"
  using nat_str_digits by (auto simp: int_str_def list_all_iff split: if_splits)

lemma int_str_free:
  "CHR '';'' \<notin> set (int_str i)" "CHR ''='' \<notin> set (int_str i)" "CHR '','' \<notin> set (int_str i)"
  "CHR ''|'' \<notin> set (int_str i)" "CHR ''.'' \<notin> set (int_str i)" "CHR '':'' \<notin> set (int_str i)"
  by (auto dest!: int_str_chars simp: is_digit_def)

lemma int_str_inj [simp]: "int_str i = int_str j \<longleftrightarrow> i = j"
proof
  assume "int_str i = int_str j"
  then have "scan_number (int_str i) = scan_number (int_str j)" by simp
  then have "(i < 0) = (j < 0)" "\<bar>i\<bar> = \<bar>j\<bar>"
    by (simp_all add: scan_number_int_str eq_nat_nat_iff)
  then show "i = j" by arith
qed simp

subsection \<open>Delimiters\<close>

text \<open>The loop \<^verbatim>\<open>while (std::getline(ss, item, d))\<close>: no final empty item after a trailing
  delimiter, and none at all for the empty string.\<close>

fun getlines_acc :: "char \<Rightarrow> string \<Rightarrow> string \<Rightarrow> string list" where
  "getlines_acc d acc [] = (if acc = [] then [] else [acc])"
| "getlines_acc d acc (c # cs) =
     (if c = d then acc # getlines_acc d [] cs else getlines_acc d (acc @ [c]) cs)"

definition getlines :: "char \<Rightarrow> string \<Rightarrow> string list" where
  "getlines d s = getlines_acc d [] s"

fun join :: "string \<Rightarrow> string list \<Rightarrow> string" where
  "join sep [] = []"
| "join sep [x] = x"
| "join sep (x # y # ys) = x @ sep @ join sep (y # ys)"

text \<open>\<^verbatim>\<open>pos = s.find(c)\<close> together with the two substrings around it.\<close>

fun cut_at :: "char \<Rightarrow> string \<Rightarrow> (string \<times> string) option" where
  "cut_at d [] = None"
| "cut_at d (c # cs) =
     (if c = d then Some ([], cs)
      else case cut_at d cs of None \<Rightarrow> None | Some (a, b) \<Rightarrow> Some (c # a, b))"

lemma cut_at_append [simp]: "d \<notin> set a \<Longrightarrow> cut_at d (a @ d # b) = Some (a, b)"
  by (induction a) auto

lemma cut_at_None: "cut_at d s = None \<longleftrightarrow> d \<notin> set s"
  by (induction s) (auto split: option.splits)

lemma cut_at_SomeD: "cut_at d s = Some (a, b) \<Longrightarrow> s = a @ d # b \<and> d \<notin> set a"
proof (induction s arbitrary: a)
  case (Cons c s)
  then show ?case by (cases "cut_at d s") (auto split: if_splits)
qed simp

lemma cut_at_Some: "cut_at d s = Some (a, b) \<longleftrightarrow> s = a @ d # b \<and> d \<notin> set a"
  using cut_at_SomeD cut_at_append by blast

lemma getlines_acc_item:
  "d \<notin> set x \<Longrightarrow> getlines_acc d acc (x @ d # s) = (acc @ x) # getlines_acc d [] s"
  by (induction x arbitrary: acc) auto

lemma getlines_acc_last:
  "d \<notin> set x \<Longrightarrow> getlines_acc d acc x = (if acc @ x = [] then [] else [acc @ x])"
  by (induction x arbitrary: acc) auto

lemma getlines_join:
  "list_all (\<lambda>x. d \<notin> set x) xs \<Longrightarrow> xs \<noteq> [] \<Longrightarrow> last xs \<noteq> [] \<Longrightarrow> getlines d (join [d] xs) = xs"
proof (induction xs)
  case (Cons x xs)
  then show ?case
    by (cases xs) (simp_all add: getlines_def getlines_acc_item getlines_acc_last)
qed simp

lemma getlines_pieces: "x \<in> set (getlines_acc d acc s) \<Longrightarrow> d \<notin> set acc \<Longrightarrow> d \<notin> set x"
  by (induction d acc s rule: getlines_acc.induct) (auto split: if_splits)

lemma getlines_no_delim: "x \<in> set (getlines d s) \<Longrightarrow> d \<notin> set x"
  using getlines_pieces [of x d "[]" s] by (simp add: getlines_def)

lemma join_chars: "c \<in> set (join sep xs) \<Longrightarrow> c \<in> set sep \<or> (\<exists>x \<in> set xs. c \<in> set x)"
  by (induction sep xs rule: join.induct) auto


text \<open>The loop that collects characters up to a delimiter; unlike \<open>getlines\<close> it keeps empty
  pieces at the end.\<close>

fun split_pieces :: "char \<Rightarrow> string \<Rightarrow> string \<Rightarrow> string list" where
  "split_pieces d cur [] = [cur]"
| "split_pieces d cur (ch # cs) =
     (if ch = d then cur # split_pieces d [] cs else split_pieces d (cur @ [ch]) cs)"

lemma split_pieces_field: "d \<notin> set x \<Longrightarrow> split_pieces d acc (x @ d # s) = (acc @ x) # split_pieces d [] s"
  by (induction x arbitrary: acc) auto

lemma split_pieces_last: "d \<notin> set x \<Longrightarrow> split_pieces d acc x = [acc @ x]"
  by (induction x arbitrary: acc) auto

lemma split_pieces_join:
  "fs \<noteq> [] \<Longrightarrow> list_all (\<lambda>x. d \<notin> set x) fs \<Longrightarrow> split_pieces d [] (join [d] fs) = fs"
proof (induction fs)
  case (Cons x fs)
  then show ?case by (cases fs) (simp_all add: split_pieces_field split_pieces_last)
qed simp

lemma join_split_pieces: "join [d] (split_pieces d acc s) = acc @ s"
proof (induction d acc s rule: split_pieces.induct)
  case (2 d cur ch cs)
  then show ?case by (cases "split_pieces d [] cs") auto
qed simp

lemma split_pieces_clean: "d \<notin> set acc \<Longrightarrow> x \<in> set (split_pieces d acc s) \<Longrightarrow> d \<notin> set x"
  by (induction d acc s rule: split_pieces.induct) (auto split: if_splits)

end
