(* ===== verification/DdzCodec.thy ===== *)
theory DdzCodec
  imports DdzText
begin

unbundle bit_operations_syntax

text \<open>
  The wire formats: the body of a message, a list of \<^verbatim>\<open>key=value\<close> fields separated by
  semicolons (\<^verbatim>\<open>common/util/kv_codec.h\<close>); the frame of a packet, a big-endian header of 20
  bytes and the body (\<^verbatim>\<open>network/packet_codec.cpp\<close>); and the table of message handlers
  (\<^verbatim>\<open>network/dispatcher.cpp\<close>).
\<close>

subsection \<open>Key-value bodies\<close>

type_synonym kv_map = "string \<rightharpoonup> string"

text \<open>One item of the body: skipped when it is empty or has no equals sign; a repeated key
  overwrites.\<close>

definition add_item :: "kv_map \<Rightarrow> string \<Rightarrow> kv_map" where
  "add_item kv item =
     (if item = [] then kv
      else case cut_at (CHR ''='') item of
             None \<Rightarrow> kv
           | Some (k, v) \<Rightarrow> kv(k \<mapsto> v))"

definition ParseKvBody :: "string \<Rightarrow> kv_map" where
  "ParseKvBody body = foldl add_item Map.empty (getlines (CHR '';'') body)"

definition kv_field :: "string \<times> string \<Rightarrow> string" where
  "kv_field f = fst f @ ''='' @ snd f"

definition BuildKvBody :: "(string \<times> string) list \<Rightarrow> string" where
  "BuildKvBody fields = join '';'' (map kv_field fields)"

text \<open>A field that survives the format: no separator in the key, no semicolon in the value.\<close>

definition clean_field :: "string \<times> string \<Rightarrow> bool" where
  "clean_field f \<longleftrightarrow> CHR '';'' \<notin> set (fst f) \<and> CHR ''='' \<notin> set (fst f) \<and> CHR '';'' \<notin> set (snd f)"

lemma add_item_field: "clean_field f \<Longrightarrow> add_item kv (kv_field f) = kv(fst f \<mapsto> snd f)"
  by (cases f) (simp add: add_item_def kv_field_def clean_field_def)

lemma foldl_add_fields:
  "list_all clean_field fs \<Longrightarrow>
     foldl add_item kv (map kv_field fs) = foldl (\<lambda>m f. m(fst f \<mapsto> snd f)) kv fs"
  by (induction fs arbitrary: kv) (simp_all add: add_item_field)

lemma foldl_upd_map_of:
  "distinct (map fst fs) \<Longrightarrow> foldl (\<lambda>m f. m(fst f \<mapsto> snd f)) kv fs = kv ++ map_of fs"
proof (induction fs arbitrary: kv)
  case (Cons f fs)
  then have "map_of fs (fst f) = None" by (simp add: map_of_eq_None_iff)
  then show ?case using Cons by (auto simp: map_add_def fun_eq_iff split: option.split)
qed simp

lemma getlines_kv:
  assumes "list_all clean_field fs"
  shows "getlines (CHR '';'') (BuildKvBody fs) = map kv_field fs"
proof (cases "fs = []")
  case True
  then show ?thesis by (simp add: BuildKvBody_def getlines_def)
next
  case False
  have "list_all (\<lambda>x. CHR '';'' \<notin> set x) (map kv_field fs)"
    using assms by (auto simp: list_all_iff clean_field_def kv_field_def)
  moreover have "last (map kv_field fs) \<noteq> []"
    using False by (simp add: last_map kv_field_def)
  ultimately show ?thesis
    using False by (simp add: BuildKvBody_def getlines_join)
qed

lemma kv_roundtrip_all:
  assumes "list_all clean_field fs"
  shows "ParseKvBody (BuildKvBody fs) = foldl (\<lambda>m f. m(fst f \<mapsto> snd f)) Map.empty fs"
  by (simp add: ParseKvBody_def getlines_kv [OF assms] foldl_add_fields [OF assms])

lemma kv_roundtrip:
  assumes "list_all clean_field fs" "distinct (map fst fs)"
  shows "ParseKvBody (BuildKvBody fs) = map_of fs"
  by (simp add: kv_roundtrip_all [OF assms(1)] foldl_upd_map_of [OF assms(2)])

text \<open>Values read from a body never contain a semicolon: what came in as one field goes out as
  one field.\<close>

lemma add_item_values:
  "add_item kv item k = Some v \<Longrightarrow> CHR '';'' \<notin> set item \<Longrightarrow>
     kv k = Some v \<or> CHR '';'' \<notin> set v \<and> CHR ''='' \<notin> set k \<and> CHR '';'' \<notin> set k"
  by (auto simp: add_item_def cut_at_Some split: if_splits option.splits prod.splits)

lemma ParseKvBody_clean:
  assumes "ParseKvBody body k = Some v"
  shows "clean_field (k, v)"
proof -
  have "foldl add_item kv items k = Some v \<Longrightarrow> \<forall>x \<in> set items. CHR '';'' \<notin> set x \<Longrightarrow>
      kv k = Some v \<or> CHR '';'' \<notin> set v \<and> CHR ''='' \<notin> set k \<and> CHR '';'' \<notin> set k" for kv items
    by (induction items arbitrary: kv) (auto dest: add_item_values)
  from this [of Map.empty "getlines (CHR '';'') body"] show ?thesis
    using assms getlines_no_delim by (auto simp: ParseKvBody_def clean_field_def)
qed

subsection \<open>Packets\<close>

record packet =
  pk_msg_id :: "32 word"
  pk_seq_id :: "32 word"
  pk_player_id :: int
  pk_body :: string

definition empty_packet :: packet where
  "empty_packet = \<lparr>pk_msg_id = 0, pk_seq_id = 0, pk_player_id = 0, pk_body = []\<rparr>"

type_synonym byte = "8 word"

definition WriteU32BE :: "32 word \<Rightarrow> byte list" where
  "WriteU32BE v =
     [ucast (drop_bit 24 v AND 0xFF), ucast (drop_bit 16 v AND 0xFF),
      ucast (drop_bit 8 v AND 0xFF), ucast (v AND 0xFF)]"

definition WriteU64BE :: "64 word \<Rightarrow> byte list" where
  "WriteU64BE v =
     [ucast (drop_bit 56 v AND 0xFF), ucast (drop_bit 48 v AND 0xFF),
      ucast (drop_bit 40 v AND 0xFF), ucast (drop_bit 32 v AND 0xFF),
      ucast (drop_bit 24 v AND 0xFF), ucast (drop_bit 16 v AND 0xFF),
      ucast (drop_bit 8 v AND 0xFF), ucast (v AND 0xFF)]"

definition ReadU32BE :: "byte list \<Rightarrow> 32 word" where
  "ReadU32BE src =
     push_bit 24 (ucast (src ! 0)) OR push_bit 16 (ucast (src ! 1)) OR
     push_bit 8 (ucast (src ! 2)) OR ucast (src ! 3)"

definition ReadU64BE :: "byte list \<Rightarrow> 64 word" where
  "ReadU64BE src =
     push_bit 56 (ucast (src ! 0)) OR push_bit 48 (ucast (src ! 1)) OR
     push_bit 40 (ucast (src ! 2)) OR push_bit 32 (ucast (src ! 3)) OR
     push_bit 24 (ucast (src ! 4)) OR push_bit 16 (ucast (src ! 5)) OR
     push_bit 8 (ucast (src ! 6)) OR ucast (src ! 7)"

definition kHeaderSize :: nat where
  "kHeaderSize = 20"

definition byte_of_char :: "char \<Rightarrow> byte" where
  "byte_of_char c = word_of_nat (of_char c)"

definition char_of_byte :: "byte \<Rightarrow> char" where
  "char_of_byte b = char_of (unat b)"

text \<open>\<^verbatim>\<open>packet_len\<close> is the length modulo \<open>2 ^ 32\<close>. For a body so long that it wraps, the
  code would copy the body into a shorter buffer: \<open>Overrun\<close>.\<close>

datatype encode_result = Encoded "byte list" | TooLong | Overrun

definition Encode :: "packet \<Rightarrow> 32 word \<Rightarrow> encode_result" where
  "Encode p max_packet_size =
     (let packet_len = (word_of_nat (kHeaderSize + length (pk_body p)) :: 32 word) in
      if packet_len < word_of_nat kHeaderSize \<or> packet_len > max_packet_size then TooLong
      else if unat packet_len \<noteq> kHeaderSize + length (pk_body p) then Overrun
      else Encoded (WriteU32BE packet_len @ WriteU32BE (pk_msg_id p) @ WriteU32BE (pk_seq_id p) @
             WriteU64BE (word_of_int (pk_player_id p)) @ map byte_of_char (pk_body p)))"

definition read_packet :: "byte list \<Rightarrow> nat \<Rightarrow> packet" where
  "read_packet base packet_len =
     \<lparr>pk_msg_id = ReadU32BE (drop 4 base),
      pk_seq_id = ReadU32BE (drop 8 base),
      pk_player_id = sint (ReadU64BE (drop 12 base)),
      pk_body = map char_of_byte (take (packet_len - kHeaderSize) (drop kHeaderSize base))\<rparr>"

text \<open>The loop of \<^verbatim>\<open>Decode\<close> over the bytes after \<^verbatim>\<open>offset\<close>. \<open>Inl\<close>: a length field out of
  range, with the packets decoded before it; \<open>Inr\<close>: the packets and the bytes left over.\<close>

function decode_loop :: "32 word \<Rightarrow> byte list \<Rightarrow> packet list \<Rightarrow> packet list + (packet list \<times> byte list)"
  where
  "decode_loop max_packet_size buf out =
     (if length buf < kHeaderSize then Inr (out, buf)
      else
        let packet_len = unat (ReadU32BE buf) in
        if packet_len < kHeaderSize \<or> packet_len > unat max_packet_size then Inl out
        else if length buf < packet_len then Inr (out, buf)
        else decode_loop max_packet_size (drop packet_len buf) (out @ [read_packet buf packet_len]))"
  by pat_completeness auto
termination
  by (relation "measure (\<lambda>(m, buf, out). length buf)") (auto simp: kHeaderSize_def)

declare decode_loop.simps [simp del]

text \<open>\<^verbatim>\<open>Decode\<close>: the result flag, the packets and the buffer, which is kept when a length is
  invalid.\<close>

definition Decode :: "byte list \<Rightarrow> 32 word \<Rightarrow> bool \<times> packet list \<times> byte list" where
  "Decode buffer max_packet_size =
     (case decode_loop max_packet_size buffer [] of
        Inl out \<Rightarrow> (False, out, buffer)
      | Inr (out, rest) \<Rightarrow> (True, out, rest))"

subsection \<open>Dispatching\<close>

text \<open>A handler works on the state \<open>'s\<close> of the server; it returns the response and whether it
  is sent, or ends in an exception.\<close>

type_synonym 's handler = "'s \<Rightarrow> packet \<Rightarrow> conn_id \<Rightarrow> 's \<times> (packet \<times> bool) option"
type_synonym 's dispatcher = "32 word \<rightharpoonup> 's handler"

definition Register :: "'s dispatcher \<Rightarrow> 32 word \<Rightarrow> 's handler \<Rightarrow> 's dispatcher" where
  "Register d msg_id h = d(msg_id \<mapsto> h)"

definition reply_error :: "packet \<Rightarrow> string \<Rightarrow> packet" where
  "reply_error request body =
     \<lparr>pk_msg_id = pk_msg_id request + 1, pk_seq_id = pk_seq_id request,
      pk_player_id = pk_player_id request, pk_body = body\<rparr>"

definition Dispatch :: "'s dispatcher \<Rightarrow> 's \<Rightarrow> packet \<Rightarrow> conn_id \<Rightarrow> 's \<times> packet \<times> bool" where
  "Dispatch d s request conn =
     (case d (pk_msg_id request) of
        None \<Rightarrow> (s, reply_error request ''ERR:UNHANDLED_MSG'', True)
      | Some h \<Rightarrow>
          (case h s request conn of
             (s', Some (response, reply)) \<Rightarrow> (s', response, reply)
           | (s', None) \<Rightarrow> (s', reply_error request ''ERR:INTERNAL'', True)))"

subsection \<open>Integers on the wire\<close>

definition byte_field :: "nat \<Rightarrow> 'a::len word \<Rightarrow> 'a word" where
  "byte_field k v = push_bit k (ucast (ucast (drop_bit k v AND 0xFF) :: byte))"

lemma bit_ff: "bit (0xFF :: 'a::len word) n \<longleftrightarrow> n < LENGTH('a) \<and> n < 8"
proof -
  have e: "(0xFF :: 'a word) = mask 8" by (simp add: mask_eq_exp_minus_1)
  show ?thesis unfolding e by (simp only: bit_mask_iff possible_bit_word)
qed

lemma bit_byte_field:
  "n < LENGTH('a) \<Longrightarrow> bit (byte_field k (v :: 'a::len word)) n \<longleftrightarrow> k \<le> n \<and> n < k + 8 \<and> bit v n"
  unfolding byte_field_def bit_push_bit_iff bit_ucast_iff bit_and_iff bit_drop_bit_eq bit_ff
    possible_bit_word o_def
  using bit_imp_le_length [of v n] by (auto simp: less_diff_conv2)

lemma ReadU32BE_Write [simp]: "ReadU32BE (WriteU32BE v @ rest) = v"
proof (rule bit_word_eqI)
  fix n assume n: "n < LENGTH(32)"
  have "ReadU32BE (WriteU32BE v @ rest) =
      byte_field 24 v OR byte_field 16 v OR byte_field 8 v OR byte_field 0 v"
    by (simp add: ReadU32BE_def WriteU32BE_def byte_field_def)
  then show "bit (ReadU32BE (WriteU32BE v @ rest)) n = bit v n"
    using n by (simp add: bit_or_iff bit_byte_field) linarith
qed

lemma ReadU64BE_Write [simp]: "ReadU64BE (WriteU64BE v @ rest) = v"
proof (rule bit_word_eqI)
  fix n assume n: "n < LENGTH(64)"
  have "ReadU64BE (WriteU64BE v @ rest) = byte_field 56 v OR byte_field 48 v OR byte_field 40 v OR
      byte_field 32 v OR byte_field 24 v OR byte_field 16 v OR byte_field 8 v OR byte_field 0 v"
    by (simp add: ReadU64BE_def WriteU64BE_def byte_field_def)
  then show "bit (ReadU64BE (WriteU64BE v @ rest)) n = bit v n"
    using n by (simp add: bit_or_iff bit_byte_field) linarith
qed

lemma length_Write [simp]: "length (WriteU32BE v) = 4" "length (WriteU64BE w) = 8"
  by (simp_all add: WriteU32BE_def WriteU64BE_def)

lemma char_of_byte_of_char [simp]: "char_of_byte (byte_of_char c) = c"
proof -
  have "(of_char c :: nat) < 256" by (rule nat_of_char_less_256)
  then have "unat (word_of_nat (of_char c) :: byte) = of_char c" by (simp add: unat_of_nat)
  then show ?thesis by (simp add: char_of_byte_def byte_of_char_def)
qed

subsection \<open>Framing\<close>

text \<open>A framing of a byte stream: a step that takes one message off the front, asks for more
  bytes, or rejects. The law is that bytes that arrive later change nothing about the messages
  already complete; then reading in pieces gives the same messages as reading at once.\<close>

datatype 'm frame = Message 'm nat | NeedMore | Reject

locale framing =
  fixes step :: "'b list \<Rightarrow> 'm frame"
  assumes progress: "step bs = Message m n \<Longrightarrow> 0 < n \<and> n \<le> length bs"
    and message_stable: "step bs = Message m n \<Longrightarrow> step (bs @ tail) = Message m n"
    and reject_stable: "step bs = Reject \<Longrightarrow> step (bs @ tail) = Reject"
begin

function unframe :: "'b list \<Rightarrow> 'm list \<Rightarrow> 'm list + ('m list \<times> 'b list)" where
  "unframe bs out =
     (case step bs of
        Reject \<Rightarrow> Inl out
      | NeedMore \<Rightarrow> Inr (out, bs)
      | Message m n \<Rightarrow> unframe (drop n bs) (out @ [m]))"
  by pat_completeness auto
termination
  by (relation "measure (\<lambda>(bs, out). length bs)") (auto dest: progress)

declare unframe.simps [simp del]

lemma unframe_split:
  "unframe (bs @ tail) out =
     (case unframe bs out of Inl out' \<Rightarrow> Inl out' | Inr (out', rest) \<Rightarrow> unframe (rest @ tail) out')"
proof (induction bs out rule: unframe.induct)
  case (1 bs out)
  show ?case
  proof (cases "step bs")
    case (Message m n)
    then have "step (bs @ tail) = Message m n" "n \<le> length bs"
      using message_stable progress by auto
    moreover have "unframe (drop n bs @ tail) (out @ [m]) = (case unframe (drop n bs) (out @ [m]) of
        Inl out' \<Rightarrow> Inl out' | Inr (out', rest) \<Rightarrow> unframe (rest @ tail) out')"
      by (rule 1 [OF Message])
    ultimately show ?thesis
      by (simp add: unframe.simps [of "bs @ tail"] unframe.simps [of bs] Message)
  next
    case NeedMore
    then show ?thesis by (simp add: unframe.simps [of bs])
  next
    case Reject
    then show ?thesis using reject_stable by (simp add: unframe.simps [of bs] unframe.simps [of "bs @ tail"])
  qed
qed

text \<open>Reading the pieces one after the other, keeping what is left over.\<close>

fun unframe_pieces :: "'b list list \<Rightarrow> 'm list \<Rightarrow> 'b list \<Rightarrow> 'm list + ('m list \<times> 'b list)" where
  "unframe_pieces [] out buf = Inr (out, buf)"
| "unframe_pieces (p # ps) out buf =
     (case unframe (buf @ p) out of
        Inl out' \<Rightarrow> Inl out'
      | Inr (out', rest) \<Rightarrow> unframe_pieces ps out' rest)"

lemma unframe_rest: "unframe bs out = Inr (out', rest) \<Longrightarrow> unframe rest out' = Inr (out', rest)"
proof (induction bs out rule: unframe.induct)
  case (1 bs out)
  show ?case
  proof (cases "step bs")
    case (Message m n)
    then show ?thesis using 1 by (simp add: unframe.simps [of bs])
  next
    case NeedMore
    then show ?thesis using 1(2) by (auto simp: unframe.simps [of bs] unframe.simps [of rest])
  next
    case Reject
    then show ?thesis using 1(2) by (simp add: unframe.simps [of bs])
  qed
qed

lemma unframe_pieces_concat:
  "unframe buf out = Inr (out, buf) \<Longrightarrow> unframe_pieces ps out buf = unframe (buf @ concat ps) out"
proof (induction ps arbitrary: out buf)
  case (Cons p ps)
  show ?case
  proof (cases "unframe (buf @ p) out")
    case (Inl out')
    then show ?thesis using unframe_split [of "buf @ p" "concat ps" out] by simp
  next
    case (Inr x)
    obtain out' rest where x: "x = (out', rest)" by (cases x)
    then have "unframe_pieces ps out' rest = unframe (rest @ concat ps) out'"
      using Cons.IH unframe_rest Inr by blast
    then show ?thesis using unframe_split [of "buf @ p" "concat ps" out] Inr x by simp
  qed
qed simp

lemma unframe_messages:
  assumes "\<And>m tail. m \<in> set ms \<Longrightarrow> step (enc m @ tail) = Message m (length (enc m))"
  shows "unframe (concat (map enc ms) @ rest) out = unframe rest (out @ ms)"
  using assms
proof (induction ms arbitrary: out)
  case (Cons m ms)
  then show ?case
    using unframe.simps [of "enc m @ concat (map enc ms) @ rest" out] by simp
qed simp

end

definition packet_step :: "32 word \<Rightarrow> byte list \<Rightarrow> packet frame" where
  "packet_step max_packet_size buf =
     (if length buf < kHeaderSize then NeedMore
      else
        let packet_len = unat (ReadU32BE buf) in
        if packet_len < kHeaderSize \<or> packet_len > unat max_packet_size then Reject
        else if length buf < packet_len then NeedMore
        else Message (read_packet buf packet_len) packet_len)"

lemma ReadU32BE_append: "4 \<le> length a \<Longrightarrow> ReadU32BE (a @ b) = ReadU32BE a"
  by (auto simp: ReadU32BE_def nth_append)

lemma ReadU64BE_append: "8 \<le> length a \<Longrightarrow> ReadU64BE (a @ b) = ReadU64BE a"
  by (auto simp: ReadU64BE_def nth_append)

lemma read_packet_append:
  "kHeaderSize \<le> n \<Longrightarrow> n \<le> length bs \<Longrightarrow> read_packet (bs @ tail) n = read_packet bs n"
  by (simp add: read_packet_def kHeaderSize_def ReadU32BE_append ReadU64BE_append)

interpretation pk: framing "packet_step max_packet_size" for max_packet_size
proof (unfold_locales, goal_cases)
  case (1 bs m n)
  then show ?case by (auto simp: packet_step_def kHeaderSize_def Let_def split: if_splits)
next
  case (2 bs m n tail)
  then show ?case
    by (auto simp: packet_step_def Let_def ReadU32BE_append kHeaderSize_def
        read_packet_append [unfolded kHeaderSize_def] split: if_splits)
next
  case (3 bs tail)
  then show ?case
    by (auto simp: packet_step_def Let_def ReadU32BE_append kHeaderSize_def split: if_splits)
qed

lemma decode_loop_unframe: "decode_loop max_packet_size buf out = pk.unframe max_packet_size buf out"
proof (induction max_packet_size buf out rule: decode_loop.induct)
  case (1 m buf out)
  then show ?case
    using decode_loop.simps [of m buf out] pk.unframe.simps [of m buf out]
    by (simp add: packet_step_def [of m buf] Let_def)
qed

lemma Encode_step:
  assumes "Encode p max_packet_size = Encoded bs" "in_i64 (pk_player_id p)"
  shows "packet_step max_packet_size (bs @ tail) = Message p (length bs)"
proof -
  let ?n = "kHeaderSize + length (pk_body p)"
  have len: "unat (word_of_nat ?n :: 32 word) = ?n" "\<not> (word_of_nat ?n :: 32 word) > max_packet_size"
    and bs: "bs = WriteU32BE (word_of_nat ?n) @ WriteU32BE (pk_msg_id p) @ WriteU32BE (pk_seq_id p) @
         WriteU64BE (word_of_int (pk_player_id p)) @ map byte_of_char (pk_body p)"
    using assms(1) by (auto simp: Encode_def Let_def split: if_splits)
  have lbs: "length bs = ?n" by (simp add: bs kHeaderSize_def)
  have rd: "ReadU32BE (bs @ tail) = word_of_nat ?n" by (simp add: bs)
  have "drop 4 (bs @ tail) = WriteU32BE (pk_msg_id p) @ WriteU32BE (pk_seq_id p) @
         WriteU64BE (word_of_int (pk_player_id p)) @ map byte_of_char (pk_body p) @ tail"
    "drop 8 (bs @ tail) = WriteU32BE (pk_seq_id p) @
         WriteU64BE (word_of_int (pk_player_id p)) @ map byte_of_char (pk_body p) @ tail"
    "drop 12 (bs @ tail) = WriteU64BE (word_of_int (pk_player_id p)) @ map byte_of_char (pk_body p) @ tail"
    "drop 20 (bs @ tail) = map byte_of_char (pk_body p) @ tail"
    by (simp_all add: bs)
  moreover have "sint (word_of_int (pk_player_id p) :: 64 word) = pk_player_id p"
    using assms(2) by (simp add: in_i64_def sint_sbintrunc' signed_take_bit_int_eq_self)
  ultimately have "read_packet (bs @ tail) ?n = p"
    by (simp add: read_packet_def kHeaderSize_def o_def)
  moreover have "\<not> ?n > unat max_packet_size"
    using len by (simp add: word_less_nat_alt)
  ultimately show ?thesis
    using lbs rd len(1) by (simp add: packet_step_def Let_def)
qed

lemma unframe_acc:
  "pk.unframe m bs (out @ out2) =
     (case pk.unframe m bs out2 of Inl o' \<Rightarrow> Inl (out @ o') | Inr (o', r) \<Rightarrow> Inr (out @ o', r))"
proof (induction bs out2 rule: pk.unframe.induct [where max_packet_size = m])
  case (1 bs out2)
  then show ?case
    using pk.unframe.simps [of m bs "out @ out2"] pk.unframe.simps [of m bs out2]
    by (cases "packet_step m bs") simp_all
qed

lemma Decode_split:
  "Decode (bs @ tail) m =
     (case Decode bs m of
        (False, out, _) \<Rightarrow> (False, out, bs @ tail)
      | (True, out, rest) \<Rightarrow>
          (case Decode (rest @ tail) m of
             (False, out', _) \<Rightarrow> (False, out @ out', bs @ tail)
           | (True, out', rest') \<Rightarrow> (True, out @ out', rest')))"
proof -
  note acc = unframe_acc [of m _ _ "[]", simplified]
  show ?thesis
  proof (cases "pk.unframe m bs []")
    case (Inl o')
    then show ?thesis
      using pk.unframe_split [of m bs tail "[]"] by (simp add: Decode_def decode_loop_unframe)
  next
    case (Inr x)
    obtain o' r where x: "x = (o', r)" by (cases x)
    then show ?thesis
      using pk.unframe_split [of m bs tail "[]"] acc [of "r @ tail" o'] Inr
      by (simp add: Decode_def decode_loop_unframe split: sum.split)
  qed
qed

subsection \<open>The properties of the codecs\<close>

text \<open>A body built from fields is parsed back to exactly these fields, provided that no key
  contains a separator or repeats and no value contains a semicolon (an equals sign in a value
  is harmless).\<close>

theorem kv_body_roundtrip:
  assumes "list_all clean_field fs" "distinct (map fst fs)"
  shows "ParseKvBody (BuildKvBody fs) = map_of fs"
  using assms by (rule kv_roundtrip)

theorem kv_body_roundtrip_witness:
  "ParseKvBody (BuildKvBody [(''code'', ''0''), (''token'', ''a=b''), (''reason'', [])]) ''token'' = Some ''a=b''"
  using kv_body_roundtrip [of "[(''code'', ''0''), (''token'', ''a=b''), (''reason'', [])]"]
  by (simp add: clean_field_def)

lemma stream_decodes:
  assumes "list_all (\<lambda>p. in_i64 (pk_player_id p)) ps"
    "map (\<lambda>p. Encode p max_packet_size) ps = map Encoded frames"
    "concat pieces = concat frames"
  shows "pk.unframe_pieces max_packet_size pieces [] [] = Inr (ps, []) \<and>
    Decode (concat pieces) max_packet_size = (True, ps, [])"
proof -
  let ?enc = "\<lambda>p. case Encode p max_packet_size of Encoded bs \<Rightarrow> bs | _ \<Rightarrow> []"
  have frames: "frames = map ?enc ps"
  proof -
    have "frames = map (\<lambda>e. case e of Encoded bs \<Rightarrow> bs | _ \<Rightarrow> []) (map Encoded frames)"
      by (induction frames) auto
    then show ?thesis unfolding assms(2) [symmetric] by (simp add: o_def)
  qed
  have step: "packet_step max_packet_size (?enc p @ tail) = Message p (length (?enc p))"
    if "p \<in> set ps" for p tail
  proof -
    have "Encode p max_packet_size \<in> set (map Encoded frames)"
      using that assms(2) by (metis (mono_tags) image_eqI list.set_map)
    then obtain bs where bs: "Encode p max_packet_size = Encoded bs" by auto
    have "in_i64 (pk_player_id p)" using assms(1) that by (simp add: list_all_iff)
    with Encode_step [OF bs, of tail] show ?thesis by (simp add: bs)
  qed
  have "pk.unframe max_packet_size (concat frames @ []) [] = pk.unframe max_packet_size [] ([] @ ps)"
    unfolding frames by (rule pk.unframe_messages) (rule step)
  moreover have "pk.unframe max_packet_size [] out = Inr (out, [])" for out
    by (simp add: pk.unframe.simps packet_step_def kHeaderSize_def)
  ultimately have all: "pk.unframe max_packet_size (concat pieces) [] = Inr (ps, [])"
    "pk.unframe max_packet_size [] [] = Inr ([], [])" by (simp_all add: assms(3))
  from pk.unframe_pieces_concat [OF this(2), of pieces] all(1) show ?thesis
    by (simp add: Decode_def decode_loop_unframe)
qed

text \<open>Whatever packets are encoded, and however the stream of their bytes is cut into
  pieces on the way, the receiver that decodes after each piece gets exactly these packets, in
  order, and no byte is left over.\<close>

theorem packet_stream_roundtrip:
  assumes "list_all (\<lambda>p. in_i64 (pk_player_id p)) ps"
    "map (\<lambda>p. Encode p max_packet_size) ps = map Encoded frames"
    "concat pieces = concat frames"
  shows "pk.unframe_pieces max_packet_size pieces [] [] = Inr (ps, []) \<and>
    Decode (concat pieces) max_packet_size = (True, ps, [])"
  by (rule stream_decodes) (rule assms)+

theorem packet_stream_roundtrip_witness:
  "let p = \<lparr>pk_msg_id = 1101, pk_seq_id = 7, pk_player_id = -3, pk_body = ''a''\<rparr>;
       bs = (case Encode p 4096 of Encoded bs \<Rightarrow> bs | _ \<Rightarrow> [])
   in pk.unframe_pieces 4096 [take 5 bs, drop 5 bs] [] [] = Inr ([p], [])"
proof -
  let ?p = "\<lparr>pk_msg_id = 1101, pk_seq_id = 7, pk_player_id = -3, pk_body = ''a''\<rparr>"
  let ?bs = "case Encode ?p 4096 of Encoded bs \<Rightarrow> bs | _ \<Rightarrow> []"
  have "Encode ?p 4096 = Encoded ?bs" by (simp add: Encode_def Let_def kHeaderSize_def)
  then show ?thesis
    using packet_stream_roundtrip [of "[?p]" 4096 "[?bs]" "[take 5 ?bs, drop 5 ?bs]"]
    by (simp add: in_i64_def Let_def)
qed

end
