(* ===== verification/DdzNetwork.thy ===== *)
theory DdzNetwork
  imports DdzCodec
begin

text \<open>
  The network of the game server, \<^verbatim>\<open>network/tcp_connection.cpp\<close> and \<^verbatim>\<open>network/tcp_server.cpp\<close>.
  The operating system is a parameter: what \<^verbatim>\<open>recv\<close> and \<^verbatim>\<open>send\<close> answer, which sockets are ready,
  whether a call fails. A connection is named by its identifier; the object lives as long as it is in
  the map of connections. The callbacks of the server work on the server and a state \<open>'s\<close>.
\<close>

subsection \<open>Connections\<close>

text \<open>\<open>cn_socket\<close> is whether the socket is still open, \<open>cn_wire\<close> what has been written to it.\<close>

record connection =
  cn_socket :: bool
  cn_running :: bool
  cn_heartbeat :: millis
  cn_buffer :: "byte list"
  cn_wire :: "byte list"

definition new_connection :: "millis \<Rightarrow> connection" where
  "new_connection now = \<lparr>cn_socket = True, cn_running = False, cn_heartbeat = now, cn_buffer = [], cn_wire = []\<rparr>"

definition TouchHeartbeat :: "millis \<Rightarrow> connection \<Rightarrow> connection" where
  "TouchHeartbeat now c = c\<lparr>cn_heartbeat := now\<rparr>"

declare TouchHeartbeat_def [simp]

text \<open>The answers of the two calls of \<^verbatim>\<open>fcntl\<close>; the result is the error.\<close>

definition SetNonBlocking :: "int \<Rightarrow> int \<Rightarrow> string option" where
  "SetNonBlocking flags set_flags =
     (if flags < 0 then Some ''fcntl F_GETFL failed''
      else if set_flags < 0 then Some ''fcntl F_SETFL O_NONBLOCK failed''
      else None)"

text \<open>\<open>ok\<close> is whether \<^verbatim>\<open>SetNonBlocking\<close> succeeds.\<close>

definition ConnectionStart :: "bool \<Rightarrow> connection \<Rightarrow> connection" where
  "ConnectionStart ok c = (if cn_running c then c else if \<not> ok then c else c\<lparr>cn_running := True\<rparr>)"

definition ConnectionStop :: "connection \<Rightarrow> connection" where
  "ConnectionStop c = c\<lparr>cn_running := False, cn_socket := False\<rparr>"

text \<open>The loop of \<^verbatim>\<open>SendPacket\<close>: \<open>send i\<close> is the answer of the i-th call, the number of bytes taken.
  The result is what has been written and whether it was everything.\<close>

function send_bytes :: "(nat \<Rightarrow> int) \<Rightarrow> nat \<Rightarrow> byte list \<Rightarrow> byte list \<times> bool" where
  "send_bytes send i bs =
     (if bs = [] then ([], True)
      else if send i \<le> 0 then ([], False)
      else case send_bytes send (i + 1) (drop (nat (send i)) bs) of
             (written, ok) \<Rightarrow> (take (nat (send i)) bs @ written, ok))"
  by pat_completeness auto
termination
  by (relation "measure (\<lambda>(send, i, bs). length bs)") auto

declare send_bytes.simps [simp del]

definition ConnectionSend :: "32 word \<Rightarrow> (nat \<Rightarrow> int) \<Rightarrow> packet \<Rightarrow> connection \<Rightarrow> connection \<times> bool" where
  "ConnectionSend max_size send pk c =
     (case Encode pk max_size of
        Encoded bs \<Rightarrow>
          if \<not> cn_running c then (c, False)
          else (case send_bytes send 0 bs of (written, ok) \<Rightarrow> (c\<lparr>cn_wire := cn_wire c @ written\<rparr>, ok))
      | _ \<Rightarrow> (c, False))"

text \<open>One answer of \<^verbatim>\<open>recv\<close>, with the reading of the clock that follows received bytes; \<open>Halted\<close> is
  a connection that another thread has stopped meanwhile.\<close>

datatype recv_result = Received "byte list" millis | PeerClosed | WouldBlock | RecvFailed | Halted

datatype recv_end = Drained bool | EndClosed | EndFailed

definition recv_buf_size :: nat where
  "recv_buf_size = 4096"

fun recv_loop :: "recv_result list \<Rightarrow> connection \<Rightarrow> bool \<Rightarrow> connection \<times> recv_end" where
  "recv_loop [] c got = (c, Drained got)"
| "recv_loop (Received bs now # rs) c got =
     (let c' = TouchHeartbeat now (c\<lparr>cn_buffer := cn_buffer c @ bs\<rparr>)
      in if length bs < recv_buf_size then (c', Drained True) else recv_loop rs c' True)"
| "recv_loop (PeerClosed # rs) c got = (c, EndClosed)"
| "recv_loop (WouldBlock # rs) c got = (c, Drained got)"
| "recv_loop (RecvFailed # rs) c got = (c, EndFailed)"
| "recv_loop (Halted # rs) c got = (c, Drained got)"

datatype read_result = ReadError | ReadClosed | ReadPackets "packet list"

definition ReadAvailablePackets ::
    "32 word \<Rightarrow> recv_result list \<Rightarrow> connection \<Rightarrow> connection \<times> read_result" where
  "ReadAvailablePackets max_size rs c =
     (if \<not> cn_running c then (c, ReadError)
      else case recv_loop rs c False of
             (c', EndClosed) \<Rightarrow> (c', ReadClosed)
           | (c', EndFailed) \<Rightarrow> (c', ReadError)
           | (c', Drained got) \<Rightarrow>
               if \<not> got \<and> cn_buffer c' = [] then (c', ReadPackets [])
               else (case Decode (cn_buffer c') max_size of
                       (False, _, rest) \<Rightarrow> (c'\<lparr>cn_buffer := rest\<rparr>, ReadError)
                     | (True, pks, rest) \<Rightarrow> (c'\<lparr>cn_buffer := rest\<rparr>, ReadPackets pks)))"

subsection \<open>The server\<close>

record tcp_server =
  nt_max :: "32 word"
  nt_threads :: nat
  nt_running :: bool
  nt_listening :: bool
  nt_next_id :: conn_id
  nt_next_worker :: "64 word"
  nt_conns :: "conn_id \<rightharpoonup> connection"
  nt_owner :: "conn_id \<rightharpoonup> nat"
  nt_workers :: "conn_id set list"

definition new_tcp_server :: "32 word \<Rightarrow> int \<Rightarrow> tcp_server" where
  "new_tcp_server max_size io_threads =
     \<lparr>nt_max = max_size, nt_threads = nat (max 1 io_threads), nt_running = False, nt_listening = False,
      nt_next_id = 1, nt_next_worker = 0, nt_conns = Map.empty, nt_owner = Map.empty, nt_workers = []\<rparr>"

text \<open>The outcomes of the calls that set up the listening socket.\<close>

record listen_calls =
  lc_socket :: bool
  lc_host :: bool
  lc_bind :: bool
  lc_listen :: bool

definition TcpStart :: "string \<Rightarrow> listen_calls \<Rightarrow> tcp_server \<Rightarrow> tcp_server \<times> string option" where
  "TcpStart host os n =
     (if nt_running n then (n, None)
      else
        let n1 = n\<lparr>nt_workers := replicate (nt_threads n) {}\<rparr> in
        if \<not> lc_socket os then (n1, Some ''create listen socket failed'')
        else if \<not> (host = ''0.0.0.0'' \<or> host = []) \<and> \<not> lc_host os then (n1, Some (''invalid host: '' @ host))
        else if \<not> lc_bind os then (n1, Some ''bind failed'')
        else if \<not> lc_listen os then (n1, Some ''listen failed'')
        else (n1\<lparr>nt_running := True, nt_listening := True\<rparr>, None))"

text \<open>All connections are dropped and stopped; their objects are gone with the map.\<close>

definition TcpStop :: "tcp_server \<Rightarrow> tcp_server" where
  "TcpStop n = n\<lparr>nt_running := False, nt_listening := False, nt_conns := Map.empty, nt_owner := Map.empty,
     nt_workers := map (\<lambda>_. {}) (nt_workers n)\<rparr>"

definition TcpSend :: "(nat \<Rightarrow> int) \<Rightarrow> conn_id \<Rightarrow> packet \<Rightarrow> tcp_server \<Rightarrow> tcp_server \<times> bool" where
  "TcpSend send conn pk n =
     (case nt_conns n conn of
        None \<Rightarrow> (n, False)
      | Some c \<Rightarrow>
          (case ConnectionSend (nt_max n) send pk c of
             (c', ok) \<Rightarrow> (n\<lparr>nt_conns := (nt_conns n)(conn \<mapsto> c')\<rparr>, ok)))"

definition RemoveConnection :: "conn_id \<Rightarrow> tcp_server \<Rightarrow> tcp_server" where
  "RemoveConnection conn n =
     (case nt_conns n conn of
        None \<Rightarrow> n
      | Some _ \<Rightarrow>
          (case nt_owner n conn of
             None \<Rightarrow> n\<lparr>nt_conns := (nt_conns n)(conn := None)\<rparr>
           | Some w \<Rightarrow>
               n\<lparr>nt_conns := (nt_conns n)(conn := None), nt_owner := (nt_owner n)(conn := None),
                 nt_workers := (if w < length (nt_workers n)
                                then (nt_workers n)[w := nt_workers n ! w - {conn}] else nt_workers n)\<rparr>))"

definition CloseConnection :: "conn_id \<Rightarrow> tcp_server \<Rightarrow> tcp_server" where
  "CloseConnection conn n = RemoveConnection conn n"

definition idle_at :: "tcp_server \<Rightarrow> millis \<Rightarrow> millis \<Rightarrow> conn_id \<Rightarrow> bool" where
  "idle_at n now timeout conn =
     (case nt_conns n conn of None \<Rightarrow> False | Some c \<Rightarrow> now - cn_heartbeat c > timeout)"

text \<open>\<open>order\<close> is the order in which the map is traversed.\<close>

definition CloseIdleConnections :: "conn_id list \<Rightarrow> millis \<Rightarrow> millis \<Rightarrow> tcp_server \<Rightarrow> tcp_server" where
  "CloseIdleConnections order now timeout n =
     foldl (\<lambda>m conn. RemoveConnection conn m) n (filter (idle_at n now timeout) order)"

text \<open>One accepted socket; \<open>ok\<close> is whether it can be made non-blocking.\<close>

definition AcceptConnection :: "bool \<Rightarrow> millis \<Rightarrow> tcp_server \<Rightarrow> tcp_server" where
  "AcceptConnection ok now n =
     (let conn = nt_next_id n; c = ConnectionStart ok (new_connection now); n1 = n\<lparr>nt_next_id := conn + 1\<rparr> in
      if \<not> cn_running c then n1
      else
        let w = unat (nt_next_worker n) mod max 1 (nt_threads n)
        in n1\<lparr>nt_next_worker := nt_next_worker n + 1, nt_conns := (nt_conns n)(conn \<mapsto> c),
              nt_owner := (nt_owner n)(conn \<mapsto> w),
              nt_workers := (nt_workers n)[w := insert conn (nt_workers n ! w)]\<rparr>)"

text \<open>One turn of the accept loop: no socket, or a new one with the answers of \<^verbatim>\<open>fcntl\<close> and the time. A
  failed \<^verbatim>\<open>accept\<close> is only logged, and tried again at once.\<close>

datatype accept_answer = NoSocket | NewSocket int int millis

definition tcp_accept :: "accept_answer \<Rightarrow> tcp_server \<Rightarrow> tcp_server" where
  "tcp_accept a n =
     (if \<not> nt_running n then n
      else case a of
             NoSocket \<Rightarrow> n
           | NewSocket flags set_flags now \<Rightarrow> AcceptConnection (SetNonBlocking flags set_flags = None) now n)"

subsection \<open>The turn of a worker\<close>

type_synonym 's on_message = "conn_id \<Rightarrow> packet \<Rightarrow> tcp_server \<times> 's \<Rightarrow> tcp_server \<times> 's"
type_synonym 's on_close = "conn_id \<Rightarrow> tcp_server \<times> 's \<Rightarrow> tcp_server \<times> 's"

definition NotifyConnectionClosed :: "'s on_close \<Rightarrow> conn_id \<Rightarrow> tcp_server \<times> 's \<Rightarrow> tcp_server \<times> 's" where
  "NotifyConnectionClosed closed conn = (\<lambda>(n, s). closed conn (RemoveConnection conn n, s))"

text \<open>The connections of the worker, in the order of its set.\<close>

definition worker_conns :: "tcp_server \<Rightarrow> nat \<Rightarrow> conn_id list" where
  "worker_conns n w = filter (\<lambda>conn. nt_conns n conn \<noteq> None) (sorted_list_of_set (nt_workers n ! w))"

text \<open>\<open>ready conn\<close> is \<open>None\<close> when the socket is not ready, and else what \<^verbatim>\<open>recv\<close> answers. A
  connection that was removed earlier in the turn has been stopped and is read in vain.\<close>

definition serve_connection ::
    "'s on_message \<Rightarrow> 's on_close \<Rightarrow> (conn_id \<Rightarrow> recv_result list option) \<Rightarrow> conn_id
     \<Rightarrow> tcp_server \<times> 's \<Rightarrow> tcp_server \<times> 's" where
  "serve_connection message closed ready conn = (\<lambda>(n, s).
     case ready conn of
       None \<Rightarrow> (n, s)
     | Some rs \<Rightarrow>
         (case nt_conns n conn of
            None \<Rightarrow> NotifyConnectionClosed closed conn (n, s)
          | Some c \<Rightarrow>
              (case ReadAvailablePackets (nt_max n) rs c of
                 (c', ReadPackets pks) \<Rightarrow>
                   foldl (\<lambda>st pk. message conn pk st) (n\<lparr>nt_conns := (nt_conns n)(conn \<mapsto> c')\<rparr>, s) pks
               | (c', _) \<Rightarrow>
                   NotifyConnectionClosed closed conn (n\<lparr>nt_conns := (nt_conns n)(conn \<mapsto> c')\<rparr>, s))))"

definition WorkerTurn ::
    "'s on_message \<Rightarrow> 's on_close \<Rightarrow> (conn_id \<Rightarrow> recv_result list option) \<Rightarrow> nat
     \<Rightarrow> tcp_server \<times> 's \<Rightarrow> tcp_server \<times> 's" where
  "WorkerTurn message closed ready w = (\<lambda>(n, s).
     if \<not> nt_running n then (n, s)
     else foldl (\<lambda>st conn. serve_connection message closed ready conn st) (n, s) (worker_conns n w))"

subsection \<open>The tables of connections\<close>

text \<open>Every connection is owned by one worker and runs; identifiers are never used twice.\<close>

definition net_ok :: "tcp_server \<Rightarrow> bool" where
  "net_ok n \<longleftrightarrow>
     0 < nt_threads n \<and> (nt_running n \<longrightarrow> length (nt_workers n) = nt_threads n) \<and> 0 < nt_next_id n \<and>
     finite (dom (nt_conns n)) \<and> dom (nt_owner n) = dom (nt_conns n) \<and>
     (\<forall>conn w. nt_owner n conn = Some w \<longleftrightarrow> w < length (nt_workers n) \<and> conn \<in> nt_workers n ! w) \<and>
     (\<forall>conn c. nt_conns n conn = Some c \<longrightarrow> 0 < conn \<and> conn < nt_next_id n \<and> cn_running c \<and> cn_socket c)"

lemma net_okD:
  assumes "net_ok n"
  shows "dom (nt_owner n) = dom (nt_conns n)"
    "nt_owner n conn = Some w \<longleftrightarrow> w < length (nt_workers n) \<and> conn \<in> nt_workers n ! w"
    "nt_conns n conn = Some c \<Longrightarrow> 0 < conn \<and> conn < nt_next_id n \<and> cn_running c \<and> cn_socket c"
  using assms unfolding net_ok_def by blast+

lemma RemoveConnection_conns [simp]: "nt_conns (RemoveConnection conn n) = (nt_conns n)(conn := None)"
  by (auto simp: RemoveConnection_def split: option.splits)

lemma RemoveConnection_frame [simp]:
  "nt_max (RemoveConnection conn n) = nt_max n" "nt_running (RemoveConnection conn n) = nt_running n"
  "nt_threads (RemoveConnection conn n) = nt_threads n" "nt_next_id (RemoveConnection conn n) = nt_next_id n"
  "length (nt_workers (RemoveConnection conn n)) = length (nt_workers n)"
  by (simp_all add: RemoveConnection_def split: option.splits)

lemma RemoveConnection_ok:
  assumes "net_ok n"
  shows "net_ok (RemoveConnection conn n)"
proof (cases "nt_conns n conn")
  case None
  then show ?thesis using assms by (simp add: RemoveConnection_def)
next
  case (Some c)
  then have "conn \<in> dom (nt_owner n)" using assms by (auto simp: net_ok_def)
  then obtain w where w: "nt_owner n conn = Some w" by blast
  then have lt: "w < length (nt_workers n)" using assms by (auto simp: net_ok_def)
  have one: "v < length (nt_workers n) \<Longrightarrow> conn \<in> nt_workers n ! v \<Longrightarrow> v = w" for v
    using w net_okD(2) [OF assms, of conn v] by simp
  have "RemoveConnection conn n = n\<lparr>nt_conns := (nt_conns n)(conn := None),
      nt_owner := (nt_owner n)(conn := None), nt_workers := (nt_workers n)[w := nt_workers n ! w - {conn}]\<rparr>"
    by (simp add: RemoveConnection_def Some w lt)
  then show ?thesis
    using assms w lt by (auto simp: net_ok_def nth_list_update dest: one)
qed

lemma net_ok_update:
  assumes "net_ok n" "nt_conns n conn = Some c" "cn_running c' = cn_running c" "cn_socket c' = cn_socket c"
  shows "net_ok (n\<lparr>nt_conns := (nt_conns n)(conn \<mapsto> c')\<rparr>)"
proof -
  have "insert conn (dom (nt_conns n)) = dom (nt_conns n)" using assms(2) by auto
  then show ?thesis using assms by (auto simp: net_ok_def split: if_splits)
qed

lemma ConnectionSend_frame:
  "ConnectionSend m send pk c = (c', ok) \<Longrightarrow> cn_running c' = cn_running c \<and> cn_socket c' = cn_socket c"
  by (auto simp: ConnectionSend_def split: encode_result.splits if_splits prod.splits)

lemma TcpSend_ok: "net_ok n \<Longrightarrow> net_ok (fst (TcpSend send conn pk n))"
  by (auto simp: TcpSend_def split: option.split prod.split intro!: net_ok_update dest: ConnectionSend_frame)

lemma CloseIdle_ok: "net_ok n \<Longrightarrow> net_ok (CloseIdleConnections order now timeout n)"
proof -
  have "net_ok m \<Longrightarrow> net_ok (foldl (\<lambda>m conn. RemoveConnection conn m) m cs)" for m cs
    by (induction cs arbitrary: m) (simp_all add: RemoveConnection_ok)
  then show "net_ok n \<Longrightarrow> ?thesis" by (simp add: CloseIdleConnections_def)
qed

lemma CloseIdle_conns:
  "set order = dom (nt_conns n) \<Longrightarrow> nt_conns (CloseIdleConnections order now timeout n) conn =
     (if idle_at n now timeout conn then None else nt_conns n conn)"
proof -
  have "nt_conns (foldl (\<lambda>m conn. RemoveConnection conn m) m cs) conn =
      (if conn \<in> set cs then None else nt_conns m conn)" for m cs
    by (induction cs arbitrary: m) auto
  then show "set order = dom (nt_conns n) \<Longrightarrow> ?thesis"
    by (auto simp: CloseIdleConnections_def idle_at_def split: option.splits)
qed

lemma AcceptConnection_ok:
  assumes "net_ok n" "nt_running n"
  shows "net_ok (AcceptConnection ok now n)"
proof (cases ok)
  case True
  let ?w = "unat (nt_next_worker n) mod max 1 (nt_threads n)"
  have w: "?w < length (nt_workers n)" using assms by (simp add: net_ok_def max_def)
  have new: "nt_conns n (nt_next_id n) = None" using assms(1) by (fastforce simp: net_ok_def)
  then have fresh: "nt_next_id n \<notin> nt_workers n ! v" if "v < length (nt_workers n)" for v
    using net_okD(1) [OF assms(1)] net_okD(2) [OF assms(1), of "nt_next_id n" v] new that by auto
  have "nt_conns n conn = Some c \<Longrightarrow> conn \<le> nt_next_id n" for conn c
    using net_okD(3) [OF assms(1), of conn c] by simp
  then show ?thesis
    using assms w new fresh True
    by (auto simp: net_ok_def AcceptConnection_def ConnectionStart_def new_connection_def Let_def nth_list_update
        split: if_splits)
next
  case False
  then show ?thesis
    using assms(1) by (fastforce simp: net_ok_def AcceptConnection_def ConnectionStart_def new_connection_def Let_def)
qed

lemma TcpStart_ok: "TcpStart host os (new_tcp_server m k) = (n, None) \<Longrightarrow> net_ok n \<and> nt_running n"
  by (auto simp: TcpStart_def new_tcp_server_def net_ok_def Let_def split: if_splits)

lemma recv_loop_frame:
  "recv_loop rs c got = (c', r) \<Longrightarrow> cn_running c' = cn_running c \<and> cn_socket c' = cn_socket c"
  by (induction rs c got rule: recv_loop.induct) (auto simp: Let_def split: if_splits)

lemma Read_frame:
  "ReadAvailablePackets m rs c = (c', r) \<Longrightarrow> cn_running c' = cn_running c \<and> cn_socket c' = cn_socket c"
  by (auto simp: ReadAvailablePackets_def split: if_splits prod.splits recv_end.splits bool.splits
      dest!: recv_loop_frame)

text \<open>Callbacks that keep a property of the server and the client's state.\<close>

locale net_client =
  fixes message :: "'s on_message" and closed :: "'s on_close" and good :: "'s \<Rightarrow> bool"
  assumes message_keeps: "net_ok n \<Longrightarrow> good s \<Longrightarrow> message conn pk (n, s) = (n', s') \<Longrightarrow> net_ok n' \<and> good s'"
    and closed_keeps: "net_ok n \<Longrightarrow> good s \<Longrightarrow> closed conn (n, s) = (n', s') \<Longrightarrow> net_ok n' \<and> good s'"
begin

lemma messages_keep:
  "net_ok n \<Longrightarrow> good s \<Longrightarrow> foldl (\<lambda>st pk. message conn pk st) (n, s) pks = (n', s') \<Longrightarrow> net_ok n' \<and> good s'"
proof (induction pks arbitrary: n s)
  case (Cons pk pks)
  obtain m t where "message conn pk (n, s) = (m, t)" by fastforce
  with Cons.prems(3) have "foldl (\<lambda>st pk. message conn pk st) (m, t) pks = (n', s')" by simp
  with message_keeps [OF Cons.prems(1,2) \<open>message conn pk (n, s) = (m, t)\<close>] Cons.IH show ?case by blast
qed simp

lemma notify_keeps:
  "net_ok n \<Longrightarrow> good s \<Longrightarrow> NotifyConnectionClosed closed conn (n, s) = (n', s') \<Longrightarrow> net_ok n' \<and> good s'"
  unfolding NotifyConnectionClosed_def prod.case by (rule closed_keeps [OF RemoveConnection_ok])

lemma serve_keeps:
  assumes "net_ok n" "good s" "serve_connection message closed ready conn (n, s) = (n', s')"
  shows "net_ok n' \<and> good s'"
proof (cases "ready conn")
  case None
  then show ?thesis using assms by (simp add: serve_connection_def)
next
  case (Some rs)
  show ?thesis
  proof (cases "nt_conns n conn")
    case None
    then have "NotifyConnectionClosed closed conn (n, s) = (n', s')"
      using assms(3) Some by (simp add: serve_connection_def)
    then show ?thesis by (rule notify_keeps [OF assms(1,2)])
  next
    case c: (Some c)
    obtain c' r where R: "ReadAvailablePackets (nt_max n) rs c = (c', r)" by fastforce
    let ?n = "n\<lparr>nt_conns := (nt_conns n)(conn \<mapsto> c')\<rparr>"
    have ok: "net_ok ?n" using net_ok_update [OF assms(1) c] Read_frame [OF R] by simp
    show ?thesis
    proof (cases r)
      case (ReadPackets pks)
      then have "foldl (\<lambda>st pk. message conn pk st) (?n, s) pks = (n', s')"
        using assms(3) Some c R by (simp add: serve_connection_def)
      then show ?thesis by (rule messages_keep [OF ok assms(2)])
    next
      case ReadError
      then have "NotifyConnectionClosed closed conn (?n, s) = (n', s')"
        using assms(3) Some c R by (simp add: serve_connection_def)
      then show ?thesis by (rule notify_keeps [OF ok assms(2)])
    next
      case ReadClosed
      then have "NotifyConnectionClosed closed conn (?n, s) = (n', s')"
        using assms(3) Some c R by (simp add: serve_connection_def)
      then show ?thesis by (rule notify_keeps [OF ok assms(2)])
    qed
  qed
qed

lemma turn_keeps:
  assumes "net_ok n" "good s" "WorkerTurn message closed ready w (n, s) = (n', s')"
  shows "net_ok n' \<and> good s'"
proof -
  have "net_ok n \<Longrightarrow> good s \<Longrightarrow>
      foldl (\<lambda>st conn. serve_connection message closed ready conn st) (n, s) cs = (n', s') \<Longrightarrow> net_ok n' \<and> good s'"
    for n s cs
  proof (induction cs arbitrary: n s)
    case (Cons conn cs)
    obtain m t where "serve_connection message closed ready conn (n, s) = (m, t)" by fastforce
    with Cons.prems(3) have "foldl (\<lambda>st conn. serve_connection message closed ready conn st) (m, t) cs = (n', s')" by simp
    with serve_keeps [OF Cons.prems(1,2) \<open>serve_connection message closed ready conn (n, s) = (m, t)\<close>] Cons.IH
    show ?case by blast
  qed simp
  then show ?thesis using assms by (auto simp: WorkerTurn_def split: if_splits)
qed

end

subsection \<open>From one end of a connection to the other\<close>

lemma send_bytes_all: "send_bytes send i bs = (written, True) \<Longrightarrow> written = bs"
proof (induction send i bs arbitrary: written rule: send_bytes.induct)
  case (1 send i bs)
  show ?case
  proof (cases "bs = [] \<or> send i \<le> 0")
    case True
    then show ?thesis using "1.prems" by (subst (asm) send_bytes.simps) (simp split: if_splits)
  next
    case False
    obtain w ok where W: "send_bytes send (i + 1) (drop (nat (send i)) bs) = (w, ok)" by fastforce
    then have "written = take (nat (send i)) bs @ w" "ok"
      using False "1.prems" by (simp_all add: send_bytes.simps [of send i bs])
    then show ?thesis using "1.IH" [of w] False W by simp
  qed
qed

lemma send_bytes_prefix: "send_bytes send i bs = (written, ok) \<Longrightarrow> \<exists>rest. bs = written @ rest"
proof (induction send i bs arbitrary: written ok rule: send_bytes.induct)
  case (1 send i bs)
  show ?case
  proof (cases "bs = [] \<or> send i \<le> 0")
    case True
    then show ?thesis using "1.prems" by (subst (asm) send_bytes.simps) (auto split: if_splits)
  next
    case False
    obtain w ok' where W: "send_bytes send (i + 1) (drop (nat (send i)) bs) = (w, ok')" by fastforce
    then have "written = take (nat (send i)) bs @ w"
      using False "1.prems" by (simp add: send_bytes.simps [of send i bs])
    then show ?thesis using "1.IH" [of w ok'] False W by (metis append.assoc append_take_drop_id)
  qed
qed

text \<open>Sending packets one after the other until one fails.\<close>

fun send_packets :: "32 word \<Rightarrow> (packet \<times> (nat \<Rightarrow> int)) list \<Rightarrow> connection \<Rightarrow> connection \<times> bool" where
  "send_packets max_size [] c = (c, True)"
| "send_packets max_size ((pk, send) # pks) c =
     (case ConnectionSend max_size send pk c of
        (c', True) \<Rightarrow> send_packets max_size pks c'
      | (c', False) \<Rightarrow> (c', False))"

text \<open>Reading one time after the other until a read fails, or the peer is gone.\<close>

fun read_packets :: "32 word \<Rightarrow> recv_result list list \<Rightarrow> connection \<Rightarrow> connection \<times> packet list option" where
  "read_packets max_size [] c = (c, Some [])"
| "read_packets max_size (rs # rss) c =
     (case ReadAvailablePackets max_size rs c of
        (c', ReadPackets pks) \<Rightarrow>
          (case read_packets max_size rss c' of (c'', qs) \<Rightarrow> (c'', map_option (\<lambda>qs. pks @ qs) qs))
      | (c', _) \<Rightarrow> (c', None))"

text \<open>The bytes that one call of \<^verbatim>\<open>ReadAvailablePackets\<close> takes from the socket, and whether it meets
  neither the end of the stream nor an error.\<close>

fun received :: "recv_result list \<Rightarrow> byte list" where
  "received (Received bs now # rs) = (if length bs < recv_buf_size then bs else bs @ received rs)"
| "received _ = []"

fun undisturbed :: "recv_result list \<Rightarrow> bool" where
  "undisturbed (Received bs now # rs) = (length bs < recv_buf_size \<or> undisturbed rs)"
| "undisturbed (PeerClosed # rs) = False"
| "undisturbed (RecvFailed # rs) = False"
| "undisturbed _ = True"

lemma sent_frames:
  "send_packets m pks c = (c', True) \<Longrightarrow>
     \<exists>frames. map (\<lambda>p. Encode p m) (map fst pks) = map Encoded frames \<and> cn_wire c' = cn_wire c @ concat frames"
proof (induction m pks c rule: send_packets.induct)
  case (2 m pk send pks c)
  obtain c1 where c1: "ConnectionSend m send pk c = (c1, True)" "send_packets m pks c1 = (c', True)"
    using "2.prems" by (auto split: prod.splits bool.splits)
  then obtain bs where "Encode pk m = Encoded bs" "cn_wire c1 = cn_wire c @ bs"
    by (auto simp: ConnectionSend_def split: encode_result.splits if_splits prod.splits dest!: send_bytes_all)
  moreover obtain frames where "map (\<lambda>p. Encode p m) (map fst pks) = map Encoded frames"
      "cn_wire c' = cn_wire c1 @ concat frames"
    using "2.IH" [OF c1(1) [symmetric] refl c1(2)] by blast
  ultimately show ?case by (intro exI [of _ "bs # frames"]) simp
qed simp

lemma recv_loop_undisturbed:
  "undisturbed rs \<Longrightarrow> \<exists>c' got. recv_loop rs c g = (c', Drained got) \<and> cn_buffer c' = cn_buffer c @ received rs \<and>
     cn_running c' = cn_running c"
  by (induction rs c g rule: recv_loop.induct) (auto simp: Let_def)

lemma Decode_unframe:
  "Decode bs m = (case pk.unframe m bs [] of Inl out \<Rightarrow> (False, out, bs) | Inr (out, rest) \<Rightarrow> (True, out, rest))"
  by (simp add: Decode_def decode_loop_unframe)

lemma Read_undisturbed:
  assumes "undisturbed rs" "cn_running c" "pk.unframe m (cn_buffer c @ received rs) [] = Inr (pks, rest)"
  shows "\<exists>c'. ReadAvailablePackets m rs c = (c', ReadPackets pks) \<and> cn_buffer c' = rest \<and> cn_running c'"
proof -
  obtain c1 got where R: "recv_loop rs c False = (c1, Drained got)" "cn_buffer c1 = cn_buffer c @ received rs"
    "cn_running c1" using recv_loop_undisturbed [OF assms(1), of c False] assms(2) by auto
  have "pk.unframe m [] [] = Inr ([], [])" by (simp add: pk.unframe.simps packet_step_def kHeaderSize_def)
  then show ?thesis using R assms(2,3) by (auto simp: ReadAvailablePackets_def Decode_unframe)
qed

lemma read_packets_unframe:
  "list_all undisturbed rss \<Longrightarrow> cn_running c \<Longrightarrow>
     pk.unframe_pieces m (map received rss) out (cn_buffer c) = Inr (out', rest) \<Longrightarrow>
     \<exists>c' pks. out' = out @ pks \<and> read_packets m rss c = (c', Some pks) \<and> cn_buffer c' = rest \<and> cn_running c'"
proof (induction rss arbitrary: c out)
  case (Cons rs rss)
  let ?bs = "cn_buffer c @ received rs"
  obtain qs r where 1: "pk.unframe m ?bs [] = Inr (qs, r)"
    and 2: "pk.unframe_pieces m (map received rss) (out @ qs) r = Inr (out', rest)"
    using Cons.prems(3) unframe_acc [of m ?bs out "[]"] by (cases "pk.unframe m ?bs []") auto
  obtain c1 where c1: "ReadAvailablePackets m rs c = (c1, ReadPackets qs)" "cn_buffer c1 = r" "cn_running c1"
    using Read_undisturbed [OF _ Cons.prems(2) 1] Cons.prems(1) by auto
  obtain c2 pks where "out' = (out @ qs) @ pks" "read_packets m rss c1 = (c2, Some pks)" "cn_buffer c2 = rest" "cn_running c2"
    using Cons.IH [of c1 "out @ qs"] Cons.prems(1) 2 c1(2,3) by auto
  then show ?case using c1(1) by simp
qed simp

subsection \<open>Properties\<close>

text \<open>C31: whatever packets one end of a connection sends completely, and into whatever chunks their
  bytes are cut on the way, the other end reads exactly these packets, in order, and keeps no
  byte back.\<close>

theorem stream_delivered:
  assumes "send_packets max_size sends a = (a', True)" "cn_wire a = []" "concat (map received rss) = cn_wire a'"
    "list_all undisturbed rss" "cn_running b" "cn_buffer b = []"
    "list_all (\<lambda>(pk, send). in_i64 (pk_player_id pk)) sends"
  shows "\<exists>b'. read_packets max_size rss b = (b', Some (map fst sends)) \<and> cn_buffer b' = [] \<and> cn_running b'"
proof -
  obtain frames where F: "map (\<lambda>p. Encode p max_size) (map fst sends) = map Encoded frames" "cn_wire a' = concat frames"
    using sent_frames [OF assms(1)] assms(2) by auto
  have "list_all (\<lambda>p. in_i64 (pk_player_id p)) (map fst sends)"
    using assms(7) by (simp add: list_all_iff split_beta)
  from stream_decodes [OF this F(1), of "map received rss"] F(2) assms(3)
  have "pk.unframe_pieces max_size (map received rss) [] (cn_buffer b) = Inr ([] @ map fst sends, [])"
    by (simp add: assms(6))
  from read_packets_unframe [OF assms(4,5) this] show ?thesis by auto
qed

theorem stream_delivered_witness:
  "let p = \<lparr>pk_msg_id = 1101, pk_seq_id = 7, pk_player_id = -3, pk_body = ''a''\<rparr>;
       a = ConnectionStart True (new_connection 0);
       bs = cn_wire (fst (send_packets 4096 [(p, \<lambda>i. 8)] a))
   in snd (read_packets 4096 [[Received (take 5 bs) 1], [Received (drop 5 bs) 2, WouldBlock]] a) = Some [p]"
proof -
  let ?p = "\<lparr>pk_msg_id = 1101, pk_seq_id = 7, pk_player_id = -3, pk_body = ''a''\<rparr>"
  let ?a = "ConnectionStart True (new_connection 0)"
  obtain a' ok where S: "send_packets 4096 [(?p, \<lambda>i. 8)] ?a = (a', ok)" by fastforce
  have a: "cn_wire ?a = []" "cn_running ?a" "cn_buffer ?a = []"
    by (simp_all add: ConnectionStart_def new_connection_def)
  have "ok" "length (cn_wire a') = 21"
    using S a by (auto simp: ConnectionSend_def Encode_def kHeaderSize_def Let_def send_bytes.simps
        split: if_splits prod.splits)
  then show ?thesis
    using stream_delivered [of 4096 "[(?p, \<lambda>i. 8)]" ?a a'
        "[[Received (take 5 (cn_wire a')) 1], [Received (drop 5 (cn_wire a')) 2, WouldBlock]]" ?a] S a
    by (auto simp: recv_buf_size_def in_i64_def Let_def)
qed

end
