(* ===== verification/DdzSha256.thy ===== *)
theory DdzSha256
  imports DdzCodec
begin

text \<open>
  SHA-256 as \<^verbatim>\<open>common/util/sha256.cpp\<close> computes it: padding, message schedule, compression,
  and the hexadecimal digest. The arithmetic is on 32-bit words, where \<open>+\<close> wraps as
  \<^verbatim>\<open>uint32_t\<close> does. The known-answer lemmas evaluate the definitions inside the kernel.
\<close>

unbundle bit_operations_syntax

definition kTable :: "32 word list" where
  "kTable = concat [
    [0x428a2f98, 0x71374491, 0xb5c0fbcf, 0xe9b5dba5, 0x3956c25b, 0x59f111f1, 0x923f82a4, 0xab1c5ed5],
    [0xd807aa98, 0x12835b01, 0x243185be, 0x550c7dc3, 0x72be5d74, 0x80deb1fe, 0x9bdc06a7, 0xc19bf174],
    [0xe49b69c1, 0xefbe4786, 0x0fc19dc6, 0x240ca1cc, 0x2de92c6f, 0x4a7484aa, 0x5cb0a9dc, 0x76f988da],
    [0x983e5152, 0xa831c66d, 0xb00327c8, 0xbf597fc7, 0xc6e00bf3, 0xd5a79147, 0x06ca6351, 0x14292967],
    [0x27b70a85, 0x2e1b2138, 0x4d2c6dfc, 0x53380d13, 0x650a7354, 0x766a0abb, 0x81c2c92e, 0x92722c85],
    [0xa2bfe8a1, 0xa81a664b, 0xc24b8b70, 0xc76c51a3, 0xd192e819, 0xd6990624, 0xf40e3585, 0x106aa070],
    [0x19a4c116, 0x1e376c08, 0x2748774c, 0x34b0bcb5, 0x391c0cb3, 0x4ed8aa4a, 0x5b9cca4f, 0x682e6ff3],
    [0x748f82ee, 0x78a5636f, 0x84c87814, 0x8cc70208, 0x90befffa, 0xa4506ceb, 0xbef9a3f7, 0xc67178f2]]"

definition RotR :: "32 word \<Rightarrow> nat \<Rightarrow> 32 word" where
  "RotR x n = drop_bit n x OR push_bit (32 - n) x"

definition Ch :: "32 word \<Rightarrow> 32 word \<Rightarrow> 32 word \<Rightarrow> 32 word" where
  "Ch x y z = (x AND y) XOR (NOT x AND z)"

definition Maj :: "32 word \<Rightarrow> 32 word \<Rightarrow> 32 word \<Rightarrow> 32 word" where
  "Maj x y z = (x AND y) XOR (x AND z) XOR (y AND z)"

definition BigSigma0 :: "32 word \<Rightarrow> 32 word" where
  "BigSigma0 x = RotR x 2 XOR RotR x 13 XOR RotR x 22"

definition BigSigma1 :: "32 word \<Rightarrow> 32 word" where
  "BigSigma1 x = RotR x 6 XOR RotR x 11 XOR RotR x 25"

definition SmallSigma0 :: "32 word \<Rightarrow> 32 word" where
  "SmallSigma0 x = RotR x 7 XOR RotR x 18 XOR drop_bit 3 x"

definition SmallSigma1 :: "32 word \<Rightarrow> 32 word" where
  "SmallSigma1 x = RotR x 17 XOR RotR x 19 XOR drop_bit 10 x"

text \<open>The padding: a one bit, zeros up to 56 modulo 64, the bit length in eight bytes.\<close>

function pad_zeros :: "byte list \<Rightarrow> byte list" where
  "pad_zeros msg = (if length msg mod 64 \<noteq> 56 then pad_zeros (msg @ [0]) else msg)"
  by pat_completeness auto
termination
  by (relation "measure (\<lambda>msg. if length msg mod 64 \<le> 56 then 56 - length msg mod 64 else 120 - length msg mod 64)")
    (auto simp: mod_Suc)

declare pad_zeros.simps [simp del]

definition padded :: "byte list \<Rightarrow> byte list" where
  "padded data =
     (let bit_len = (of_nat (length data) :: 64 word) * 8 in
      pad_zeros (data @ [0x80]) @ map (\<lambda>i. ucast (drop_bit (i * 8) bit_len)) [7, 6, 5, 4, 3, 2, 1, 0])"

text \<open>Word \<open>i\<close> of a block.\<close>

definition block_word :: "byte list \<Rightarrow> nat \<Rightarrow> 32 word" where
  "block_word b i =
     push_bit 24 (ucast (b ! (i * 4))) OR push_bit 16 (ucast (b ! (i * 4 + 1))) OR
     push_bit 8 (ucast (b ! (i * 4 + 2))) OR ucast (b ! (i * 4 + 3))"

definition schedule :: "byte list \<Rightarrow> 32 word list" where
  "schedule b =
     foldl (\<lambda>w i. w @ [SmallSigma1 (w ! (i - 2)) + w ! (i - 7) + SmallSigma0 (w ! (i - 15)) + w ! (i - 16)])
       (map (block_word b) [0..<16]) [16..<64]"

type_synonym sha_regs =
  "32 word \<times> 32 word \<times> 32 word \<times> 32 word \<times> 32 word \<times> 32 word \<times> 32 word \<times> 32 word"

definition sha_round :: "sha_regs \<Rightarrow> 32 word \<times> 32 word \<Rightarrow> sha_regs" where
  "sha_round r kw =
     (case r of (a, b, c, d, e, f, g, hh) \<Rightarrow>
        let t1 = hh + BigSigma1 e + Ch e f g + fst kw + snd kw;
            t2 = BigSigma0 a + Maj a b c
        in (t1 + t2, a, b, c, d + t1, e, f, g))"

definition sha_block :: "sha_regs \<Rightarrow> byte list \<Rightarrow> sha_regs" where
  "sha_block h block =
     (case (h, foldl sha_round h (zip kTable (schedule block))) of
        ((h0, h1, h2, h3, h4, h5, h6, h7), (a, b, c, d, e, f, g, hh)) \<Rightarrow>
          (h0 + a, h1 + b, h2 + c, h3 + d, h4 + e, h5 + f, h6 + g, h7 + hh))"

function sha_blocks :: "sha_regs \<Rightarrow> byte list \<Rightarrow> sha_regs" where
  "sha_blocks h msg = (if msg = [] then h else sha_blocks (sha_block h (take 64 msg)) (drop 64 msg))"
  by pat_completeness auto
termination by (relation "measure (length o snd)") auto

declare sha_blocks.simps [simp del]

definition word_bytes :: "32 word \<Rightarrow> byte list" where
  "word_bytes h = map (\<lambda>n. ucast (drop_bit n h)) [24, 16, 8, 0]"

definition sha_init :: sha_regs where
  "sha_init = (0x6a09e667, 0xbb67ae85, 0x3c6ef372, 0xa54ff53a, 0x510e527f, 0x9b05688c, 0x1f83d9ab, 0x5be0cd19)"

definition Sha256 :: "string \<Rightarrow> byte list" where
  "Sha256 data =
     (case sha_blocks sha_init (padded (map byte_of_char data)) of
        (a, b, c, d, e, f, g, h) \<Rightarrow> concat (map word_bytes [a, b, c, d, e, f, g, h]))"

definition hex_digit :: "nat \<Rightarrow> char" where
  "hex_digit n = (if n < 10 then char_of (48 + n) else char_of (87 + n))"

text \<open>\<^verbatim>\<open>std::hex\<close> with width 2 and fill 0.\<close>

definition hex_byte :: "byte \<Rightarrow> string" where
  "hex_byte b = [hex_digit (unat b div 16), hex_digit (unat b mod 16)]"

definition Sha256Hex :: "string \<Rightarrow> string" where
  "Sha256Hex data = concat (map hex_byte (Sha256 data))"

subsection \<open>Shape of the padding and of the digest\<close>

lemma pad_zeros_ok: "\<exists>k. pad_zeros msg = msg @ replicate k 0 \<and> length (pad_zeros msg) mod 64 = 56"
proof (induction msg rule: pad_zeros.induct)
  case (1 msg)
  show ?case
  proof (cases "length msg mod 64 = 56")
    case True
    then have "pad_zeros msg = msg" by (subst pad_zeros.simps) simp
    then show ?thesis using True by (auto intro: exI [of _ 0])
  next
    case False
    then obtain k where "pad_zeros (msg @ [0]) = (msg @ [0]) @ replicate k 0"
      "length (pad_zeros (msg @ [0])) mod 64 = 56" using 1 by blast
    moreover have "pad_zeros msg = pad_zeros (msg @ [0])" using False by (subst pad_zeros.simps) simp
    ultimately show ?thesis by (auto intro: exI [of _ "Suc k"])
  qed
qed

lemma padded_ok: "length (padded data) mod 64 = 0 \<and> take (length data) (padded data) = data"
proof -
  obtain k where k: "pad_zeros (data @ [0x80]) = (data @ [0x80]) @ replicate k 0"
    "length (pad_zeros (data @ [0x80])) mod 64 = 56" using pad_zeros_ok by blast
  have "length (padded data) = length (pad_zeros (data @ [0x80])) + 8" by (simp add: padded_def Let_def)
  then have "length (padded data) mod 64 = 0" using k(2) by presburger
  then show ?thesis by (simp add: padded_def Let_def k(1))
qed

lemma length_schedule: "length (schedule b) = 64"
proof -
  have "length (foldl (\<lambda>w i. w @ [f w i]) w ns) = length w + length ns"
    for f and w :: "32 word list" and ns :: "nat list"
    by (induction ns arbitrary: w) auto
  then show ?thesis by (simp only: schedule_def length_map length_upt)
qed

lemma length_Sha256: "length (Sha256 data) = 32"
  by (simp add: Sha256_def word_bytes_def split: prod.split)

lemma length_Sha256Hex: "length (Sha256Hex data) = 64"
proof -
  have "length (concat (map hex_byte bs)) = 2 * length bs" for bs by (induction bs) (simp_all add: hex_byte_def)
  then show ?thesis by (simp add: Sha256Hex_def length_Sha256)
qed

definition is_hex :: "char \<Rightarrow> bool" where
  "is_hex c \<longleftrightarrow> c \<in> set ''0123456789abcdef''"

lemma is_hex_digit: "n < 16 \<Longrightarrow> is_hex (hex_digit n)"
proof -
  assume "n < 16"
  moreover have "list_all (\<lambda>n. is_hex (hex_digit n)) [0..<16]" by code_simp
  ultimately show ?thesis by (simp only: list_all_iff set_upt) simp
qed

lemma unat_byte: "unat (b :: byte) < 256"
proof -
  have "unat b < 2 ^ LENGTH(8)" by (rule unsigned_less)
  then show ?thesis by simp
qed

lemma Sha256Hex_digits: "list_all is_hex (Sha256Hex data)"
proof -
  have "unat b div 16 < 16" for b :: byte 
    using unat_byte [of b] by (simp add: less_mult_imp_div_less)
  then have "list_all is_hex (hex_byte b)" for b by (simp add: hex_byte_def is_hex_digit)
  then show ?thesis by (auto simp: Sha256Hex_def list_all_iff)
qed

end
