(* ===== verification/DdzAuth.thy ===== *)
theory DdzAuth
  imports DdzSha256
begin

text \<open>
  The token service, \<^verbatim>\<open>service/login/auth_token_service.cpp\<close>: signed tokens that carry a
  purpose, a player and an expiry time. What makes a token trustworthy does not depend on the
  hash: the locale \<open>token_format\<close> asks of the signature only that it contains no dot, and is
  interpreted on the SHA-256 signature of the service.
\<close>

text \<open>The service and the process-wide counter of \<^verbatim>\<open>GenerateNonce\<close>.\<close>

record auth =
  au_secret :: string
  au_ttl :: int
  au_seq :: "64 word"

definition default_auth :: auth where
  "default_auth = \<lparr>au_secret = ''dev_change_me'', au_ttl = 604800, au_seq = 1\<rparr>"

definition kPurposeLogin :: string where
  "kPurposeLogin = ''login''"

definition kPurposeSession :: string where
  "kPurposeSession = ''session''"

record token_issue =
  ti_token :: string
  ti_expire :: millis

record token_verify =
  tv_ok :: bool
  tv_expired :: bool
  tv_player :: player_id
  tv_purpose :: string

definition no_token :: token_verify where
  "no_token = \<lparr>tv_ok = False, tv_expired = False, tv_player = 0, tv_purpose = []\<rparr>"

definition Configure :: "auth \<Rightarrow> string \<Rightarrow> int \<Rightarrow> auth" where
  "Configure a secret ttl =
     (let a1 = (if secret \<noteq> [] then a\<lparr>au_secret := secret\<rparr> else a)
      in if ttl > 0 then a1\<lparr>au_ttl := ttl\<rparr> else a1)"

definition purpose_char :: "char \<Rightarrow> bool" where
  "purpose_char ch \<longleftrightarrow>
     (let n = (of_char ch :: nat) in
      97 \<le> n \<and> n \<le> 122 \<or> 65 \<le> n \<and> n \<le> 90 \<or> 48 \<le> n \<and> n \<le> 57 \<or> ch = CHR ''_'' \<or> ch = CHR ''-'')"

definition IsValidPurpose :: "string \<Rightarrow> bool" where
  "IsValidPurpose purpose \<longleftrightarrow> purpose \<noteq> [] \<and> list_all purpose_char purpose"

definition GenerateNonce :: "auth \<Rightarrow> player_id \<Rightarrow> millis \<Rightarrow> auth \<times> string" where
  "GenerateNonce a p now =
     (a\<lparr>au_seq := au_seq a + 1\<rparr>,
      int_str p @ ''_'' @ int_str now @ ''_'' @ nat_str (unat (au_seq a)))"

definition Sign :: "string \<Rightarrow> string \<Rightarrow> string" where
  "Sign secret payload = Sha256Hex (secret @ ''|'' @ payload @ ''|'' @ secret)"

text \<open>\<^verbatim>\<open>Split(s, delim)\<close>.\<close>

definition Split :: "string \<Rightarrow> char \<Rightarrow> string list" where
  "Split s delim = split_pieces delim [] s"

definition IssueWithPurpose :: "auth \<Rightarrow> player_id \<Rightarrow> millis \<Rightarrow> string \<Rightarrow> auth \<times> token_issue" where
  "IssueWithPurpose a p now purpose =
     (if p \<le> 0 \<or> \<not> IsValidPurpose purpose then (a, \<lparr>ti_token = [], ti_expire = 0\<rparr>)
      else
        let expire = now + au_ttl a * 1000 in
        (case GenerateNonce a p now of
           (a', nonce) \<Rightarrow>
             let payload = ''v2.'' @ purpose @ ''.'' @ int_str p @ ''.'' @ int_str expire @ ''.'' @ nonce
             in (a', \<lparr>ti_token = payload @ ''.'' @ Sign (au_secret a) payload, ti_expire = expire\<rparr>)))"

definition IssueLoginTicket :: "auth \<Rightarrow> player_id \<Rightarrow> millis \<Rightarrow> auth \<times> token_issue" where
  "IssueLoginTicket a p now = IssueWithPurpose a p now kPurposeLogin"

definition IssueSessionToken :: "auth \<Rightarrow> player_id \<Rightarrow> millis \<Rightarrow> auth \<times> token_issue" where
  "IssueSessionToken a p now = IssueWithPurpose a p now kPurposeSession"

text \<open>The two numbers of a token: whole strings, both positive.\<close>

definition token_numbers :: "string \<Rightarrow> string \<Rightarrow> (player_id \<times> millis) option" where
  "token_numbers p_text e_text =
     (case (stoll_all p_text, stoll_all e_text) of
        (Some p, Some e) \<Rightarrow> if p \<le> 0 \<or> e \<le> 0 then None else Some (p, e)
      | _ \<Rightarrow> None)"

text \<open>The branch on the version: purpose, payload, signature, player and expiry.\<close>

definition token_claims :: "string list \<Rightarrow> (string \<times> string \<times> string \<times> player_id \<times> millis) option" where
  "token_claims parts =
     (if length parts = 5 \<and> parts ! 0 = ''v1'' then
        map_option (\<lambda>(p, e). (kPurposeSession,
            parts ! 0 @ ''.'' @ parts ! 1 @ ''.'' @ parts ! 2 @ ''.'' @ parts ! 3, parts ! 4, p, e))
          (token_numbers (parts ! 1) (parts ! 2))
      else if length parts = 6 \<and> parts ! 0 = ''v2'' then
        (if \<not> IsValidPurpose (parts ! 1) then None
         else map_option (\<lambda>(p, e). (parts ! 1,
            parts ! 0 @ ''.'' @ parts ! 1 @ ''.'' @ parts ! 2 @ ''.'' @ parts ! 3 @ ''.'' @ parts ! 4,
            parts ! 5, p, e))
          (token_numbers (parts ! 2) (parts ! 3)))
      else None)"

text \<open>The empty \<open>required\<close> purpose accepts every purpose.\<close>

definition Verify :: "auth \<Rightarrow> string \<Rightarrow> millis \<Rightarrow> string \<Rightarrow> token_verify" where
  "Verify a token now required =
     (if token = [] then no_token
      else case token_claims (Split token CHR ''.'') of
             None \<Rightarrow> no_token
           | Some (purpose, payload, sig, p, expire) \<Rightarrow>
               if required \<noteq> [] \<and> purpose \<noteq> required then no_token
               else if sig \<noteq> Sign (au_secret a) payload then no_token
               else if now > expire then no_token\<lparr>tv_expired := True\<rparr>
               else \<lparr>tv_ok = True, tv_expired = False, tv_player = p, tv_purpose = purpose\<rparr>)"

subsection \<open>Which tokens are accepted\<close>

text \<open>A dotted token under some signature function.\<close>

locale token_format =
  fixes sign :: "string \<Rightarrow> string"
  assumes no_dot: "CHR ''.'' \<notin> set (sign s)"
begin

definition sealed :: "string list \<Rightarrow> string" where
  "sealed fs = join ''.'' fs @ ''.'' @ sign (join ''.'' fs)"

lemma sealed_join: "fs \<noteq> [] \<Longrightarrow> sealed fs = join ''.'' (fs @ [sign (join ''.'' fs)])"
proof -
  have "join d (fs @ [x]) = join d fs @ d @ x" if "fs \<noteq> []" for d x and fs :: "string list"
    using that
  proof (induction fs)
    case (Cons f fs)
    then show ?case by (cases fs) auto
  qed simp
  then show "fs \<noteq> [] \<Longrightarrow> ?thesis" by (simp add: sealed_def)
qed

lemma split_sealed:
  assumes "fs \<noteq> []" "list_all (\<lambda>f. CHR ''.'' \<notin> set f) fs"
  shows "split_pieces CHR ''.'' [] (sealed fs) = fs @ [sign (join ''.'' fs)]"
  unfolding sealed_join [OF assms(1)] by (rule split_pieces_join) (use assms no_dot in auto)

lemma sealed_iff:
  assumes "fs \<noteq> []"
  shows "split_pieces CHR ''.'' [] token = fs @ [sign (join ''.'' fs)] \<longleftrightarrow>
    token = sealed fs \<and> list_all (\<lambda>f. CHR ''.'' \<notin> set f) fs"
proof
  assume s: "split_pieces CHR ''.'' [] token = fs @ [sign (join ''.'' fs)]"
  have "list_all (\<lambda>f. CHR ''.'' \<notin> set f) fs"
    using split_pieces_clean [of "CHR ''.''" "[]" _ token] s by (auto simp: list_all_iff)
  moreover have "token = sealed fs"
    using join_split_pieces [of "CHR ''.''" "[]" token] s by (simp add: sealed_join [OF assms])
  ultimately show "token = sealed fs \<and> list_all (\<lambda>f. CHR ''.'' \<notin> set f) fs" by simp
qed (use split_sealed [OF assms] in auto)

end

lemma Sign_no_dot: "CHR ''.'' \<notin> set (Sign secret s)"
  using Sha256Hex_digits by (force simp: Sign_def list_all_iff is_hex_def)

interpretation token: token_format "Sign secret" for secret
  by unfold_locales (rule Sign_no_dot)

lemma length_5: "length xs = 5 \<longleftrightarrow> (\<exists>a b c d e. xs = [a, b, c, d, e])"
  by (auto simp: length_Suc_conv eval_nat_numeral)

lemma length_6: "length xs = 6 \<longleftrightarrow> (\<exists>a b c d e f. xs = [a, b, c, d, e, f])"
  by (auto simp: length_Suc_conv eval_nat_numeral)


text \<open>The parts of a token of either version, before its signature.\<close>

definition token_fields :: "string \<Rightarrow> string list \<Rightarrow> string \<Rightarrow> string \<Rightarrow> bool" where
  "token_fields purpose fs p_text e_text \<longleftrightarrow>
     (\<exists>nonce. purpose = kPurposeSession \<and> fs = [''v1'', p_text, e_text, nonce] \<or>
              IsValidPurpose purpose \<and> fs = [''v2'', purpose, p_text, e_text, nonce])"

lemma token_fields_Nil: "token_fields u fs pt et \<Longrightarrow> fs \<noteq> []"
  by (auto simp: token_fields_def)

lemma token_claims_iff:
  "token_claims parts = Some (u, payload, sig, p, e) \<longleftrightarrow>
     (\<exists>fs pt et. token_fields u fs pt et \<and> token_numbers pt et = Some (p, e) \<and>
        parts = fs @ [sig] \<and> payload = join ''.'' fs)"
proof
  assume c: "token_claims parts = Some (u, payload, sig, p, e)"
  show "\<exists>fs pt et. token_fields u fs pt et \<and> token_numbers pt et = Some (p, e) \<and>
        parts = fs @ [sig] \<and> payload = join ''.'' fs"
  proof (cases "length parts = 5")
    case True
    then obtain v a b n where v: "parts = [v, a, b, n, sig]" "v = ''v1''" "u = kPurposeSession"
      "token_numbers a b = Some (p, e)" "payload = join ''.'' [v, a, b, n]"
      using c unfolding length_5 by (auto simp: token_claims_def split: if_splits)
    then show ?thesis
      by (intro exI [of _ "[v, a, b, n]"] exI [of _ a] exI [of _ b]) (simp add: token_fields_def)
  next
    case False
    then have "length parts = 6" using c by (auto simp: token_claims_def split: if_splits)
    then obtain v w a b n where v: "parts = [v, w, a, b, n, sig]" "v = ''v2''" "u = w" "IsValidPurpose w"
      "token_numbers a b = Some (p, e)" "payload = join ''.'' [v, w, a, b, n]"
      using c unfolding length_6 by (auto simp: token_claims_def split: if_splits)
    then show ?thesis
      by (intro exI [of _ "[v, w, a, b, n]"] exI [of _ a] exI [of _ b]) (simp add: token_fields_def)
  qed
next
  assume "\<exists>fs pt et. token_fields u fs pt et \<and> token_numbers pt et = Some (p, e) \<and>
        parts = fs @ [sig] \<and> payload = join ''.'' fs"
  then show "token_claims parts = Some (u, payload, sig, p, e)"
    by (auto simp: token_fields_def token_claims_def)
qed

text \<open>A token that the holder of the secret could have issued: the fields carry no dot, the two
  numbers are the player and the expiry, and the last part is the signature of the rest.\<close>

definition genuine :: "string \<Rightarrow> string \<Rightarrow> string \<Rightarrow> player_id \<Rightarrow> millis \<Rightarrow> bool" where
  "genuine secret tok purpose p expire \<longleftrightarrow>
     (\<exists>fs p_text e_text. token_fields purpose fs p_text e_text \<and>
        token_numbers p_text e_text = Some (p, expire) \<and>
        list_all (\<lambda>f. CHR ''.'' \<notin> set f) fs \<and>
        tok = join ''.'' fs @ ''.'' @ Sign secret (join ''.'' fs))"

lemma genuine_iff:
  "genuine secret tok u p e \<longleftrightarrow>
     (\<exists>payload. token_claims (Split tok CHR ''.'') = Some (u, payload, Sign secret payload, p, e))"
proof -
  have "Split tok CHR ''.'' = fs @ [Sign secret (join ''.'' fs)] \<longleftrightarrow>
      tok = join ''.'' fs @ ''.'' @ Sign secret (join ''.'' fs) \<and> list_all (\<lambda>f. CHR ''.'' \<notin> set f) fs"
    if "token_fields u fs pt et" for fs pt et
    using token.sealed_iff [OF token_fields_Nil [OF that]] by (simp add: Split_def token.sealed_def)
  then show ?thesis unfolding genuine_def token_claims_iff by blast
qed

lemma genuine_not_Nil: "genuine secret tok u p e \<Longrightarrow> tok \<noteq> []"
  by (auto simp: genuine_def)

lemma genuine_unique:
  "genuine secret tok u p e \<Longrightarrow> genuine secret tok u' p' e' \<Longrightarrow> u = u' \<and> p = p' \<and> e = e'"
  by (auto simp: genuine_iff)

lemma token_numbers_positive: "token_numbers pt et = Some (p, e) \<Longrightarrow> 0 < p \<and> 0 < e"
  by (simp add: token_numbers_def split: option.splits if_splits)

lemma genuine_positive: "genuine secret tok u p e \<Longrightarrow> 0 < p \<and> 0 < e"
  unfolding genuine_def using token_numbers_positive by blast

lemma Verify_yes:
  assumes "genuine (au_secret a) tok u p e" "required = [] \<or> u = required"
  shows "Verify a tok now required =
    (if now > e then no_token\<lparr>tv_expired := True\<rparr>
     else \<lparr>tv_ok = True, tv_expired = False, tv_player = p, tv_purpose = u\<rparr>)"
proof -
  obtain payload where "token_claims (Split tok CHR ''.'') = Some (u, payload, Sign (au_secret a) payload, p, e)"
    using assms(1) by (auto simp: genuine_iff)
  then show ?thesis using assms(2) genuine_not_Nil [OF assms(1)] by (auto simp: Verify_def)
qed

lemma Verify_no:
  assumes "\<And>u p e. genuine (au_secret a) tok u p e \<Longrightarrow> required \<noteq> [] \<and> u \<noteq> required"
  shows "Verify a tok now required = no_token"
proof (cases "token_claims (Split tok CHR ''.'')")
  case (Some x)
  obtain u payload sig p e where x: "x = (u, payload, sig, p, e)" by (cases x) auto
  have "sig = Sign (au_secret a) payload \<Longrightarrow> required \<noteq> [] \<and> u \<noteq> required"
    using Some by (intro assms [of u p e]) (simp add: x genuine_iff)
  then show ?thesis by (simp add: Verify_def Some x)
qed (simp add: Verify_def)

text \<open>What is issued is genuine.\<close>

lemma issued_genuine:
  assumes "0 < p" "in_i64 p" "IsValidPurpose purpose" "0 < now + au_ttl a * 1000" "in_i64 (now + au_ttl a * 1000)"
    "IssueWithPurpose a p now purpose = (a', t)"
  shows "genuine (au_secret a') (ti_token t) purpose p (now + au_ttl a * 1000)"
    "ti_expire t = now + au_ttl a * 1000" "au_secret a' = au_secret a" "au_ttl a' = au_ttl a"
proof -
  let ?e = "now + au_ttl a * 1000"
  let ?nonce = "int_str p @ ''_'' @ int_str now @ ''_'' @ nat_str (unat (au_seq a))"
  let ?fs = "[''v2'', purpose, int_str p, int_str ?e, ?nonce]"
  have t: "ti_token t = join ''.'' ?fs @ ''.'' @ Sign (au_secret a) (join ''.'' ?fs)"
    using assms(1,3,6) by (auto simp: IssueWithPurpose_def GenerateNonce_def Let_def)
  show e: "ti_expire t = ?e" and a': "au_secret a' = au_secret a" and "au_ttl a' = au_ttl a"
    using assms(1,3,6) by (auto simp: IssueWithPurpose_def GenerateNonce_def Let_def)
  have "is_digit c \<Longrightarrow> c \<noteq> CHR ''.''" for c by (auto simp: is_digit_def)
  then have "CHR ''.'' \<notin> set (nat_str n)" for n using nat_str_digits [of n] by (auto simp: list_all_iff)
  moreover have "CHR ''.'' \<notin> set purpose"
    using assms(3) by (auto simp: IsValidPurpose_def list_all_iff purpose_char_def Let_def)
  ultimately have "list_all (\<lambda>f. CHR ''.'' \<notin> set f) ?fs" by (simp add: int_str_free)
  moreover have "token_fields purpose ?fs (int_str p) (int_str ?e)" using assms(3) by (simp add: token_fields_def)
  moreover have "token_numbers (int_str p) (int_str ?e) = Some (p, ?e)"
    using assms(1,2,4,5) by (simp add: token_numbers_def)
  ultimately show "genuine (au_secret a') (ti_token t) purpose p ?e"
    unfolding genuine_def t a' by blast
qed

lemma Verify_ok:
  assumes "tv_ok (Verify a tok now required)" "required \<noteq> []"
  shows "\<exists>e. genuine (au_secret a) tok required (tv_player (Verify a tok now required)) e \<and> now \<le> e"
proof -
  have "\<exists>u p e. genuine (au_secret a) tok u p e \<and> u = required"
  proof (rule ccontr)
    assume "\<nexists>u p e. genuine (au_secret a) tok u p e \<and> u = required"
    then have "Verify a tok now required = no_token" using assms(2) by (intro Verify_no) blast
    then show False using assms(1) by (simp add: no_token_def)
  qed
  then obtain p e where g: "genuine (au_secret a) tok required p e" by blast
  then show ?thesis using assms Verify_yes [OF g, of required now] by (auto simp: no_token_def split: if_splits)
qed

subsection \<open>Properties\<close>

text \<open>C29: a token is accepted exactly when it carries a valid signature over well-formed fields, has
  the required purpose and has not expired; the player and the purpose it is accepted for are
  the signed ones. It is reported as expired exactly when only its time is over.\<close>

theorem verify_accepts_iff:
  "(tv_ok (Verify a tok now required) \<longleftrightarrow>
      (\<exists>u p e. genuine (au_secret a) tok u p e \<and> (required = [] \<or> u = required) \<and> now \<le> e)) \<and>
   (tv_expired (Verify a tok now required) \<longleftrightarrow>
      (\<exists>u p e. genuine (au_secret a) tok u p e \<and> (required = [] \<or> u = required) \<and> e < now)) \<and>
   (tv_ok (Verify a tok now required) \<longrightarrow>
      (\<exists>e. genuine (au_secret a) tok (tv_purpose (Verify a tok now required))
             (tv_player (Verify a tok now required)) e) \<and> 0 < tv_player (Verify a tok now required))"
proof (cases "\<exists>u p e. genuine (au_secret a) tok u p e \<and> (required = [] \<or> u = required)")
  case True
  then obtain u p e where g: "genuine (au_secret a) tok u p e" "required = [] \<or> u = required" by blast
  have one: "genuine (au_secret a) tok u' p' e' \<longleftrightarrow> u' = u \<and> p' = p \<and> e' = e" for u' p' e'
    using g(1) genuine_unique by blast
  show ?thesis unfolding one Verify_yes [OF g] using g(2) genuine_positive [OF g(1)]
    by (auto simp: no_token_def)
next
  case False
  then have "Verify a tok now required = no_token" by (intro Verify_no) blast
  then show ?thesis using False by (auto simp: no_token_def)
qed

theorem verify_accepts_iff_witness:
  "\<not> tv_ok (Verify default_auth ''v3.7'' 0 [])"
  using verify_accepts_iff [of default_auth "''v3.7''" 0 "[]"]
  by (simp add: genuine_iff Split_def token_claims_def)

text \<open>C33: an issued token verifies for its player and purpose until its expiry time and is reported
  as expired afterwards; for any other purpose it is refused.\<close>

theorem token_roundtrip:
  assumes "0 < p" "in_i64 p" "IsValidPurpose purpose" "0 < now + au_ttl a * 1000" "in_i64 (now + au_ttl a * 1000)"
    "IssueWithPurpose a p now purpose = (a', t)"
  shows "ti_expire t = now + au_ttl a * 1000 \<and>
    Verify a' (ti_token t) later purpose =
      (if later \<le> ti_expire t
       then \<lparr>tv_ok = True, tv_expired = False, tv_player = p, tv_purpose = purpose\<rparr>
       else no_token\<lparr>tv_expired := True\<rparr>) \<and>
    (required \<noteq> [] \<longrightarrow> required \<noteq> purpose \<longrightarrow> Verify a' (ti_token t) later required = no_token)"
proof -
  note g = issued_genuine [OF assms]
  have "Verify a' (ti_token t) later required = no_token" if "required \<noteq> []" "required \<noteq> purpose"
    using that genuine_unique [OF g(1)] by (intro Verify_no) auto
  then show ?thesis using Verify_yes [OF g(1), of purpose later] by (auto simp: g(2))
qed

theorem token_roundtrip_witness:
  "tv_player (Verify default_auth (ti_token (snd (IssueWithPurpose default_auth 7 1000 kPurposeLogin))) 5000 kPurposeLogin) = 7"
proof -
  obtain a' t where I: "IssueWithPurpose default_auth 7 1000 kPurposeLogin = (a', t)" by fastforce
  have v: "IsValidPurpose kPurposeLogin" by code_simp
  have sec: "au_secret a' = au_secret default_auth" using I v by (auto simp: IssueWithPurpose_def GenerateNonce_def Let_def)
  have same: "Verify a' = Verify default_auth" by (intro ext) (simp only: Verify_def sec)
  have "ti_expire t = 1000 + au_ttl default_auth * 1000 \<and> Verify a' (ti_token t) 5000 kPurposeLogin =
      (if 5000 \<le> ti_expire t
       then \<lparr>tv_ok = True, tv_expired = False, tv_player = 7, tv_purpose = kPurposeLogin\<rparr>
       else no_token\<lparr>tv_expired := True\<rparr>)"
    using token_roundtrip [OF _ _ v _ _ I, of 5000] by (simp add: in_i64_def default_auth_def)
  then show ?thesis unfolding I same by (simp add: default_auth_def)
qed

end
