(* ===== verification/DdzPool.thy ===== *)
theory DdzPool
  imports DdzText
begin

text \<open>
  Commands run through the shell. MySQL and Redis are reached by the command lines that
  \<^verbatim>\<open>popen\<close> is given; what such a command does is a parameter \<open>sh\<close>: it maps the state of the
  world and a command line to a new state and, when the pipe opens, the output text and the exit
  status. On top of it: reading the output with \<^verbatim>\<open>fgets\<close>, and the pool of
  \<^verbatim>\<open>service/storage/mysql/mysql_connection_pool.cpp\<close>. The leases of the pool are stated as a
  locale, \<open>slot_pool\<close>.
\<close>

type_synonym 'w shell = "'w \<Rightarrow> string \<Rightarrow> 'w \<times> (string \<times> int) option"

subsection \<open>Output lines\<close>

text \<open>\<^verbatim>\<open>fgets\<close> with a buffer of \<open>Suc n\<close> bytes: up to \<open>n\<close> characters, a newline included.\<close>

fun fgets :: "nat \<Rightarrow> string \<Rightarrow> string \<times> string" where
  "fgets 0 s = ([], s)"
| "fgets (Suc n) [] = ([], [])"
| "fgets (Suc n) (c # s) =
     (if c = CHR 0x0A then ([c], s) else case fgets n s of (a, b) \<Rightarrow> (c # a, b))"

lemma fgets_append: "fst (fgets n s) @ snd (fgets n s) = s"
  by (induction n s rule: fgets.induct) (auto split: prod.splits)

lemma fgets_shorter: "length (snd (fgets (Suc n) (c # s))) \<le> length s"
proof -
  have "length (snd (fgets n s)) \<le> length s"
    using arg_cong [OF fgets_append [of n s], of length] by simp
  then show ?thesis by (simp split: prod.split) (metis snd_conv)
qed

definition kLineBuffer :: nat where
  "kLineBuffer = 512"

lemma kLineBuffer_Suc: "kLineBuffer - 1 = Suc 510"
  by (simp add: kLineBuffer_def)

text \<open>The loop that reads the pipe. A buffer becomes a \<^verbatim>\<open>std::string\<close> up to its first NUL.\<close>

function read_buffers :: "string \<Rightarrow> string list" where
  "read_buffers s =
     (if s = [] then []
      else case fgets (kLineBuffer - 1) s of
             (b, tail) \<Rightarrow> takeWhile (\<lambda>c. c \<noteq> CHR 0x00) b # read_buffers tail)"
  by pat_completeness auto
termination
proof (relation "measure length", goal_cases)
  case (2 s b tail)
  then obtain c s' where "s = c # s'" "tail = snd (fgets (Suc 510) (c # s'))"
    unfolding kLineBuffer_Suc by (cases s) (auto simp del: fgets.simps, metis snd_conv)
  then show ?case using fgets_shorter [of 510 c s'] by (simp del: fgets.simps)
qed simp

declare read_buffers.simps [simp del]

function TrimRightNewline :: "string \<Rightarrow> string" where
  "TrimRightNewline s =
     (if s \<noteq> [] \<and> (last s = CHR 0x0A \<or> last s = CHR 0x0D) then TrimRightNewline (butlast s) else s)"
  by pat_completeness auto
termination by (relation "measure length") auto

declare TrimRightNewline.simps [simp del]

definition read_lines :: "string \<Rightarrow> string list" where
  "read_lines s = map TrimRightNewline (read_buffers s)"

text \<open>Inside the double quotes of the command line.\<close>

definition EscapeForDoubleQuotedShell :: "string \<Rightarrow> string" where
  "EscapeForDoubleQuotedShell s =
     concat (map (\<lambda>ch. if ch = CHR 0x22 \<or> ch = CHR 0x5C then [CHR 0x5C, ch] else [ch]) s)"

text \<open>Run a command, collect its lines, and turn a failure into a message that ends with the last
  line of the output. \<open>None\<close> as the message is success.\<close>

definition run_cli ::
    "'w shell \<Rightarrow> string \<Rightarrow> 'w \<Rightarrow> string \<Rightarrow> 'w \<times> string list \<times> string option" where
  "run_cli sh name w cmd =
     (case sh w cmd of
        (w', None) \<Rightarrow> (w', [], Some (''failed to run '' @ name))
      | (w', Some (output, exit_code)) \<Rightarrow>
          let lines = read_lines output in
          (w', lines,
           if exit_code \<noteq> 0 then
             Some (name @ '' command failed exit_code='' @ int_str exit_code @ '' '' @
                   (if lines = [] then [] else last lines))
           else None))"

lemma run_cli_result:
  assumes "run_cli sh name w cmd = (w', lines, err)"
  shows "fst (sh w cmd) = w'"
    "err = None \<Longrightarrow> \<exists>text. snd (sh w cmd) = Some (text, 0) \<and> lines = read_lines text"
  using assms by (auto simp: run_cli_def Let_def split: prod.splits option.splits if_splits)

subsection \<open>The MySQL pool\<close>

record mysql_config =
  my_enabled :: bool
  my_host :: string
  my_port :: int
  my_user :: string
  my_password :: string
  my_database :: string
  my_pool_size :: int

record mysql_pool =
  po_enabled :: bool
  po_cfg :: mysql_config
  po_in_use :: "bool list"

record lease =
  le_slot :: int
  le_valid :: bool

definition no_lease :: lease where
  "no_lease = \<lparr>le_slot = -1, le_valid = False\<rparr>"

definition mysql_command :: "mysql_config \<Rightarrow> string \<Rightarrow> string" where
  "mysql_command cfg sql =
     ''docker exec -e MYSQL_PWD='' @ my_password cfg @ '' ddz_mysql mysql -N -B -u'' @
     my_user cfg @ '' '' @ my_database cfg @ '' -e '' @ [CHR 0x22] @
     EscapeForDoubleQuotedShell sql @ [CHR 0x22] @ '' 2>&1''"

definition RunMysqlCli ::
    "'w shell \<Rightarrow> mysql_pool \<Rightarrow> 'w \<Rightarrow> string \<Rightarrow> 'w \<times> string list \<times> string option" where
  "RunMysqlCli sh pool w sql =
     run_cli sh ''mysql cli'' w (mysql_command (po_cfg pool) sql)"

definition PoolInit ::
    "'w shell \<Rightarrow> mysql_pool \<Rightarrow> 'w \<Rightarrow> mysql_config \<Rightarrow> 'w \<times> mysql_pool \<times> string option" where
  "PoolInit sh pool w cfg =
     (let pool1 = pool\<lparr>po_cfg := cfg, po_enabled := my_enabled cfg\<rparr> in
      if my_pool_size cfg \<le> 0 then (w, pool1, Some ''mysql.pool_size must be > 0'')
      else
        let pool2 = pool1\<lparr>po_in_use := replicate (nat (my_pool_size cfg)) False\<rparr> in
        if \<not> my_enabled cfg then (w, pool2, None)
        else case RunMysqlCli sh pool2 w ''SELECT 1;'' of (w', _, err) \<Rightarrow> (w', pool2, err))"

text \<open>The first slot that is free, counted from \<open>i\<close>.\<close>

fun free_slot :: "nat \<Rightarrow> bool list \<Rightarrow> nat option" where
  "free_slot i [] = None"
| "free_slot i (b # bs) = (if \<not> b then Some i else free_slot (Suc i) bs)"

definition Acquire :: "mysql_pool \<Rightarrow> mysql_pool \<times> lease" where
  "Acquire pool =
     (if po_in_use pool = [] then (pool, \<lparr>le_slot = -1, le_valid = True\<rparr>)
      else case free_slot 0 (po_in_use pool) of
             Some i \<Rightarrow> (pool\<lparr>po_in_use := (po_in_use pool)[i := True]\<rparr>, \<lparr>le_slot = int i, le_valid = True\<rparr>)
           | None \<Rightarrow> (pool, no_lease))"

definition Release :: "mysql_pool \<Rightarrow> lease \<Rightarrow> mysql_pool" where
  "Release pool l =
     (if \<not> le_valid l \<or> le_slot l < 0 then pool
      else if nat (le_slot l) < length (po_in_use pool)
           then pool\<lparr>po_in_use := (po_in_use pool)[nat (le_slot l) := False]\<rparr>
           else pool)"

definition ExecuteSql ::
    "'w shell \<Rightarrow> mysql_pool \<Rightarrow> 'w \<Rightarrow> string \<Rightarrow> 'w \<times> string list \<times> string option" where
  "ExecuteSql sh pool w sql =
     (if \<not> po_enabled pool then (w, [], Some ''mysql disabled'') else RunMysqlCli sh pool w sql)"

definition ExecuteLeased ::
    "'w shell \<Rightarrow> mysql_pool \<Rightarrow> lease \<Rightarrow> 'w \<Rightarrow> string \<Rightarrow> 'w \<times> string list \<times> string option" where
  "ExecuteLeased sh pool l w sql =
     (if \<not> le_valid l then (w, [], Some ''invalid mysql lease'') else ExecuteSql sh pool w sql)"

definition PoolSize :: "mysql_pool \<Rightarrow> nat" where
  "PoolSize pool = length (po_in_use pool)"

subsection \<open>Leases\<close>

text \<open>A pool of numbered slots: a slot is granted only when it is free, and giving it back makes
  exactly it free again.\<close>

locale slot_pool =
  fixes used :: "'s \<Rightarrow> nat set" and slots :: "'s \<Rightarrow> nat"
    and take_slot :: "'s \<Rightarrow> 's \<times> nat option" and give :: "'s \<Rightarrow> nat \<Rightarrow> 's"
  assumes used_slots: "used s \<subseteq> {..< slots s}"
    and take_slots: "slots (fst (take_slot s)) = slots s"
    and give_slots: "slots (give s i) = slots s"
    and take_none: "snd (take_slot s) = None \<longleftrightarrow> used s = {..< slots s}"
    and take_none_same: "snd (take_slot s) = None \<Longrightarrow> fst (take_slot s) = s"
    and take_some: "snd (take_slot s) = Some i \<Longrightarrow>
      i < slots s \<and> i \<notin> used s \<and> used (fst (take_slot s)) = insert i (used s)"
    and give_used: "i < slots s \<Longrightarrow> used (give s i) = used s - {i}"
begin

lemma give_back: "snd (take_slot s) = Some i \<Longrightarrow> used (give (fst (take_slot s)) i) = used s"
  using take_some [of s i] give_used [of i "fst (take_slot s)"] take_slots [of s] by auto

lemma grants_differ:
  "snd (take_slot s) = Some i \<Longrightarrow> snd (take_slot (fst (take_slot s))) = Some j \<Longrightarrow> i \<noteq> j"
  using take_some [of s i] take_some [of "fst (take_slot s)" j] by auto

lemma exhausted: "snd (take_slot s) = None \<longleftrightarrow> card (used s) = slots s"
proof -
  have "card (used s) = slots s \<Longrightarrow> used s = {..< slots s}"
    by (rule card_subset_eq) (use used_slots in auto)
  then show ?thesis using take_none by auto
qed

end

definition used_slots_of :: "mysql_pool \<Rightarrow> nat set" where
  "used_slots_of pool = {i. i < length (po_in_use pool) \<and> po_in_use pool ! i}"

definition lease_slot :: "lease \<Rightarrow> nat option" where
  "lease_slot l = (if le_valid l \<and> 0 \<le> le_slot l then Some (nat (le_slot l)) else None)"

lemma free_slot_SomeD: "free_slot k bs = Some i \<Longrightarrow> k \<le> i \<and> i - k < length bs \<and> \<not> bs ! (i - k)"
proof (induction k bs rule: free_slot.induct)
  case (2 k b bs)
  then show ?case by (cases b) (auto simp: nth_Cons' less_diff_conv2 split: if_splits)
qed simp

lemma free_slot_None: "free_slot k bs = None \<longleftrightarrow> list_all id bs"
  by (induction k bs rule: free_slot.induct) auto

interpretation leases: slot_pool used_slots_of PoolSize
    "\<lambda>pool. (fst (Acquire pool), lease_slot (snd (Acquire pool)))"
    "\<lambda>pool i. Release pool \<lparr>le_slot = int i, le_valid = True\<rparr>"
proof (unfold_locales, goal_cases)
  case (1 s)
  then show ?case by (auto simp: used_slots_of_def PoolSize_def)
next
  case (2 s)
  then show ?case by (simp add: Acquire_def PoolSize_def split: option.split)
next
  case (3 s i)
  then show ?case by (simp add: Release_def PoolSize_def)
next
  case (4 s)
  show ?case
  proof (cases "free_slot 0 (po_in_use s)")
    case None
    then have "used_slots_of s = {..< PoolSize s}"
      by (auto simp: used_slots_of_def PoolSize_def free_slot_None list_all_length)
    then show ?thesis using None by (simp add: Acquire_def lease_slot_def no_lease_def)
  next
    case (Some i)
    then show ?thesis using free_slot_SomeD [OF Some]
      by (auto simp: Acquire_def lease_slot_def used_slots_of_def PoolSize_def)
  qed
next
  case (5 s)
  then show ?case
    by (auto simp: Acquire_def lease_slot_def split: option.splits if_splits)
next
  case (6 s i)
  then have f: "free_slot 0 (po_in_use s) = Some i"
    by (auto simp: Acquire_def lease_slot_def no_lease_def split: option.splits if_splits)
  then show ?case using free_slot_SomeD [OF f]
    by (auto simp: Acquire_def used_slots_of_def PoolSize_def nth_list_update split: if_splits)
next
  case (7 i s)
  then show ?case
    by (auto simp: Release_def used_slots_of_def PoolSize_def nth_list_update split: if_splits)
qed

lemma Acquire_frame [simp]:
  "po_enabled (fst (Acquire pool)) = po_enabled pool" "po_cfg (fst (Acquire pool)) = po_cfg pool"
  by (simp_all add: Acquire_def split: option.split)

lemma Acquire_Release:
  assumes "Acquire pool = (pool', l)" "le_valid l"
  shows "Release pool' l = pool"
proof (cases "po_in_use pool = []")
  case False
  then obtain i where f: "free_slot 0 (po_in_use pool) = Some i"
    using assms by (auto simp: Acquire_def no_lease_def split: option.splits)
  have i: "i < length (po_in_use pool)" "po_in_use pool ! i = False" using free_slot_SomeD [OF f] by auto
  then have "(po_in_use pool)[i := False] = po_in_use pool" using list_update_id [of "po_in_use pool" i] by simp
  then show ?thesis using i assms f False by (auto simp: Acquire_def Release_def)
qed (use assms in \<open>auto simp: Acquire_def Release_def\<close>)

end
