(* ===== verification/DdzSession.thy ===== *)
theory DdzSession
  imports DdzCodec
begin

text \<open>
  Sessions and players: the error codes of the protocol (\<^verbatim>\<open>service/login/login_service.h\<close>), the
  session manager that binds players to connections (\<^verbatim>\<open>service/session/session_manager.cpp\<close>) and
  the player manager with the player's state machine and coins
  (\<^verbatim>\<open>service/player/player_manager.cpp\<close>). The session manager's contract is the locale
  \<open>conn_registry\<close>: each player has one connection and each connection one player.
\<close>

datatype error_code =
    OK | UNKNOWN_ERROR | INVALID_PACKET | INVALID_TOKEN | NOT_LOGIN | ALREADY_LOGIN
  | TOKEN_EXPIRED | INVALID_PLAYER_STATE | PLAYER_ALREADY_MATCHING | PLAYER_ALREADY_IN_ROOM
  | MATCH_MODE_INVALID | MATCH_CANCEL_FAILED | MATCH_TIMEOUT | ROOM_NOT_FOUND
  | SETTLEMENT_FAILED | RECONNECT_ROOM_MISMATCH | SNAPSHOT_VERSION_CONFLICT
  | OFFLINE_TIMEOUT_LOSE

fun code_num :: "error_code \<Rightarrow> int" where
  "code_num OK = 0"
| "code_num UNKNOWN_ERROR = 1"
| "code_num INVALID_PACKET = 2"
| "code_num INVALID_TOKEN = 3"
| "code_num NOT_LOGIN = 4"
| "code_num ALREADY_LOGIN = 5"
| "code_num TOKEN_EXPIRED = 6"
| "code_num INVALID_PLAYER_STATE = 1002"
| "code_num PLAYER_ALREADY_MATCHING = 1003"
| "code_num PLAYER_ALREADY_IN_ROOM = 1004"
| "code_num MATCH_MODE_INVALID = 2001"
| "code_num MATCH_CANCEL_FAILED = 2002"
| "code_num MATCH_TIMEOUT = 2003"
| "code_num ROOM_NOT_FOUND = 3001"
| "code_num SETTLEMENT_FAILED = 5002"
| "code_num RECONNECT_ROOM_MISMATCH = 6003"
| "code_num SNAPSHOT_VERSION_CONFLICT = 6004"
| "code_num OFFLINE_TIMEOUT_LOSE = 6005"

subsection \<open>Sessions\<close>

record session =
  ss_player :: player_id
  ss_conn :: conn_id
  ss_room :: room_id
  ss_online :: bool
  ss_login_time :: millis
  ss_last_heartbeat :: millis
  ss_offline_at :: millis

definition empty_session :: session where
  "empty_session = \<lparr>ss_player = 0, ss_conn = 0, ss_room = 0, ss_online = False,
     ss_login_time = 0, ss_last_heartbeat = 0, ss_offline_at = 0\<rparr>"

record session_manager =
  sm_conn :: "conn_id \<rightharpoonup> player_id"
  sm_sessions :: "player_id \<rightharpoonup> session"

definition empty_sessions :: session_manager where
  "empty_sessions = \<lparr>sm_conn = Map.empty, sm_sessions = Map.empty\<rparr>"

definition BindLogin ::
    "session_manager \<Rightarrow> player_id \<Rightarrow> conn_id \<Rightarrow> millis \<Rightarrow> session_manager \<times> conn_id option" where
  "BindLogin m p c now =
     (let old_conn = (case sm_sessions m p of
                        Some s \<Rightarrow> if ss_online s then Some (ss_conn s) else None
                      | None \<Rightarrow> None);
          conns = (case old_conn of Some oc \<Rightarrow> (sm_conn m)(oc := None) | None \<Rightarrow> sm_conn m);
          s = (case sm_sessions m p of Some s \<Rightarrow> s | None \<Rightarrow> empty_session);
          s' = s\<lparr>ss_player := p, ss_conn := c, ss_online := True, ss_login_time := now,
                 ss_last_heartbeat := now, ss_offline_at := 0\<rparr>
      in (\<lparr>sm_conn = conns(c \<mapsto> p), sm_sessions = (sm_sessions m)(p \<mapsto> s')\<rparr>, old_conn))"

definition RebindForReconnect ::
    "session_manager \<Rightarrow> player_id \<Rightarrow> conn_id \<Rightarrow> millis \<Rightarrow> session_manager \<times> conn_id option" where
  "RebindForReconnect m p c now =
     (case sm_sessions m p of
        None \<Rightarrow> (m, None)
      | Some s \<Rightarrow>
          let prev = ss_conn s;
              (old_conn, conns) =
                (if ss_online s \<and> prev \<noteq> 0 \<and> prev \<noteq> c then (Some prev, (sm_conn m)(prev := None))
                 else if \<not> ss_online s \<and> prev \<noteq> c then (None, (sm_conn m)(prev := None))
                 else (None, sm_conn m));
              s' = s\<lparr>ss_conn := c, ss_online := True, ss_last_heartbeat := now, ss_offline_at := 0\<rparr>
          in (\<lparr>sm_conn = conns(c \<mapsto> p), sm_sessions = (sm_sessions m)(p \<mapsto> s')\<rparr>, old_conn))"

definition IsLoggedInConnection :: "session_manager \<Rightarrow> conn_id \<Rightarrow> bool" where
  "IsLoggedInConnection m c = (sm_conn m c \<noteq> None)"

definition GetPlayerIdByConnection :: "session_manager \<Rightarrow> conn_id \<Rightarrow> player_id option" where
  "GetPlayerIdByConnection m c = sm_conn m c"

definition GetConnectionIdByPlayer :: "session_manager \<Rightarrow> player_id \<Rightarrow> conn_id option" where
  "GetConnectionIdByPlayer m p =
     (case sm_sessions m p of
        None \<Rightarrow> None
      | Some s \<Rightarrow> if \<not> ss_online s then None else Some (ss_conn s))"

definition GetSessionByPlayer :: "session_manager \<Rightarrow> player_id \<Rightarrow> session option" where
  "GetSessionByPlayer m p = sm_sessions m p"

text \<open>The iteration order of the \<^verbatim>\<open>unordered_map\<close> is not specified: \<open>order\<close> lists its keys.\<close>

definition GetAllSessions :: "player_id list \<Rightarrow> session_manager \<Rightarrow> session list" where
  "GetAllSessions order m = List.map_filter (sm_sessions m) order"

definition UpdateHeartbeatByConnection ::
    "session_manager \<Rightarrow> conn_id \<Rightarrow> millis \<Rightarrow> session_manager \<times> bool" where
  "UpdateHeartbeatByConnection m c now =
     (case sm_conn m c of
        None \<Rightarrow> (m, False)
      | Some p \<Rightarrow>
          (case sm_sessions m p of
             None \<Rightarrow> (m, False)
           | Some s \<Rightarrow>
               (m\<lparr>sm_sessions := (sm_sessions m)(p \<mapsto> s\<lparr>ss_last_heartbeat := now\<rparr>)\<rparr>, True)))"

definition MarkOfflineByConnection ::
    "session_manager \<Rightarrow> conn_id \<Rightarrow> millis \<Rightarrow> session_manager \<times> bool" where
  "MarkOfflineByConnection m c now =
     (case sm_conn m c of
        None \<Rightarrow> (m, False)
      | Some p \<Rightarrow>
          let m1 = m\<lparr>sm_conn := (sm_conn m)(c := None)\<rparr> in
          (case sm_sessions m p of
             None \<Rightarrow> (m1, False)
           | Some s \<Rightarrow>
               (m1\<lparr>sm_sessions := (sm_sessions m)(p \<mapsto> s\<lparr>ss_online := False,
                      ss_last_heartbeat := now, ss_offline_at := now\<rparr>)\<rparr>, True)))"

definition SetRoomId :: "session_manager \<Rightarrow> player_id \<Rightarrow> room_id \<Rightarrow> session_manager \<times> bool" where
  "SetRoomId m p rid =
     (case sm_sessions m p of
        None \<Rightarrow> (m, False)
      | Some s \<Rightarrow> (m\<lparr>sm_sessions := (sm_sessions m)(p \<mapsto> s\<lparr>ss_room := rid\<rparr>)\<rparr>, True))"

definition ClearRoomId :: "session_manager \<Rightarrow> player_id \<Rightarrow> session_manager \<times> bool" where
  "ClearRoomId m p = SetRoomId m p 0"

text \<open>The contract of the session manager, as the server uses it to send messages: looking up
  the player of a connection and the connection of a player agree.\<close>

locale conn_registry =
  fixes inv :: "'s \<Rightarrow> bool" and player_of :: "'s \<Rightarrow> conn_id \<Rightarrow> player_id option"
    and conn_of :: "'s \<Rightarrow> player_id \<Rightarrow> conn_id option"
    and bind :: "'s \<Rightarrow> player_id \<Rightarrow> conn_id \<Rightarrow> 's" and drop_conn :: "'s \<Rightarrow> conn_id \<Rightarrow> 's"
  assumes agree: "inv s \<Longrightarrow> player_of s c = Some p \<longleftrightarrow> conn_of s p = Some c"
    and bind_inv: "inv s \<Longrightarrow> player_of s c = None \<or> player_of s c = Some p \<Longrightarrow> inv (bind s p c)"
    and bind_conn: "conn_of (bind s p c) q = (if q = p then Some c else conn_of s q)"
    and drop_inv: "inv s \<Longrightarrow> inv (drop_conn s c)"
    and drop_player: "inv s \<Longrightarrow> player_of (drop_conn s c) d = (if d = c then None else player_of s d)"
begin

lemma conn_unique: "inv s \<Longrightarrow> conn_of s p = Some c \<Longrightarrow> conn_of s q = Some c \<Longrightarrow> p = q"
  using agree [of s c p] agree [of s c q] by simp

lemma player_unique: "inv s \<Longrightarrow> player_of s c = Some p \<Longrightarrow> player_of s d = Some p \<Longrightarrow> c = d"
  using agree [of s c p] agree [of s d p] by simp

lemma bind_player:
  assumes "inv s" "player_of s c = None \<or> player_of s c = Some p"
  shows "player_of (bind s p c) d =
    (if d = c then Some p else if conn_of s p = Some d then None else player_of s d)"
proof -
  have i: "inv (bind s p c)" by (rule bind_inv [OF assms])
  show ?thesis
  proof (cases "d = c")
    case True
    then show ?thesis using agree [OF i, of c p] bind_conn [of s p c p] by simp
  next
    case False
    have "player_of (bind s p c) d = Some q \<longleftrightarrow> q \<noteq> p \<and> conn_of s q = Some d" for q
      using agree [OF i, of d q] bind_conn [of s p c q] False by auto
    then show ?thesis using agree [OF assms(1), of d] False
      by (metis (no_types, lifting) not_None_eq option.inject)
  qed
qed

lemma drop_offline: "inv s \<Longrightarrow> player_of s c = Some p \<Longrightarrow> conn_of (drop_conn s c) p = None"
proof (rule ccontr)
  assume *: "inv s" "player_of s c = Some p" "conn_of (drop_conn s c) p \<noteq> None"
  then obtain d where "conn_of (drop_conn s c) p = Some d" by auto
  then have "player_of (drop_conn s c) d = Some p" using agree [OF drop_inv [OF *(1)]] by simp
  then show False using drop_player [OF *(1)] player_unique [OF *(1) *(2)] by (auto split: if_splits)
qed

end

definition sessions_ok :: "session_manager \<Rightarrow> bool" where
  "sessions_ok m \<longleftrightarrow>
     (\<forall>c p. sm_conn m c = Some p \<longleftrightarrow> GetConnectionIdByPlayer m p = Some c) \<and>
     (\<forall>p s. sm_sessions m p = Some s \<longrightarrow> ss_player s = p)"

lemma conn_BindLogin:
  "GetConnectionIdByPlayer (fst (BindLogin m p c now)) q =
     (if q = p then Some c else GetConnectionIdByPlayer m q)"
  by (simp add: BindLogin_def GetConnectionIdByPlayer_def Let_def)

lemma BindLogin_ok:
  assumes "sessions_ok m" "sm_conn m c = None \<or> sm_conn m c = Some p"
  shows "sessions_ok (fst (BindLogin m p c now))"
proof -
  have old: "sm_conn (fst (BindLogin m p c now)) =
      (case GetConnectionIdByPlayer m p of Some oc \<Rightarrow> (sm_conn m)(oc := None) | None \<Rightarrow> sm_conn m)(c \<mapsto> p)"
    by (simp add: BindLogin_def GetConnectionIdByPlayer_def Let_def split: option.split)
  have A: "sm_conn m d = Some q \<longleftrightarrow> GetConnectionIdByPlayer m q = Some d" for d q
    using assms(1) by (simp add: sessions_ok_def)
  have "sm_conn (fst (BindLogin m p c now)) d = Some q \<longleftrightarrow>
      (if q = p then Some c else GetConnectionIdByPlayer m q) = Some d" for d q
    unfolding old using A [of d q] A [of d p] A [of c q] A [of c p] assms(2)
    by (cases "GetConnectionIdByPlayer m p") (auto split: if_splits)
  moreover have "ss_player s = q" if "sm_sessions (fst (BindLogin m p c now)) q = Some s" for q s
    using that assms(1) by (auto simp: BindLogin_def Let_def sessions_ok_def split: if_splits)
  ultimately show ?thesis by (simp add: sessions_ok_def conn_BindLogin)
qed

lemma MarkOffline_ok:
  assumes "sessions_ok m"
  shows "sessions_ok (fst (MarkOfflineByConnection m c now))"
    "sm_conn (fst (MarkOfflineByConnection m c now)) d = (if d = c then None else sm_conn m d)"
proof -
  have A: "sm_conn m d = Some q \<longleftrightarrow> GetConnectionIdByPlayer m q = Some d" for d q
    using assms by (simp add: sessions_ok_def)
  show "sm_conn (fst (MarkOfflineByConnection m c now)) d = (if d = c then None else sm_conn m d)"
    by (simp add: MarkOfflineByConnection_def Let_def split: option.split)
  show "sessions_ok (fst (MarkOfflineByConnection m c now))"
  proof (cases "sm_conn m c")
    case None
    then show ?thesis using assms by (simp add: MarkOfflineByConnection_def)
  next
    case (Some p)
    then obtain s where s: "sm_sessions m p = Some s" "ss_conn s = c" "ss_online s"
      using A [of c p] by (auto simp: GetConnectionIdByPlayer_def split: option.splits if_splits)
    have "GetConnectionIdByPlayer (fst (MarkOfflineByConnection m c now)) q =
        (if q = p then None else GetConnectionIdByPlayer m q)" for q
      by (simp add: MarkOfflineByConnection_def Some s Let_def GetConnectionIdByPlayer_def)
    moreover have "sm_conn m d = Some q \<longleftrightarrow> GetConnectionIdByPlayer m q = Some d" for d q by (rule A)
    moreover have "sm_conn m d = Some p \<longleftrightarrow> d = c" for d
      using A [of d p] A [of c p] Some by auto
    moreover have "GetConnectionIdByPlayer m q = Some c \<longleftrightarrow> q = p" for q
      using A [of c q] Some by auto
    ultimately show ?thesis
      using assms s
      by (auto simp: sessions_ok_def MarkOfflineByConnection_def Some Let_def)
  qed
qed

interpretation registry: conn_registry sessions_ok GetPlayerIdByConnection GetConnectionIdByPlayer
    "\<lambda>m p c. fst (BindLogin m p c now)" "\<lambda>m c. fst (MarkOfflineByConnection m c now)" for now
proof (unfold_locales, goal_cases)
  case (1 s c p)
  then show ?case by (simp add: sessions_ok_def GetPlayerIdByConnection_def)
qed (simp_all add: BindLogin_ok MarkOffline_ok conn_BindLogin GetPlayerIdByConnection_def)

lemma Rebind_ok:
  assumes "sessions_ok m" "sm_conn m c = None \<or> sm_conn m c = Some p" "c \<noteq> 0"
    "\<forall>s. sm_sessions m p = Some s \<longrightarrow> \<not> ss_online s \<longrightarrow> sm_conn m (ss_conn s) = None"
    "sm_conn m 0 = None"
  shows "sessions_ok (fst (RebindForReconnect m p c now))"
proof (cases "sm_sessions m p")
  case None
  then show ?thesis using assms(1) by (simp add: RebindForReconnect_def)
next
  case (Some s)
  have A: "sm_conn m d = Some q \<longleftrightarrow> GetConnectionIdByPlayer m q = Some d" for d q
    using assms(1) by (simp add: sessions_ok_def)
  have conn: "GetConnectionIdByPlayer (fst (RebindForReconnect m p c now)) q =
      (if q = p then Some c else GetConnectionIdByPlayer m q)" for q
    using Some by (auto simp: RebindForReconnect_def Let_def GetConnectionIdByPlayer_def)
  have gp: "GetConnectionIdByPlayer m p = (if ss_online s then Some (ss_conn s) else None)"
    using Some by (simp add: GetConnectionIdByPlayer_def)
  have "sm_conn (fst (RebindForReconnect m p c now)) d =
      (if d = c then Some p else if GetConnectionIdByPlayer m p = Some d then None else sm_conn m d)" for d
    using Some gp assms(4,5) A [of "ss_conn s" p]
    by (auto simp: RebindForReconnect_def Let_def)
  moreover have "(if d = c then Some p else if GetConnectionIdByPlayer m p = Some d then None else sm_conn m d) = Some q
      \<longleftrightarrow> (if q = p then Some c else GetConnectionIdByPlayer m q) = Some d" for d q
    using A [of d q] A [of d p] A [of c q] A [of c p] assms(2) by auto
  moreover have "ss_player s' = q" if "sm_sessions (fst (RebindForReconnect m p c now)) q = Some s'" for q s'
    using that assms(1) Some
    by (auto simp: RebindForReconnect_def Let_def sessions_ok_def split: if_splits)
  ultimately show ?thesis by (simp add: sessions_ok_def conn)
qed

lemma session_updates_ok:
  assumes "sessions_ok m"
  shows "sessions_ok (fst (UpdateHeartbeatByConnection m c now))"
    "sessions_ok (fst (SetRoomId m p rid))"
proof -
  have upd: "sessions_ok (m\<lparr>sm_sessions := (sm_sessions m)(q \<mapsto> s')\<rparr>)"
    if "sm_sessions m q = Some s" "ss_conn s' = ss_conn s" "ss_online s' = ss_online s"
      "ss_player s' = ss_player s" for q s s'
  proof -
    have "GetConnectionIdByPlayer (m\<lparr>sm_sessions := (sm_sessions m)(q \<mapsto> s')\<rparr>) =
        GetConnectionIdByPlayer m"
      using that by (auto simp: GetConnectionIdByPlayer_def fun_eq_iff)
    then show ?thesis using assms that by (auto simp: sessions_ok_def)
  qed
  show "sessions_ok (fst (UpdateHeartbeatByConnection m c now))"
    using assms upd by (auto simp: UpdateHeartbeatByConnection_def split: option.split)
  show "sessions_ok (fst (SetRoomId m p rid))"
    using assms upd by (auto simp: SetRoomId_def split: option.split)
qed

subsection \<open>Players\<close>

datatype player_state = Offline | Lobby | Matching | InRoom | PlayingP | Settlement

record player_data =
  pl_id :: player_id
  pl_nickname :: string
  pl_coin :: int
  pl_state :: player_state

definition empty_player :: player_data where
  "empty_player = \<lparr>pl_id = 0, pl_nickname = [], pl_coin = 0, pl_state = Offline\<rparr>"

type_synonym player_manager = "player_id \<rightharpoonup> player_data"

definition default_nickname :: "player_id \<Rightarrow> string" where
  "default_nickname p = ''player_'' @ int_str p"

text \<open>\<^verbatim>\<open>players_[player_id]\<close>: a missing entry is created with its default values.\<close>

definition player_entry :: "player_manager \<Rightarrow> player_id \<Rightarrow> player_data" where
  "player_entry m p = (case m p of Some d \<Rightarrow> d | None \<Rightarrow> empty_player)"

definition UpsertPlayer :: "player_manager \<Rightarrow> player_id \<Rightarrow> string \<Rightarrow> int \<Rightarrow> player_manager" where
  "UpsertPlayer m p nickname coin =
     (let d0 = player_entry m p;
          is_new = (pl_id d0 = 0);
          d1 = d0\<lparr>pl_id := p\<rparr>;
          d2 = (if nickname \<noteq> [] then d1\<lparr>pl_nickname := nickname\<rparr> else d1);
          d3 = (if pl_nickname d2 = [] then d2\<lparr>pl_nickname := default_nickname p\<rparr> else d2);
          d4 = (if coin > 0 then d3\<lparr>pl_coin := coin\<rparr>
                else if is_new \<and> pl_coin d3 = 0 then d3\<lparr>pl_coin := 1000\<rparr> else d3)
      in m(p \<mapsto> d4))"

definition GetPlayer :: "player_manager \<Rightarrow> player_id \<Rightarrow> player_data option" where
  "GetPlayer m p = m p"

definition GetState :: "player_manager \<Rightarrow> player_id \<Rightarrow> player_state" where
  "GetState m p = (case m p of None \<Rightarrow> Offline | Some d \<Rightarrow> pl_state d)"

definition GetCoin :: "player_manager \<Rightarrow> player_id \<Rightarrow> int" where
  "GetCoin m p = (case m p of None \<Rightarrow> 0 | Some d \<Rightarrow> pl_coin d)"

fun IsTransitionAllowed :: "player_state \<Rightarrow> player_state \<Rightarrow> bool" where
  "IsTransitionAllowed Offline to = (to = Offline \<or> to = Lobby \<or> to = PlayingP)"
| "IsTransitionAllowed Lobby to = (to = Lobby \<or> to = Matching \<or> to = Offline)"
| "IsTransitionAllowed Matching to = (to = Matching \<or> to = Lobby \<or> to = InRoom \<or> to = Offline)"
| "IsTransitionAllowed InRoom to = (to = InRoom \<or> to = PlayingP \<or> to = Offline \<or> to = Lobby)"
| "IsTransitionAllowed PlayingP to = (to = PlayingP \<or> to = Settlement \<or> to = Offline)"
| "IsTransitionAllowed Settlement to = (to = Settlement \<or> to = Lobby \<or> to = Offline)"

definition SetState :: "player_manager \<Rightarrow> player_id \<Rightarrow> player_state \<Rightarrow> player_manager \<times> bool" where
  "SetState m p next_state =
     (case m p of
        None \<Rightarrow> (m, False)
      | Some d \<Rightarrow>
          if \<not> IsTransitionAllowed (pl_state d) next_state then (m, False)
          else (m(p \<mapsto> d\<lparr>pl_state := next_state\<rparr>), True))"

definition ForceState :: "player_manager \<Rightarrow> player_id \<Rightarrow> player_state \<Rightarrow> player_manager" where
  "ForceState m p next_state =
     (let d1 = (player_entry m p)\<lparr>pl_id := p\<rparr>;
          d2 = (if pl_nickname d1 = [] then d1\<lparr>pl_nickname := default_nickname p\<rparr> else d1);
          d3 = (if pl_coin d2 = 0 then d2\<lparr>pl_coin := 1000\<rparr> else d2)
      in m(p \<mapsto> d3\<lparr>pl_state := next_state\<rparr>))"

text \<open>\<open>None\<close> is the result \<^verbatim>\<open>false\<close>; otherwise the manager and \<^verbatim>\<open>after_coin\<close>.\<close>

definition AddCoin :: "player_manager \<Rightarrow> player_id \<Rightarrow> int \<Rightarrow> (player_manager \<times> int) option" where
  "AddCoin m p delta =
     (case m p of
        None \<Rightarrow> None
      | Some d \<Rightarrow> Some (m(p \<mapsto> d\<lparr>pl_coin := pl_coin d + delta\<rparr>), pl_coin d + delta))"

text \<open>The second loop of \<^verbatim>\<open>BatchAddCoin\<close>, with the list of balances built so far.\<close>

fun add_coins :: "player_manager \<Rightarrow> (player_id \<times> int) list \<Rightarrow> int list \<Rightarrow> player_manager \<times> int list" where
  "add_coins m [] out = (m, out)"
| "add_coins m ((p, delta) # cs) out =
     (let d = player_entry m p; d' = d\<lparr>pl_coin := pl_coin d + delta\<rparr>
      in add_coins (m(p \<mapsto> d')) cs (out @ [pl_coin d']))"

definition BatchAddCoin ::
    "player_manager \<Rightarrow> (player_id \<times> int) list \<Rightarrow> (player_manager \<times> int list) option" where
  "BatchAddCoin m changes =
     (if list_ex (\<lambda>c. m (fst c) = None) changes then None else Some (add_coins m changes []))"

lemma GetState_ForceState [simp]:
  "GetState (ForceState m p st) q = (if q = p then st else GetState m q)"
  by (simp add: ForceState_def GetState_def Let_def)

lemma GetCoin_ForceState:
  "m p \<noteq> None \<Longrightarrow> GetCoin m p \<noteq> 0 \<Longrightarrow> GetCoin (ForceState m p st) q = GetCoin m q"
  by (auto simp: ForceState_def GetCoin_def Let_def player_entry_def)

lemma SetState_ok:
  "SetState m p st = (m', True) \<Longrightarrow> IsTransitionAllowed (GetState m p) st \<and> GetState m' p = st"
  by (auto simp: SetState_def GetState_def split: option.splits if_splits)

lemma add_coins_coin:
  "list_all (\<lambda>c. m (fst c) \<noteq> None) cs \<Longrightarrow>
     GetCoin (fst (add_coins m cs out)) q = GetCoin m q + (\<Sum>c \<leftarrow> cs. if fst c = q then snd c else 0) \<and>
     (\<forall>r. m r \<noteq> None \<longrightarrow> fst (add_coins m cs out) r \<noteq> None)"
proof (induction m cs out rule: add_coins.induct)
  case (2 m p delta cs out)
  then have "m p \<noteq> None" by simp
  let ?m = "m(p \<mapsto> (player_entry m p)\<lparr>pl_coin := pl_coin (player_entry m p) + delta\<rparr>)"
  have "list_all (\<lambda>c. ?m (fst c) \<noteq> None) cs" using 2(2) by (auto simp: list_all_iff)
  from 2(1) [OF refl refl this] have IH:
    "GetCoin (fst (add_coins ?m cs (out @ [pl_coin (player_entry m p) + delta]))) q =
       GetCoin ?m q + (\<Sum>c \<leftarrow> cs. if fst c = q then snd c else 0)"
    "\<forall>r. ?m r \<noteq> None \<longrightarrow> fst (add_coins ?m cs (out @ [pl_coin (player_entry m p) + delta])) r \<noteq> None"
    by (simp_all del: fun_upd_apply)
  have "GetCoin ?m q = GetCoin m q + (if p = q then delta else 0)"
    using \<open>m p \<noteq> None\<close> by (auto simp: GetCoin_def player_entry_def)
  moreover have "?m r \<noteq> None" if "m r \<noteq> None" for r using that by simp
  ultimately show ?case using IH by (simp add: Let_def del: fun_upd_apply)
qed simp


lemma BatchAddCoin_eq:
  "BatchAddCoin m cs = (if \<exists>c \<in> set cs. m (fst c) = None then None else Some (add_coins m cs []))"
  by (simp add: BatchAddCoin_def list_ex_iff)

lemma add_coins_frame:
  "list_all (\<lambda>c. m (fst c) \<noteq> None) cs \<Longrightarrow>
     length (snd (add_coins m cs out)) = length out + length cs \<and>
     map_option (\<lambda>d. d\<lparr>pl_coin := 0\<rparr>) (fst (add_coins m cs out) q) = map_option (\<lambda>d. d\<lparr>pl_coin := 0\<rparr>) (m q)"
proof (induction m cs out rule: add_coins.induct)
  case (2 m p delta cs out)
  then obtain d where d: "m p = Some d" by auto
  let ?m = "m(p \<mapsto> d\<lparr>pl_coin := pl_coin d + delta\<rparr>)"
  have "list_all (\<lambda>c. ?m (fst c) \<noteq> None) cs" using 2(2) by (auto simp: list_all_iff)
  moreover have "map_option (\<lambda>d. d\<lparr>pl_coin := 0\<rparr>) (?m q) = map_option (\<lambda>d. d\<lparr>pl_coin := 0\<rparr>) (m q)"
    using d by simp
  ultimately show ?case
    using 2(1) [OF refl refl] d by (simp add: player_entry_def Let_def del: fun_upd_apply)
qed simp

subsection \<open>Every history of the session manager\<close>

text \<open>Connections are numbered once: a closed connection (\<open>dead\<close>) sends nothing any more. A login
  comes from a connection that is free or already belongs to the same player.\<close>

inductive session_step ::
    "session_manager \<times> conn_id set \<Rightarrow> session_manager \<times> conn_id set \<Rightarrow> bool" where
  login: "c \<noteq> 0 \<Longrightarrow> c \<notin> dead \<Longrightarrow> sm_conn m c = None \<or> sm_conn m c = Some p \<Longrightarrow>
    session_step (m, dead) (fst (BindLogin m p c now), dead)"
| resume: "c \<noteq> 0 \<Longrightarrow> c \<notin> dead \<Longrightarrow> sm_conn m c = None \<or> sm_conn m c = Some p \<Longrightarrow>
    session_step (m, dead) (fst (RebindForReconnect m p c now), dead)"
| heartbeat: "session_step (m, dead) (fst (UpdateHeartbeatByConnection m c now), dead)"
| enter: "session_step (m, dead) (fst (SetRoomId m p rid), dead)"
| leave: "session_step (m, dead) (fst (ClearRoomId m p), dead)"
| close: "session_step (m, dead) (fst (MarkOfflineByConnection m c now), insert c dead)"

definition history_ok :: "session_manager \<times> conn_id set \<Rightarrow> bool" where
  "history_ok x \<longleftrightarrow> sessions_ok (fst x) \<and> sm_conn (fst x) 0 = None \<and>
     (\<forall>c \<in> snd x. sm_conn (fst x) c = None) \<and>
     (\<forall>p s. sm_sessions (fst x) p = Some s \<longrightarrow> \<not> ss_online s \<longrightarrow> ss_conn s \<in> snd x)"

lemma bind_maps:
  "sm_conn (fst (BindLogin m p c now)) d = Some q \<Longrightarrow> d = c \<or> sm_conn m d = Some q"
  "sm_conn (fst (RebindForReconnect m p c now)) d = Some q \<Longrightarrow> d = c \<or> sm_conn m d = Some q"
  by (auto simp: BindLogin_def RebindForReconnect_def Let_def split: option.splits if_splits)

lemma bind_online:
  "sm_sessions (fst (BindLogin m p c now)) q = Some s \<Longrightarrow> ss_online s \<or> sm_sessions m q = Some s"
  "sm_sessions (fst (RebindForReconnect m p c now)) q = Some s \<Longrightarrow> ss_online s \<or> sm_sessions m q = Some s"
  by (auto simp: BindLogin_def RebindForReconnect_def Let_def split: option.splits if_splits)

lemma update_frame:
  "sm_conn (fst (UpdateHeartbeatByConnection m c now)) = sm_conn m"
  "sm_conn (fst (SetRoomId m p rid)) = sm_conn m"
  "sm_sessions (fst (UpdateHeartbeatByConnection m c now)) q = Some s \<Longrightarrow>
     \<exists>s0. sm_sessions m q = Some s0 \<and> ss_conn s0 = ss_conn s \<and> ss_online s0 = ss_online s"
  "sm_sessions (fst (SetRoomId m p rid)) q = Some s \<Longrightarrow>
     \<exists>s0. sm_sessions m q = Some s0 \<and> ss_conn s0 = ss_conn s \<and> ss_online s0 = ss_online s"
  by (auto simp: UpdateHeartbeatByConnection_def SetRoomId_def split: option.splits if_splits)

lemma close_frame:
  assumes "sessions_ok m" "sm_sessions (fst (MarkOfflineByConnection m c now)) q = Some s" "\<not> ss_online s"
  shows "ss_conn s = c \<or> sm_sessions m q = Some s"
  using assms by (auto simp: MarkOfflineByConnection_def Let_def sessions_ok_def GetConnectionIdByPlayer_def
      split: option.splits if_splits)

lemma session_step_ok: "session_step x y \<Longrightarrow> history_ok x \<Longrightarrow> history_ok y"
proof (induction rule: session_step.induct)
  case (login c dead m p now)
  have ok: "sessions_ok (fst (BindLogin m p c now))"
    using login BindLogin_ok by (simp add: history_ok_def)
  have maps: "sm_conn (fst (BindLogin m p c now)) d = None" if "d \<noteq> c" "sm_conn m d = None" for d
    using bind_maps(1) [of m p c now d] that by fastforce
  show ?case using login ok maps bind_online(1) [of m p c now]
    by (fastforce simp: history_ok_def)
next
  case (resume c dead m p now)
  have ok: "sessions_ok (fst (RebindForReconnect m p c now))"
    using resume by (intro Rebind_ok) (auto simp: history_ok_def)
  have maps: "sm_conn (fst (RebindForReconnect m p c now)) d = None" if "d \<noteq> c" "sm_conn m d = None" for d
    using bind_maps(2) [of m p c now d] that by fastforce
  show ?case using resume ok maps bind_online(2) [of m p c now]
    by (fastforce simp: history_ok_def)
next
  case (heartbeat m dead c now)
  then show ?case using session_updates_ok(1) [of m c now] update_frame(1,3) [of m c now]
    by (fastforce simp: history_ok_def)
next
  case (enter m dead p rid)
  then show ?case using session_updates_ok(2) [of m p rid] update_frame(2,4) [of m p rid]
    by (fastforce simp: history_ok_def)
next
  case (leave m dead p)
  then show ?case using session_updates_ok(2) [of m p 0] update_frame(2,4) [of m p 0]
    by (fastforce simp: history_ok_def ClearRoomId_def)
next
  case (close m dead c now)
  then show ?case using MarkOffline_ok [of m c now] close_frame [of m c now]
    by (fastforce simp: history_ok_def)
qed

lemma history_reachable: "session_step\<^sup>*\<^sup>* (empty_sessions, {}) x \<Longrightarrow> history_ok x"
proof (induction rule: rtranclp_induct)
  case base
  show ?case by (simp add: history_ok_def sessions_ok_def empty_sessions_def GetConnectionIdByPlayer_def)
qed (rule session_step_ok)

subsection \<open>Properties\<close>



text \<open>The condition on logins is needed. A second player who logs in on a connection that
  still belongs to another player takes it over, but the first player's session stays online on
  it: both players' messages go to this connection, and closing it marks only the second
  player offline.\<close>

theorem second_login_keeps_first_online:
  assumes "p \<noteq> q"
  shows "let m = fst (BindLogin (fst (BindLogin empty_sessions p c t0)) q c t1) in
    GetConnectionIdByPlayer m p = Some c \<and> GetConnectionIdByPlayer m q = Some c \<and>
    GetPlayerIdByConnection m c = Some q \<and>
    GetConnectionIdByPlayer (fst (MarkOfflineByConnection m c t2)) p = Some c"
  using assms
  by (simp add: Let_def BindLogin_def empty_sessions_def GetConnectionIdByPlayer_def
      GetPlayerIdByConnection_def MarkOfflineByConnection_def)

theorem second_login_keeps_first_online_witness:
  "GetConnectionIdByPlayer (fst (BindLogin (fst (BindLogin empty_sessions 7 5 0)) 8 5 1)) 7 = Some 5"
  using second_login_keeps_first_online [of 7 8 5 0 1 2] by (simp add: Let_def)

text \<open>A batch of coin changes is applied to all players or, when one of them is unknown, to
  none; each balance then grows by the sum of the player's own changes and nothing else of a
  player changes.\<close>

theorem batch_coins:
  "case BatchAddCoin m cs of
     None \<Rightarrow> \<exists>c \<in> set cs. m (fst c) = None
   | Some (m', after) \<Rightarrow> (\<forall>c \<in> set cs. m (fst c) \<noteq> None) \<and> length after = length cs \<and>
       GetCoin m' q = GetCoin m q + (\<Sum>c \<leftarrow> cs. if fst c = q then snd c else 0) \<and>
       map_option (\<lambda>d. d\<lparr>pl_coin := 0\<rparr>) (m' q) = map_option (\<lambda>d. d\<lparr>pl_coin := 0\<rparr>) (m q)"
proof (cases "\<exists>c \<in> set cs. m (fst c) = None")
  case False
  then have l: "list_all (\<lambda>c. m (fst c) \<noteq> None) cs" by (auto simp: list_all_iff)
  show ?thesis using False add_coins_coin [OF l, of "[]" q] add_coins_frame [OF l, of "[]" q]
    by (simp add: BatchAddCoin_eq split: prod.split) fastforce
qed (simp add: BatchAddCoin_eq)

theorem batch_coins_witness:
  "BatchAddCoin Map.empty [(7, 10)] = None"
  using batch_coins [where m = Map.empty and cs = "[(7, 10)]"] by (simp add: BatchAddCoin_eq)

text \<open>\<^verbatim>\<open>ForceState\<close> keeps a player's coins, except that a player who has lost all of them
  is given 1000 again by every forced change of state.\<close>

theorem force_state_coins:
  "GetCoin (ForceState m p st) q =
     (if q \<noteq> p then GetCoin m q else if GetCoin m p = 0 then 1000 else GetCoin m p)"
  by (auto simp: ForceState_def GetCoin_def Let_def player_entry_def empty_player_def split: option.split)

end
