(* ===== verification/DdzRedis.thy ===== *)
theory DdzRedis
  imports DdzPool DdzSession
begin

text \<open>
  The optional Redis store, \<^verbatim>\<open>service/redis/redis_optional_store.cpp\<close>: tokens, presence and
  sessions with an expiry, in Redis through its command line or, when Redis is disabled, in maps
  in memory. The three tables are one interface, the locale \<open>expiring_table\<close>. \<open>clk\<close> is what
  \<^verbatim>\<open>NowMs()\<close> returns when the operation reads the clock, which it does only in memory.
\<close>

record redis_config =
  rc_enabled :: bool
  rc_host :: string
  rc_port :: int
  rc_db :: int
  rc_password :: string

record redis_store =
  rd_enabled :: bool
  rd_cfg :: redis_config
  rd_tokens :: "player_id \<rightharpoonup> string \<times> millis"
  rd_online :: "player_id \<rightharpoonup> bool \<times> millis"
  rd_sessions :: "player_id \<rightharpoonup> room_id \<times> millis"

definition RunRedisCli :: "'w shell \<Rightarrow> 'w \<Rightarrow> string \<Rightarrow> 'w \<times> string list \<times> string option" where
  "RunRedisCli sh w args =
     run_cli sh ''redis-cli'' w (''docker exec ddz_redis redis-cli '' @ args @ '' 2>&1'')"

definition ExpireAtMsFromNow :: "millis \<Rightarrow> millis \<Rightarrow> millis" where
  "ExpireAtMsFromNow clk ttl = clk + ttl"

definition IsExpired :: "millis \<Rightarrow> millis \<Rightarrow> bool" where
  "IsExpired clk expire = (if expire \<le> 0 then True else clk > expire)"

text \<open>The message is \<open>None\<close> when the operation returns true.\<close>

definition RedisInit ::
    "'w shell \<Rightarrow> redis_store \<Rightarrow> 'w \<Rightarrow> redis_config \<Rightarrow> 'w \<times> redis_store \<times> string option" where
  "RedisInit sh r w cfg =
     (let r1 = r\<lparr>rd_cfg := cfg, rd_enabled := rc_enabled cfg\<rparr> in
      if rc_port cfg = 0 then (w, r1, Some ''redis.port must be > 0'')
      else if \<not> rc_enabled cfg then (w, r1, None)
      else case RunRedisCli sh w ''PING'' of
             (w', _, Some err) \<Rightarrow> (w', r1, Some err)
           | (w', lines, None) \<Rightarrow>
               (w', r1, if lines = [] \<or> last lines \<noteq> ''PONG'' then Some ''redis ping failed'' else None))"

definition StoreToken ::
    "'w shell \<Rightarrow> millis \<Rightarrow> redis_store \<Rightarrow> 'w \<Rightarrow> player_id \<Rightarrow> string \<Rightarrow> millis
     \<Rightarrow> 'w \<times> redis_store \<times> string option" where
  "StoreToken sh clk r w p token ttl =
     (if p \<le> 0 \<or> token = [] \<or> ttl \<le> 0 then (w, r, Some ''invalid token payload'')
      else if \<not> rd_enabled r then
        (w, r\<lparr>rd_tokens := (rd_tokens r)(p \<mapsto> (token, ExpireAtMsFromNow clk ttl))\<rparr>, None)
      else case RunRedisCli sh w (''PSETEX token:'' @ int_str p @ '' '' @ int_str ttl @ '' '' @ [CHR 0x22] @
                  EscapeForDoubleQuotedShell token @ [CHR 0x22]) of
             (w', _, err) \<Rightarrow> (w', r, err))"

definition kTestTokenTtl :: millis where
  "kTestTokenTtl = 7 * 24 * 3600 * 1000"

definition SeedTokenForTesting ::
    "'w shell \<Rightarrow> millis \<Rightarrow> redis_store \<Rightarrow> 'w \<Rightarrow> player_id \<Rightarrow> string \<Rightarrow> 'w \<times> redis_store" where
  "SeedTokenForTesting sh clk r w p token =
     (case StoreToken sh clk r w p token kTestTokenTtl of (w', r', _) \<Rightarrow> (w', r'))"

definition ValidateToken ::
    "'w shell \<Rightarrow> millis \<Rightarrow> redis_store \<Rightarrow> 'w \<Rightarrow> player_id \<Rightarrow> string \<Rightarrow> 'w \<times> bool" where
  "ValidateToken sh clk r w p token =
     (if \<not> rd_enabled r then
        (w, case rd_tokens r p of
              None \<Rightarrow> False
            | Some (stored, expire) \<Rightarrow> \<not> IsExpired clk expire \<and> stored = token)
      else case RunRedisCli sh w (''GET token:'' @ int_str p) of
             (w', lines, err) \<Rightarrow>
               (w', err = None \<and> lines \<noteq> [] \<and> last lines \<noteq> ''(nil)'' \<and> last lines = token))"

definition SetOnline ::
    "'w shell \<Rightarrow> millis \<Rightarrow> redis_store \<Rightarrow> 'w \<Rightarrow> player_id \<Rightarrow> bool \<Rightarrow> millis
     \<Rightarrow> 'w \<times> redis_store \<times> string option" where
  "SetOnline sh clk r w p online ttl =
     (if p \<le> 0 \<or> ttl \<le> 0 then (w, r, Some ''invalid online payload'')
      else if \<not> rd_enabled r then
        (w, r\<lparr>rd_online := (rd_online r)(p \<mapsto> (online, ExpireAtMsFromNow clk ttl))\<rparr>, None)
      else case RunRedisCli sh w (''PSETEX online:'' @ int_str p @ '' '' @ int_str ttl @ '' '' @
                  (if online then ''1'' else ''0'')) of
             (w', _, err) \<Rightarrow> (w', r, err))"

definition SetOnlineDefault ::
    "'w shell \<Rightarrow> millis \<Rightarrow> redis_store \<Rightarrow> 'w \<Rightarrow> player_id \<Rightarrow> bool \<Rightarrow> 'w \<times> redis_store" where
  "SetOnlineDefault sh clk r w p online =
     (case SetOnline sh clk r w p online kTestTokenTtl of (w', r', _) \<Rightarrow> (w', r'))"

definition IsOnline :: "'w shell \<Rightarrow> millis \<Rightarrow> redis_store \<Rightarrow> 'w \<Rightarrow> player_id \<Rightarrow> 'w \<times> bool" where
  "IsOnline sh clk r w p =
     (if \<not> rd_enabled r then
        (w, case rd_online r p of
              None \<Rightarrow> False
            | Some (online, expire) \<Rightarrow> \<not> IsExpired clk expire \<and> online)
      else case RunRedisCli sh w (''GET online:'' @ int_str p) of
             (w', lines, err) \<Rightarrow> (w', err = None \<and> lines \<noteq> [] \<and> last lines = ''1''))"

definition UpsertSession ::
    "'w shell \<Rightarrow> millis \<Rightarrow> redis_store \<Rightarrow> 'w \<Rightarrow> player_id \<Rightarrow> room_id \<Rightarrow> millis
     \<Rightarrow> 'w \<times> redis_store \<times> string option" where
  "UpsertSession sh clk r w p rid ttl =
     (if p \<le> 0 \<or> ttl \<le> 0 then (w, r, Some ''invalid session payload'')
      else if \<not> rd_enabled r then
        (w, r\<lparr>rd_sessions := (rd_sessions r)(p \<mapsto> (rid, ExpireAtMsFromNow clk ttl))\<rparr>, None)
      else case RunRedisCli sh w (''PSETEX session:'' @ int_str p @ '' '' @ int_str ttl @ '' '' @ int_str rid) of
             (w', _, err) \<Rightarrow> (w', r, err))"

definition GetSessionRoomId ::
    "'w shell \<Rightarrow> millis \<Rightarrow> redis_store \<Rightarrow> 'w \<Rightarrow> player_id \<Rightarrow> 'w \<times> room_id option" where
  "GetSessionRoomId sh clk r w p =
     (if \<not> rd_enabled r then
        (w, case rd_sessions r p of
              None \<Rightarrow> None
            | Some (rid, expire) \<Rightarrow> if IsExpired clk expire then None else Some rid)
      else case RunRedisCli sh w (''GET session:'' @ int_str p) of
             (w', lines, err) \<Rightarrow>
               (w', if err \<noteq> None \<or> lines = [] \<or> last lines = ''(nil)'' then None
                    else map_option fst (stoll (last lines))))"

subsection \<open>Tables with an expiry\<close>

text \<open>A stored value is found, by its own key only, from when it is stored until its time to live
  has passed, and not later.\<close>

locale expiring_table =
  fixes off :: "'s \<Rightarrow> bool" and good :: "'v \<Rightarrow> bool"
    and put :: "millis \<Rightarrow> 's \<Rightarrow> player_id \<Rightarrow> 'v \<Rightarrow> millis \<Rightarrow> 's"
    and look :: "millis \<Rightarrow> 's \<Rightarrow> player_id \<Rightarrow> 'v option"
  assumes put_off: "off s \<Longrightarrow> off (put t s p v ttl)"
    and look_put: "off s \<Longrightarrow> good v \<Longrightarrow> 0 < p \<Longrightarrow> 0 < ttl \<Longrightarrow> 0 \<le> t \<Longrightarrow>
      look t' (put t s p v ttl) q = (if q = p then if t' \<le> t + ttl then Some v else None else look t' s q)"
begin

lemma found_until:
  "off s \<Longrightarrow> good v \<Longrightarrow> 0 < p \<Longrightarrow> 0 < ttl \<Longrightarrow> 0 \<le> t \<Longrightarrow>
     look t' (put t s p v ttl) p = Some u \<longleftrightarrow> u = v \<and> t' \<le> t + ttl"
  by (auto simp: look_put)

lemma renewed:
  "off s \<Longrightarrow> good v \<Longrightarrow> 0 < p \<Longrightarrow> 0 < ttl \<Longrightarrow> 0 \<le> t2 \<Longrightarrow>
     look t' (put t2 (put t s p u ttl) p v ttl) p = (if t' \<le> t2 + ttl then Some v else None)"
  by (simp add: look_put put_off)

end

text \<open>What the memory tables answer.\<close>

definition live :: "millis \<Rightarrow> ('v \<times> millis) option \<Rightarrow> 'v option" where
  "live clk e = (case e of None \<Rightarrow> None | Some (v, expire) \<Rightarrow> if IsExpired clk expire then None else Some v)"

definition redis_off :: "redis_store \<Rightarrow> bool" where
  "redis_off r \<longleftrightarrow> \<not> rd_enabled r"

lemma live_put: "0 < ttl \<Longrightarrow> 0 \<le> t \<Longrightarrow> live t' (Some (v, ExpireAtMsFromNow t ttl)) = (if t' \<le> t + ttl then Some v else None)"
  by (auto simp: live_def IsExpired_def ExpireAtMsFromNow_def)

interpretation token_table: expiring_table redis_off "\<lambda>v. v \<noteq> []"
    "\<lambda>t r p v ttl. fst (snd (StoreToken sh t r w p v ttl))" "\<lambda>t r p. live t (rd_tokens r p)" for sh w
  by unfold_locales (simp_all add: StoreToken_def redis_off_def live_put)

interpretation online_table: expiring_table redis_off "\<lambda>v. True"
    "\<lambda>t r p v ttl. fst (snd (SetOnline sh t r w p v ttl))" "\<lambda>t r p. live t (rd_online r p)" for sh w
  by unfold_locales (simp_all add: SetOnline_def redis_off_def live_put)

interpretation session_table: expiring_table redis_off "\<lambda>v. True"
    "\<lambda>t r p v ttl. fst (snd (UpsertSession sh t r w p v ttl))" "\<lambda>t r p. live t (rd_sessions r p)" for sh w
  by unfold_locales (simp_all add: UpsertSession_def redis_off_def live_put)

lemma memory_answers:
  assumes "redis_off r"
  shows "ValidateToken sh clk r w p token = (w, live clk (rd_tokens r p) = Some token)"
    "IsOnline sh clk r w p = (w, live clk (rd_online r p) = Some True)"
    "GetSessionRoomId sh clk r w p = (w, live clk (rd_sessions r p))"
  using assms
  by (auto simp: ValidateToken_def IsOnline_def GetSessionRoomId_def redis_off_def live_def split: option.splits)

subsection \<open>Properties\<close>

text \<open>Without Redis, a stored token is accepted for its own player until its time to live has
  passed and never afterwards, and no other token is accepted for that player; the presence flag
  and the room of the session expire in the same way, and storing leaves other players alone.\<close>

theorem store_expires:
  assumes "redis_off r" "0 < p" "0 < ttl" "0 \<le> t" "token \<noteq> []"
  shows "(snd (ValidateToken sh t' (fst (snd (StoreToken sh t r w p token ttl))) w' p token') \<longleftrightarrow>
      token' = token \<and> t' \<le> t + ttl) \<and>
    (snd (IsOnline sh t' (fst (snd (SetOnline sh t r w p online ttl))) w' p) \<longleftrightarrow> online \<and> t' \<le> t + ttl) \<and>
    snd (GetSessionRoomId sh t' (fst (snd (UpsertSession sh t r w p rid ttl))) w' p) =
      (if t' \<le> t + ttl then Some rid else None) \<and>
    (q \<noteq> p \<longrightarrow> ValidateToken sh t' (fst (snd (StoreToken sh t r w p token ttl))) w' q token' =
      ValidateToken sh t' r w' q token')"
proof -
  note off = token_table.put_off [OF assms(1)] online_table.put_off [OF assms(1)] session_table.put_off [OF assms(1)]
  note put = token_table.look_put [OF assms(1,5,2-4), where sh = sh and w = w]
    online_table.look_put [OF assms(1) TrueI assms(2-4), where sh = sh and w = w]
    session_table.look_put [OF assms(1) TrueI assms(2-4), where sh = sh and w = w]
  show ?thesis using assms(1) by (auto simp: memory_answers off put)
qed

definition demo_redis :: redis_store where
  "demo_redis = \<lparr>rd_enabled = False, rd_cfg = \<lparr>rc_enabled = False, rc_host = ''127.0.0.1'', rc_port = 6379, rc_db = 0, rc_password = []\<rparr>,
     rd_tokens = Map.empty, rd_online = Map.empty, rd_sessions = Map.empty\<rparr>"

theorem store_expires_witness:
  "\<not> snd (ValidateToken (\<lambda>w cmd. (w, None)) 1101
      (fst (snd (StoreToken (\<lambda>w cmd. (w, None)) 100 demo_redis () 7 ''tok'' 1000))) () 7 ''tok'')"
proof -
  have "redis_off demo_redis" by (simp add: redis_off_def demo_redis_def)
  from store_expires [OF this, of 7 1000 100 "''tok''" "\<lambda>w cmd. (w, None)" 1101 "()" "()" "''tok''" True 0 0]
  show ?thesis by simp
qed

end
