(* ===== verification/DdzRoom.thy ===== *)
theory DdzRoom
  imports DdzRules DdzText "HOL-Library.Product_Lexorder"
begin

text \<open>
  Rooms and the room manager, \<^verbatim>\<open>service/room/room.h\<close> and \<^verbatim>\<open>service/room/room_manager.cpp\<close>:
  the record of one game, dealing, the call, rob and play phases of \<^verbatim>\<open>ApplyPlayerAction\<close>, the
  trustee that acts for an offline player, the snapshots sent to clients, and the maps from
  room and player identifiers. An operation on one room is a function on the room record, as
  the code works on a \<^verbatim>\<open>Room&\<close>; the operations of the manager look the room up and store it
  back, also when the action is refused.

  The pseudo-random shuffle (\<^verbatim>\<open>std::shuffle\<close> with \<^verbatim>\<open>std::mt19937_64\<close>, whose result the C++
  standard leaves open) is the parameter \<open>shuf\<close>, a function of the seed and the deck.
\<close>

subsection \<open>Data\<close>

datatype room_state = WaitStart | CallScore | RobLandlord | Playing | Settling | Finished

fun state_code :: "room_state \<Rightarrow> int" where
  "state_code WaitStart = 0"
| "state_code CallScore = 1"
| "state_code RobLandlord = 2"
| "state_code Playing = 3"
| "state_code Settling = 4"
| "state_code Finished = 5"

text \<open>The order of the phases is the order of the enumeration.\<close>

lemma state_code_inj [simp]: "state_code s = state_code t \<longleftrightarrow> s = t"
  by (cases s; cases t) simp_all

instantiation room_state :: linorder
begin

definition less_eq_room_state :: "room_state \<Rightarrow> room_state \<Rightarrow> bool" where
  "less_eq_room_state s t \<longleftrightarrow> state_code s \<le> state_code t"

definition less_room_state :: "room_state \<Rightarrow> room_state \<Rightarrow> bool" where
  "less_room_state s t \<longleftrightarrow> state_code s < state_code t"

instance
  by standard (auto simp: less_eq_room_state_def less_room_state_def)

end

record room =
  rm_id :: room_id
  rm_mode :: int
  rm_state :: room_state
  rm_players :: "player_id list"
  rm_operator :: player_id
  rm_action_count :: int
  rm_dealt :: bool
  rm_hands :: "player_id \<rightharpoonup> card list"
  rm_bottom :: "card list"
  rm_landlord :: player_id
  rm_call_score :: int
  rm_call_player :: player_id
  rm_base_coin :: int
  rm_last_player :: player_id
  rm_last_cards :: "card list"
  rm_pass_count :: int
  rm_version :: int
  rm_action_seq :: int
  rm_online :: "player_id \<rightharpoonup> bool"
  rm_trustee :: "player_id \<rightharpoonup> bool"
  rm_offline_at :: "player_id \<rightharpoonup> millis"

record room_snapshot =
  sn_room_id :: room_id
  sn_mode :: int
  sn_room_state :: int
  sn_players :: "player_id list"
  sn_operator :: player_id
  sn_remain_seconds :: int
  sn_landlord :: player_id
  sn_base_coin :: int
  sn_version :: int
  sn_action_seq :: int
  sn_online_bitmap :: string
  sn_trustee_players :: string
  sn_nearest_deadline :: millis

record push_snapshot =
  ps_base :: room_snapshot
  ps_last_player :: player_id
  ps_last_cards :: "card list"
  ps_bottom :: "card list"
  ps_card_counts :: "(player_id \<times> int) list"
  ps_deadline :: millis

datatype action_type = ActCallScore | ActRobLandlord | ActPlayCards | ActPass

record action_request =
  rq_type :: action_type
  rq_call_score :: int
  rq_rob :: int
  rq_cards :: "card list"

text \<open>The default member values of \<^verbatim>\<open>PlayerActionRequest\<close>.\<close>

definition empty_request :: action_request where
  "empty_request = \<lparr>rq_type = ActCallScore, rq_call_score = -1, rq_rob = -1, rq_cards = []\<rparr>"

record action_result =
  ar_snapshot :: room_snapshot
  ar_game_over :: bool
  ar_winner :: player_id
  ar_base_coin :: int

record room_manager =
  mg_next_id :: room_id
  mg_rooms :: "room_id \<rightharpoonup> room"
  mg_player_room :: "player_id \<rightharpoonup> room_id"

definition empty_manager :: room_manager where
  "empty_manager = \<lparr>mg_next_id = 1, mg_rooms = Map.empty, mg_player_room = Map.empty\<rparr>"

text \<open>Lookup in a \<^verbatim>\<open>std::unordered_map\<close> with a default for a missing key.\<close>

definition get_or :: "('k \<rightharpoonup> 'v) \<Rightarrow> 'k \<Rightarrow> 'v \<Rightarrow> 'v" where
  "get_or m k d = (case m k of Some v \<Rightarrow> v | None \<Rightarrow> d)"

subsection \<open>Helper functions of the anonymous namespace\<close>

text \<open>\<^verbatim>\<open>std::find\<close> and the element after it, wrapping to the front.\<close>

fun next_after :: "player_id list \<Rightarrow> player_id \<Rightarrow> player_id option" where
  "next_after [] p = None"
| "next_after [q] p = None"
| "next_after (q # q' # qs) p = (if q = p then Some q' else next_after (q' # qs) p)"

definition next_operator :: "player_id list \<Rightarrow> player_id \<Rightarrow> player_id" where
  "next_operator ps p =
     (case ps of
        [] \<Rightarrow> 0
      | front # _ \<Rightarrow> (case next_after ps p of Some q \<Rightarrow> q | None \<Rightarrow> front))"

definition NextOperator :: "room \<Rightarrow> player_id \<Rightarrow> player_id" where
  "NextOperator r p = next_operator (rm_players r) p"

definition SortCards :: "card list \<Rightarrow> card list" where
  "SortCards cards = sort_key (\<lambda>c. (CardRank c, c)) cards"

definition deal_seed :: "room_id \<Rightarrow> 64 word" where
  "deal_seed rid = word_of_int (rid * 7919 + 97)"

definition full_deck :: "card list" where
  "full_deck = [0..53]"

definition deal_one :: "player_id list \<Rightarrow> card list \<Rightarrow> (player_id \<rightharpoonup> card list) \<Rightarrow> nat
    \<Rightarrow> (player_id \<rightharpoonup> card list)" where
  "deal_one ps deck h i = (let pid = ps ! (i mod 3) in h(pid \<mapsto> get_or h pid [] @ [deck ! i]))"

definition deal_hands :: "player_id list \<Rightarrow> card list \<Rightarrow> (player_id \<rightharpoonup> card list)
    \<Rightarrow> (player_id \<rightharpoonup> card list)" where
  "deal_hands ps deck h =
     (let h0 = foldl (\<lambda>m pid. m(pid \<mapsto> [])) h ps;
          h1 = foldl (deal_one ps deck) h0 [0..<51]
      in foldl (\<lambda>m pid. m(pid \<mapsto> SortCards (get_or m pid []))) h1 ps)"

definition DealCards :: "(64 word \<Rightarrow> card list \<Rightarrow> card list) \<Rightarrow> room \<Rightarrow> room" where
  "DealCards shuf r =
     (if length (rm_players r) \<noteq> 3 \<or> rm_dealt r then r
      else let deck = shuf (deal_seed (rm_id r)) full_deck in
        r\<lparr>rm_hands := deal_hands (rm_players r) deck (rm_hands r),
          rm_bottom := [deck ! 51, deck ! 52, deck ! 53],
          rm_dealt := True\<rparr>)"

text \<open>The loop of \<^verbatim>\<open>MakeSnapshot\<close> that finds the nearest deadline: offline time plus two
  minutes, of the players with a positive offline time; zero when there is none.\<close>

definition nearest_deadline :: "(player_id \<rightharpoonup> millis) \<Rightarrow> player_id list \<Rightarrow> millis" where
  "nearest_deadline off ps =
     foldl (\<lambda>n pid. case off pid of
                      None \<Rightarrow> n
                    | Some t \<Rightarrow> if t > 0 \<and> (n = 0 \<or> t + 120000 < n) then t + 120000 else n) 0 ps"

definition MakeSnapshot :: "room \<Rightarrow> room_snapshot" where
  "MakeSnapshot r =
     \<lparr>sn_room_id = rm_id r,
      sn_mode = rm_mode r,
      sn_room_state = state_code (rm_state r),
      sn_players = rm_players r,
      sn_operator = rm_operator r,
      sn_remain_seconds = 0,
      sn_landlord = rm_landlord r,
      sn_base_coin = rm_base_coin r,
      sn_version = rm_version r,
      sn_action_seq = rm_action_seq r,
      sn_online_bitmap =
        map (\<lambda>pid. if get_or (rm_online r) pid True then CHR ''1'' else CHR ''0'') (rm_players r),
      sn_trustee_players =
        join '','' (map int_str (filter (\<lambda>pid. get_or (rm_trustee r) pid False) (rm_players r))),
      sn_nearest_deadline = nearest_deadline (rm_offline_at r) (rm_players r)\<rparr>"

definition MakePushSnapshotV2 :: "room \<Rightarrow> push_snapshot" where
  "MakePushSnapshotV2 r =
     \<lparr>ps_base = MakeSnapshot r,
      ps_last_player = rm_last_player r,
      ps_last_cards = rm_last_cards r,
      ps_bottom = (if rm_state r = Playing \<or> rm_state r = Settling \<or> rm_state r = Finished
                   then rm_bottom r else []),
      ps_card_counts =
        map (\<lambda>pid. (pid, case rm_hands r pid of None \<Rightarrow> 0 | Some h \<Rightarrow> int (length h)))
          (rm_players r),
      ps_deadline = sn_nearest_deadline (MakeSnapshot r)\<rparr>"

definition BumpSnapshotVersion :: "bool \<Rightarrow> room \<Rightarrow> room" where
  "BumpSnapshotVersion count_as_action r =
     (let r' = r\<lparr>rm_version := rm_version r + 1\<rparr> in
      if count_as_action then r'\<lparr>rm_action_seq := rm_action_seq r + 1\<rparr> else r')"

text \<open>\<^verbatim>\<open>RemoveCards\<close>: first every card is booked against a counter of the hand, then the
  cards are erased one by one (the first occurrence each); \<open>None\<close> is the result \<^verbatim>\<open>false\<close>.\<close>

fun book_cards :: "(card \<Rightarrow> nat) \<Rightarrow> card list \<Rightarrow> bool" where
  "book_cards cnt [] = True"
| "book_cards cnt (c # cs) = (if cnt c = 0 then False else book_cards (cnt(c := cnt c - 1)) cs)"

fun erase_cards :: "card list \<Rightarrow> card list \<Rightarrow> card list option" where
  "erase_cards hand [] = Some hand"
| "erase_cards hand (c # cs) = (if c \<notin> set hand then None else erase_cards (remove1 c hand) cs)"

definition RemoveCards :: "card list \<Rightarrow> card list \<Rightarrow> card list option" where
  "RemoveCards hand cards =
     (if \<not> book_cards (count_list hand) cards then None else erase_cards hand cards)"

subsection \<open>Actions on a room\<close>

type_synonym action_outcome = "room \<times> (string + action_result)"

definition refused :: "room \<Rightarrow> string \<Rightarrow> action_outcome" where
  "refused r msg = (r, Inl msg)"

text \<open>\<^verbatim>\<open>BumpSnapshotVersion(&room, true); result.snapshot = MakeSnapshot(room); return result\<close>.\<close>

definition accepted :: "room \<Rightarrow> action_outcome" where
  "accepted r = (let r' = BumpSnapshotVersion True r in
     (r', Inr \<lparr>ar_snapshot = MakeSnapshot r', ar_game_over = False, ar_winner = 0,
               ar_base_coin = 0\<rparr>))"

definition num_players :: "room \<Rightarrow> int" where
  "num_players r = int (length (rm_players r))"

definition start_if_waiting :: "(64 word \<Rightarrow> card list \<Rightarrow> card list) \<Rightarrow> room \<Rightarrow> room" where
  "start_if_waiting shuf r =
     (if rm_state r = WaitStart then DealCards shuf (r\<lparr>rm_state := CallScore\<rparr>) else r)"

text \<open>The call is booked: a higher score is remembered with its player, and it counts.\<close>

definition note_call :: "room \<Rightarrow> player_id \<Rightarrow> int \<Rightarrow> room" where
  "note_call r p score =
     (let r1 = (if score > rm_call_score r
                then r\<lparr>rm_call_score := score, rm_call_player := p\<rparr> else r)
      in r1\<lparr>rm_action_count := rm_action_count r1 + 1\<rparr>)"

definition end_calling :: "room \<Rightarrow> room" where
  "end_calling r =
     (let r1 = r\<lparr>rm_state := RobLandlord, rm_action_count := 0\<rparr>;
          r2 = (if rm_call_player r1 = 0 \<and> rm_players r1 \<noteq> []
                then r1\<lparr>rm_call_player := hd (rm_players r1)\<rparr> else r1)
      in r2\<lparr>rm_base_coin := max 1 (rm_call_score r2), rm_operator := rm_call_player r2\<rparr>)"

definition call_score_action :: "room \<Rightarrow> player_id \<Rightarrow> action_request \<Rightarrow> action_outcome" where
  "call_score_action r p q =
     (if rq_type q \<noteq> ActCallScore then refused r ''action not allowed in CALL_SCORE''
      else if rq_call_score q < 0 \<or> rq_call_score q > 3 then refused r ''invalid call score''
      else
        let r1 = note_call r p (rq_call_score q)
        in if rq_call_score q = 3 \<or> rm_action_count r1 \<ge> num_players r1
           then accepted (end_calling r1)
           else accepted (r1\<lparr>rm_operator := NextOperator r1 p\<rparr>))"

definition start_playing :: "room \<Rightarrow> card list \<Rightarrow> room" where
  "start_playing r hand =
     r\<lparr>rm_hands := (rm_hands r)(rm_landlord r \<mapsto> SortCards (hand @ rm_bottom r)),
       rm_state := Playing, rm_action_count := 0, rm_operator := rm_landlord r,
       rm_last_cards := [], rm_last_player := 0, rm_pass_count := 0\<rparr>"

definition note_rob :: "room \<Rightarrow> player_id \<Rightarrow> int \<Rightarrow> room" where
  "note_rob r p rob =
     (let r1 = (if rob = 1
                then r\<lparr>rm_landlord := p, rm_base_coin := max 1 (rm_base_coin r) * 2\<rparr> else r)
      in r1\<lparr>rm_action_count := rm_action_count r1 + 1\<rparr>)"

text \<open>Without a robber the caller with the highest score is the landlord, and without a caller
  the first player.\<close>

definition choose_landlord :: "room \<Rightarrow> room" where
  "choose_landlord r =
     (let r1 = (if rm_landlord r = 0 then r\<lparr>rm_landlord := rm_call_player r\<rparr> else r)
      in if rm_landlord r1 = 0 \<and> rm_players r1 \<noteq> []
         then r1\<lparr>rm_landlord := hd (rm_players r1)\<rparr> else r1)"

definition rob_action :: "room \<Rightarrow> player_id \<Rightarrow> action_request \<Rightarrow> action_outcome" where
  "rob_action r p q =
     (if rq_type q \<noteq> ActRobLandlord then refused r ''action not allowed in ROB_LANDLORD''
      else if rq_rob q \<noteq> 0 \<and> rq_rob q \<noteq> 1 then refused r ''invalid rob flag''
      else
        let r1 = note_rob r p (rq_rob q)
        in if rm_action_count r1 \<ge> num_players r1 then
             let r2 = choose_landlord r1
             in (case rm_hands r2 (rm_landlord r2) of
                   None \<Rightarrow> refused r2 ''landlord hand not found''
                 | Some hand \<Rightarrow> accepted (start_playing r2 hand))
           else accepted (r1\<lparr>rm_operator := NextOperator r1 p\<rparr>))"

definition clear_table :: "room \<Rightarrow> room" where
  "clear_table r =
     r\<lparr>rm_operator := rm_last_player r, rm_last_cards := [], rm_last_player := 0,
       rm_pass_count := 0\<rparr>"

definition pass_action :: "room \<Rightarrow> player_id \<Rightarrow> action_request \<Rightarrow> action_outcome" where
  "pass_action r p q =
     (if rq_cards q \<noteq> [] then refused r ''pass should not carry cards''
      else if rm_last_cards r = [] then refused r ''cannot pass on empty table''
      else if rm_last_player r = p then refused r ''leading player cannot pass''
      else
        let r1 = r\<lparr>rm_pass_count := rm_pass_count r + 1\<rparr>
        in if rm_pass_count r1 \<ge> num_players r1 - 1 then accepted (clear_table r1)
           else accepted (r1\<lparr>rm_operator := NextOperator r1 p\<rparr>))"

text \<open>The cards leave the hand and lie on the table.\<close>

definition put_cards :: "room \<Rightarrow> player_id \<Rightarrow> card list \<Rightarrow> card list \<Rightarrow> room" where
  "put_cards r p cards hand' =
     r\<lparr>rm_hands := (rm_hands r)(p \<mapsto> hand'), rm_last_cards := cards, rm_last_player := p,
       rm_pass_count := 0\<rparr>"

definition win_game :: "room \<Rightarrow> player_id \<Rightarrow> action_outcome" where
  "win_game r p =
     (let r' = BumpSnapshotVersion True (r\<lparr>rm_state := Settling, rm_operator := p\<rparr>)
      in (r', Inr \<lparr>ar_snapshot = MakeSnapshot r', ar_game_over = True, ar_winner = p,
                   ar_base_coin = max 1 (rm_base_coin r')\<rparr>))"

definition play_action :: "room \<Rightarrow> player_id \<Rightarrow> action_request \<Rightarrow> action_outcome" where
  "play_action r p q =
     (if rq_cards q = [] then refused r ''play cards cannot be empty''
      else case rm_hands r p of
        None \<Rightarrow> refused r ''player hand not found''
      | Some hand \<Rightarrow>
          if \<not> cc_valid (Analyze (rq_cards q)) then refused r ''invalid card combo''
          else if rm_last_cards r \<noteq> [] \<and> rm_last_player r \<noteq> p \<and>
                  \<not> CanBeat (Analyze (rq_cards q)) (Analyze (rm_last_cards r))
          then refused r ''combo cannot beat previous''
          else case RemoveCards hand (rq_cards q) of
            None \<Rightarrow> refused r ''cards not in hand''
          | Some hand' \<Rightarrow>
              let r1 = put_cards r p (rq_cards q) hand'
              in if hand' = [] then win_game r1 p
                 else accepted (r1\<lparr>rm_operator := NextOperator r1 p\<rparr>))"

definition dispatch_action :: "room \<Rightarrow> player_id \<Rightarrow> action_request \<Rightarrow> action_outcome" where
  "dispatch_action r p q =
     (if rm_state r = CallScore then call_score_action r p q
      else if rm_state r = RobLandlord then rob_action r p q
      else if rm_state r \<noteq> Playing then refused r ''room state not playable''
      else if rq_type q = ActPass then pass_action r p q
      else if rq_type q \<noteq> ActPlayCards then refused r ''action not allowed in PLAYING''
      else play_action r p q)"

definition apply_action ::
    "(64 word \<Rightarrow> card list \<Rightarrow> card list) \<Rightarrow> room \<Rightarrow> player_id \<Rightarrow> action_request \<Rightarrow> action_outcome" where
  "apply_action shuf r p q =
     (if p \<notin> set (rm_players r) then refused r ''player not in room''
      else if rm_operator r \<noteq> p then refused r ''not player turn''
      else if rm_state r = Settling \<or> rm_state r = Finished
      then refused r ''room state not allow action''
      else dispatch_action (start_if_waiting shuf r) p q)"

text \<open>The choice of \<^verbatim>\<open>ApplyTrusteeAction\<close>: a request, or the reason why there is none.\<close>

definition trustee_request :: "room \<Rightarrow> player_id \<Rightarrow> string + action_request" where
  "trustee_request r p =
     (if rm_operator r \<noteq> p then Inl ''not trustee player turn''
      else if rm_state r = CallScore
      then Inr (empty_request\<lparr>rq_type := ActCallScore, rq_call_score := 0\<rparr>)
      else if rm_state r = RobLandlord
      then Inr (empty_request\<lparr>rq_type := ActRobLandlord, rq_rob := 0\<rparr>)
      else if rm_state r = Playing then
        (if rm_last_cards r = [] \<or> rm_last_player r = p then
           (case rm_hands r p of
              Some (c # _) \<Rightarrow> Inr (empty_request\<lparr>rq_type := ActPlayCards, rq_cards := [c]\<rparr>)
            | _ \<Rightarrow> Inl ''trustee hand empty'')
         else
           (let prev = Analyze (rm_last_cards r);
                hand = get_or (rm_hands r) p []
            in case find (\<lambda>c. cc_valid (Analyze [c]) \<and> CanBeat (Analyze [c]) prev) hand of
                 Some c \<Rightarrow> Inr (empty_request\<lparr>rq_type := ActPlayCards, rq_cards := [c]\<rparr>)
               | None \<Rightarrow> Inr (empty_request\<lparr>rq_type := ActPass\<rparr>)))
      else Inl ''room state not support trustee action'')"

subsection \<open>The room manager\<close>

definition new_room :: "room_id \<Rightarrow> int \<Rightarrow> player_id list \<Rightarrow> room" where
  "new_room rid mode ps =
     \<lparr>rm_id = rid, rm_mode = mode, rm_state = WaitStart, rm_players = ps,
      rm_operator = (case ps of [] \<Rightarrow> 0 | p # _ \<Rightarrow> p),
      rm_action_count = 0, rm_dealt = False, rm_hands = Map.empty, rm_bottom = [],
      rm_landlord = 0, rm_call_score = 0, rm_call_player = 0, rm_base_coin = 1,
      rm_last_player = 0, rm_last_cards = [], rm_pass_count = 0,
      rm_version = 1, rm_action_seq = 0,
      rm_online = foldl (\<lambda>m p. m(p \<mapsto> True)) Map.empty ps,
      rm_trustee = foldl (\<lambda>m p. m(p \<mapsto> False)) Map.empty ps,
      rm_offline_at = foldl (\<lambda>m p. m(p \<mapsto> 0)) Map.empty ps\<rparr>"

definition CreateRoom :: "room_manager \<Rightarrow> int \<Rightarrow> player_id list \<Rightarrow> room_manager \<times> room_id" where
  "CreateRoom m mode ps =
     (let rid = mg_next_id m in
      (m\<lparr>mg_next_id := rid + 1,
         mg_rooms := (mg_rooms m)(rid \<mapsto> new_room rid mode ps),
         mg_player_room := foldl (\<lambda>pr p. pr(p \<mapsto> rid)) (mg_player_room m) ps\<rparr>, rid))"

definition DestroyRoom :: "room_manager \<Rightarrow> room_id \<Rightarrow> room_manager \<times> bool" where
  "DestroyRoom m rid =
     (case mg_rooms m rid of
        None \<Rightarrow> (m, False)
      | Some r \<Rightarrow>
          (m\<lparr>mg_player_room := foldl (\<lambda>pr p. pr(p := None)) (mg_player_room m) (rm_players r),
             mg_rooms := (mg_rooms m)(rid := None)\<rparr>, True))"

definition GetRoomById :: "room_manager \<Rightarrow> room_id \<Rightarrow> room option" where
  "GetRoomById m rid = mg_rooms m rid"

definition GetRoomIdByPlayer :: "room_manager \<Rightarrow> player_id \<Rightarrow> room_id option" where
  "GetRoomIdByPlayer m p = mg_player_room m p"

definition GetRoomByPlayer :: "room_manager \<Rightarrow> player_id \<Rightarrow> room option" where
  "GetRoomByPlayer m p =
     (case mg_player_room m p of None \<Rightarrow> None | Some rid \<Rightarrow> mg_rooms m rid)"

definition BuildSnapshotByRoomId :: "room_manager \<Rightarrow> room_id \<Rightarrow> room_snapshot option" where
  "BuildSnapshotByRoomId m rid = map_option MakeSnapshot (mg_rooms m rid)"

definition BuildSnapshotByPlayerId :: "room_manager \<Rightarrow> player_id \<Rightarrow> room_snapshot option" where
  "BuildSnapshotByPlayerId m p =
     (case mg_player_room m p of
        None \<Rightarrow> None
      | Some rid \<Rightarrow> map_option MakeSnapshot (mg_rooms m rid))"

definition BuildPushSnapshotV2ByRoomId :: "room_manager \<Rightarrow> room_id \<Rightarrow> push_snapshot option" where
  "BuildPushSnapshotV2ByRoomId m rid = map_option MakePushSnapshotV2 (mg_rooms m rid)"

definition BuildPushSnapshotV2ByPlayerId ::
    "room_manager \<Rightarrow> player_id \<Rightarrow> push_snapshot option" where
  "BuildPushSnapshotV2ByPlayerId m p =
     (case mg_player_room m p of
        None \<Rightarrow> None
      | Some rid \<Rightarrow> map_option MakePushSnapshotV2 (mg_rooms m rid))"

text \<open>\<^verbatim>\<open>Room& room = it->second\<close>: what the operation leaves in the record is stored.\<close>

definition store_room :: "room_manager \<Rightarrow> room_id \<Rightarrow> room \<Rightarrow> room_manager" where
  "store_room m rid r = m\<lparr>mg_rooms := (mg_rooms m)(rid \<mapsto> r)\<rparr>"

definition ApplyPlayerAction ::
    "(64 word \<Rightarrow> card list \<Rightarrow> card list) \<Rightarrow> room_manager \<Rightarrow> room_id \<Rightarrow> player_id \<Rightarrow> action_request
     \<Rightarrow> room_manager \<times> (string + action_result)" where
  "ApplyPlayerAction shuf m rid p q =
     (case mg_rooms m rid of
        None \<Rightarrow> (m, Inl ''room not found'')
      | Some r \<Rightarrow> (case apply_action shuf r p q of (r', res) \<Rightarrow> (store_room m rid r', res)))"

definition GetPlayerHand :: "room_manager \<Rightarrow> room_id \<Rightarrow> player_id \<Rightarrow> card list option" where
  "GetPlayerHand m rid p =
     (case mg_rooms m rid of None \<Rightarrow> None | Some r \<Rightarrow> rm_hands r p)"

text \<open>The overload of \<^verbatim>\<open>ApplyPlayerAction\<close> that takes only the type of the action and fills
  in the rest.\<close>

definition ApplyPlayerActionType ::
    "(64 word \<Rightarrow> card list \<Rightarrow> card list) \<Rightarrow> room_manager \<Rightarrow> room_id \<Rightarrow> player_id \<Rightarrow> action_type
     \<Rightarrow> room_manager \<times> (string + room_snapshot)" where
  "ApplyPlayerActionType shuf m rid p t =
     (let run = (\<lambda>q. case ApplyPlayerAction shuf m rid p q of
                       (m', Inl e) \<Rightarrow> (m', Inl e)
                     | (m', Inr res) \<Rightarrow> (m', Inr (ar_snapshot res)));
          q = empty_request\<lparr>rq_type := t\<rparr>
      in case t of
           ActCallScore \<Rightarrow> run (q\<lparr>rq_call_score := 1\<rparr>)
         | ActRobLandlord \<Rightarrow> run (q\<lparr>rq_rob := 0\<rparr>)
         | ActPlayCards \<Rightarrow>
             (case GetPlayerHand m rid p of
                Some (c # _) \<Rightarrow> run (q\<lparr>rq_cards := [c]\<rparr>)
              | _ \<Rightarrow> (m, Inl ''no cards in hand''))
         | ActPass \<Rightarrow> run q)"

text \<open>The record updates of the three marking operations; \<open>None\<close> when the player has no
  entry in the map that the code looks up first.\<close>

definition mark_offline :: "player_id \<Rightarrow> millis \<Rightarrow> room \<Rightarrow> room option" where
  "mark_offline p t r =
     (case rm_online r p of
        None \<Rightarrow> None
      | Some online \<Rightarrow>
          if \<not> online \<and> get_or (rm_offline_at r) p 0 > 0 then Some r
          else Some (BumpSnapshotVersion False
                 (r\<lparr>rm_online := (rm_online r)(p \<mapsto> False),
                    rm_offline_at := (rm_offline_at r)(p \<mapsto> t)\<rparr>)))"

definition mark_online :: "player_id \<Rightarrow> room \<Rightarrow> room option" where
  "mark_online p r =
     (case rm_online r p of
        None \<Rightarrow> None
      | Some online \<Rightarrow>
          if online \<and> \<not> get_or (rm_trustee r) p False
          then Some (r\<lparr>rm_trustee := (rm_trustee r)(p \<mapsto> False),
                       rm_offline_at := (rm_offline_at r)(p \<mapsto> 0)\<rparr>)
          else Some (BumpSnapshotVersion False
                 (r\<lparr>rm_online := (rm_online r)(p \<mapsto> True),
                    rm_trustee := (rm_trustee r)(p \<mapsto> False),
                    rm_offline_at := (rm_offline_at r)(p \<mapsto> 0)\<rparr>)))"

definition mark_trustee :: "player_id \<Rightarrow> bool \<Rightarrow> room \<Rightarrow> room option" where
  "mark_trustee p b r =
     (case rm_trustee r p of
        None \<Rightarrow> None
      | Some t \<Rightarrow>
          if t = b then Some r
          else Some (BumpSnapshotVersion False (r\<lparr>rm_trustee := (rm_trustee r)(p \<mapsto> b)\<rparr>)))"

text \<open>The lookups shared by the marking operations: player, room, entry.\<close>

definition update_player_room ::
    "(room \<Rightarrow> room option) \<Rightarrow> room_manager \<Rightarrow> player_id \<Rightarrow> room_manager \<times> bool" where
  "update_player_room f m p =
     (case mg_player_room m p of
        None \<Rightarrow> (m, False)
      | Some rid \<Rightarrow>
          (case mg_rooms m rid of
             None \<Rightarrow> (m, False)
           | Some r \<Rightarrow>
               (case f r of None \<Rightarrow> (m, False) | Some r' \<Rightarrow> (store_room m rid r', True))))"

definition MarkPlayerOffline :: "room_manager \<Rightarrow> player_id \<Rightarrow> millis \<Rightarrow> room_manager \<times> bool" where
  "MarkPlayerOffline m p t = update_player_room (mark_offline p t) m p"

definition MarkPlayerOnline :: "room_manager \<Rightarrow> player_id \<Rightarrow> room_manager \<times> bool" where
  "MarkPlayerOnline m p = update_player_room (mark_online p) m p"

definition MarkPlayerTrustee :: "room_manager \<Rightarrow> player_id \<Rightarrow> bool \<Rightarrow> room_manager \<times> bool" where
  "MarkPlayerTrustee m p b = update_player_room (mark_trustee p b) m p"

definition ApplyTrusteeAction ::
    "(64 word \<Rightarrow> card list \<Rightarrow> card list) \<Rightarrow> room_manager \<Rightarrow> room_id \<Rightarrow> player_id
     \<Rightarrow> room_manager \<times> (string + action_result)" where
  "ApplyTrusteeAction shuf m rid p =
     (case mg_rooms m rid of
        None \<Rightarrow> (m, Inl ''room not found'')
      | Some r \<Rightarrow>
          (case trustee_request r p of
             Inl e \<Rightarrow> (m, Inl e)
           | Inr q \<Rightarrow> ApplyPlayerAction shuf m rid p q))"

definition PickWinnerForOfflineLose :: "room_manager \<Rightarrow> room_id \<Rightarrow> player_id \<Rightarrow> player_id option" where
  "PickWinnerForOfflineLose m rid loser =
     (case mg_rooms m rid of
        None \<Rightarrow> None
      | Some r \<Rightarrow> find (\<lambda>p. p \<noteq> loser) (rm_players r))"

definition mark_state :: "room_state \<Rightarrow> room_manager \<Rightarrow> room_id \<Rightarrow> room_manager \<times> bool" where
  "mark_state s m rid =
     (case mg_rooms m rid of
        None \<Rightarrow> (m, False)
      | Some r \<Rightarrow> (store_room m rid (BumpSnapshotVersion False (r\<lparr>rm_state := s\<rparr>)), True))"

definition MarkSettling :: "room_manager \<Rightarrow> room_id \<Rightarrow> room_manager \<times> bool" where
  "MarkSettling = mark_state Settling"

definition MarkFinished :: "room_manager \<Rightarrow> room_id \<Rightarrow> room_manager \<times> bool" where
  "MarkFinished = mark_state Finished"

end
