(* ===== verification/DdzRoomSpec.thy ===== *)
theory DdzRoomSpec
  imports DdzRoom DdzRulesSpec
begin

text \<open>
  Correctness of one game. The invariant \<open>room_ok\<close> says what holds in each phase: three
  distinct seated players, the 54 cards split between the hands and the bottom cards until the
  landlord takes them, non-empty hands and a consistent table while the game is played. The
  lemmas show that dealing establishes it and that every action keeps it, what each action
  does, that the trustee is never stuck, and that a game ends after boundedly many actions.
\<close>

subsection \<open>The pieces of the invariant\<close>

text \<open>What the program relies on of \<^verbatim>\<open>std::shuffle\<close>: the result is a permutation.\<close>

definition is_shuffle :: "(64 word \<Rightarrow> card list \<Rightarrow> card list) \<Rightarrow> bool" where
  "is_shuffle shuf \<longleftrightarrow> (\<forall>seed xs. mset (shuf seed xs) = mset xs)"

definition seated :: "player_id list \<Rightarrow> bool" where
  "seated ps \<longleftrightarrow> length ps = 3 \<and> distinct ps \<and> 0 \<notin> set ps"

definition held :: "player_id list \<Rightarrow> (player_id \<rightharpoonup> card list) \<Rightarrow> card multiset" where
  "held ps h = (\<Sum>p \<leftarrow> ps. mset (get_or h p []))"

definition dealt_ok :: "room \<Rightarrow> bool" where
  "dealt_ok r \<longleftrightarrow> rm_dealt r \<and>
     list_all (\<lambda>p. case rm_hands r p of None \<Rightarrow> False | Some h \<Rightarrow> length h = 17) (rm_players r) \<and>
     length (rm_bottom r) = 3 \<and>
     held (rm_players r) (rm_hands r) + mset (rm_bottom r) = mset full_deck"

definition table_clear :: "room \<Rightarrow> bool" where
  "table_clear r \<longleftrightarrow> rm_last_cards r = [] \<and> rm_last_player r = 0 \<and> rm_pass_count r = 0"

definition table_ok :: "room \<Rightarrow> bool" where
  "table_ok r \<longleftrightarrow> table_clear r \<or>
     cc_valid (Analyze (rm_last_cards r)) \<and> rm_last_player r \<in> set (rm_players r) \<and>
     (rm_pass_count r = 0 \<and> rm_operator r = NextOperator r (rm_last_player r) \<or>
      rm_pass_count r = 1 \<and>
        rm_operator r = NextOperator r (NextOperator r (rm_last_player r)))"

definition waiting_ok :: "room \<Rightarrow> bool" where
  "waiting_ok r \<longleftrightarrow> \<not> rm_dealt r \<and> rm_operator r = hd (rm_players r) \<and> rm_action_count r = 0 \<and>
     rm_landlord r = 0 \<and> rm_call_score r = 0 \<and> rm_call_player r = 0 \<and> rm_base_coin r = 1 \<and>
     table_clear r"

definition calling_ok :: "room \<Rightarrow> bool" where
  "calling_ok r \<longleftrightarrow> dealt_ok r \<and> 0 \<le> rm_action_count r \<and> rm_action_count r < 3 \<and>
     rm_operator r = rm_players r ! nat (rm_action_count r) \<and> rm_landlord r = 0 \<and>
     0 \<le> rm_call_score r \<and> rm_call_score r \<le> 2 \<and>
     (rm_call_player r = 0 \<or> rm_call_player r \<in> set (rm_players r)) \<and>
     (rm_call_player r = 0 \<longleftrightarrow> rm_call_score r = 0) \<and>
     rm_base_coin r = 1 \<and> table_clear r"

definition robbing_ok :: "room \<Rightarrow> bool" where
  "robbing_ok r \<longleftrightarrow> dealt_ok r \<and> 0 \<le> rm_action_count r \<and> rm_action_count r < 3 \<and>
     rm_operator r \<in> set (rm_players r) \<and> rm_call_player r \<in> set (rm_players r) \<and>
     (rm_landlord r = 0 \<or> rm_landlord r \<in> set (rm_players r)) \<and>
     1 \<le> rm_base_coin r \<and> rm_base_coin r \<le> 3 * 2 ^ nat (rm_action_count r) \<and> table_clear r"

definition playing_ok :: "room \<Rightarrow> bool" where
  "playing_ok r \<longleftrightarrow> rm_dealt r \<and> rm_landlord r \<in> set (rm_players r) \<and>
     rm_operator r \<in> set (rm_players r) \<and>
     list_all (\<lambda>p. case rm_hands r p of None \<Rightarrow> False | Some h \<Rightarrow> h \<noteq> []) (rm_players r) \<and>
     held (rm_players r) (rm_hands r) \<subseteq># mset full_deck \<and>
     1 \<le> rm_base_coin r \<and> rm_base_coin r \<le> 24 \<and> table_ok r"

definition room_ok :: "room \<Rightarrow> bool" where
  "room_ok r \<longleftrightarrow> seated (rm_players r) \<and>
     (case rm_state r of
        WaitStart \<Rightarrow> waiting_ok r
      | CallScore \<Rightarrow> calling_ok r
      | RobLandlord \<Rightarrow> robbing_ok r
      | Playing \<Rightarrow> playing_ok r
      | _ \<Rightarrow> True)"

lemmas phase_defs = waiting_ok_def calling_ok_def robbing_ok_def playing_ok_def

lemma seatedE:
  assumes "seated ps"
  obtains a b c where "ps = [a, b, c]" "a \<noteq> b" "a \<noteq> c" "b \<noteq> c" "a \<noteq> 0" "b \<noteq> 0" "c \<noteq> 0"
  using assms by (auto simp: seated_def length_Suc_conv numeral_3_eq_3)

lemma Bump_simp [simp]:
  "BumpSnapshotVersion b r =
     r\<lparr>rm_version := rm_version r + 1, rm_action_seq := rm_action_seq r + (if b then 1 else 0)\<rparr>"
  by (simp add: BumpSnapshotVersion_def Let_def)

lemma get_or_simps [simp]:
  "get_or (m(k \<mapsto> v)) k d = v" "k \<noteq> k' \<Longrightarrow> get_or (m(k \<mapsto> v)) k' d = get_or m k' d"
  by (simp_all add: get_or_def)

lemma get_or_Some: "m k = Some v \<Longrightarrow> get_or m k d = v"
  by (simp add: get_or_def)

subsection \<open>Sorting and removing cards\<close>

lemma mset_SortCards [simp]: "mset (SortCards cards) = mset cards"
  by (simp add: SortCards_def)

lemma length_SortCards [simp]: "length (SortCards cards) = length cards"
  by (simp add: SortCards_def)

lemma SortCards_Nil [simp]: "SortCards cards = [] \<longleftrightarrow> cards = []"
  using length_SortCards [of cards] by (metis length_0_conv)

lemma book_cards_iff: "book_cards cnt cs \<longleftrightarrow> (\<forall>c. count (mset cs) c \<le> cnt c)"
proof (induction cnt cs rule: book_cards.induct)
  case (2 cnt c cs)
  show ?case
  proof (cases "cnt c = 0")
    case True
    then show ?thesis by (auto intro!: exI [of _ c])
  next
    case False
    then have "(\<forall>x. count (mset cs) x \<le> (cnt(c := cnt c - 1)) x)
        \<longleftrightarrow> (\<forall>x. count (mset (c # cs)) x \<le> cnt x)" by auto
    then show ?thesis using 2 [OF False] False by (simp only: book_cards.simps if_False)
  qed
qed simp

lemma erase_cards_mset:
  "erase_cards hand cs = (if mset cs \<subseteq># mset hand then Some (foldl (\<lambda>h c. remove1 c h) hand cs) else None)"
proof (induction hand cs rule: erase_cards.induct)
  case (2 hand c cs)
  then show ?case by (auto simp: insert_subset_eq_iff)
qed simp

lemma mset_foldl_remove1: "mset (foldl (\<lambda>h c. remove1 c h) hand cs) = mset hand - mset cs"
  by (induction cs arbitrary: hand) simp_all

lemma RemoveCards_iff:
  "RemoveCards hand cs =
     (if mset cs \<subseteq># mset hand then Some (foldl (\<lambda>h c. remove1 c h) hand cs) else None)"
  by (auto simp: RemoveCards_def book_cards_iff erase_cards_mset subseteq_mset_def count_mset)

lemma RemoveCards_Some:
  "RemoveCards hand cs = Some hand' \<Longrightarrow> mset cs \<subseteq># mset hand \<and> mset hand' = mset hand - mset cs"
  by (auto simp: RemoveCards_iff mset_foldl_remove1 split: if_splits)

subsection \<open>Dealing\<close>

definition dealt_to :: "card list \<Rightarrow> nat \<Rightarrow> nat \<Rightarrow> card list" where
  "dealt_to deck n j = map ((!) deck) (filter (\<lambda>i. i mod 3 = j) [0..<n])"

lemma deal_loop:
  assumes "ps = [a, b, c]" "a \<noteq> b" "a \<noteq> c" "b \<noteq> c"
  shows "foldl (deal_one ps deck) (h(a \<mapsto> [], b \<mapsto> [], c \<mapsto> [])) [0..<n] =
    h(a \<mapsto> dealt_to deck n 0, b \<mapsto> dealt_to deck n 1, c \<mapsto> dealt_to deck n 2)"
proof (induction n)
  case (Suc n)
  have d: "dealt_to deck (Suc n) j = dealt_to deck n j @ (if n mod 3 = j then [deck ! n] else [])" for j
    by (simp add: dealt_to_def)
  have step: "deal_one [a, b, c] deck (h(a \<mapsto> x, b \<mapsto> y, c \<mapsto> z)) n =
      h(a \<mapsto> x @ (if n mod 3 = 0 then [deck ! n] else []),
        b \<mapsto> y @ (if n mod 3 = 1 then [deck ! n] else []),
        c \<mapsto> z @ (if n mod 3 = 2 then [deck ! n] else []))" for x y z
  proof -
    consider "n mod 3 = 0" | "n mod 3 = 1" | "n mod 3 = 2" by linarith
    then show ?thesis
      by cases (use assms(2-4) in \<open>simp_all add: deal_one_def get_or_def fun_eq_iff\<close>)
  qed
  have "foldl (deal_one ps deck) (h(a \<mapsto> [], b \<mapsto> [], c \<mapsto> [])) [0..<Suc n] =
      deal_one ps deck (foldl (deal_one ps deck) (h(a \<mapsto> [], b \<mapsto> [], c \<mapsto> [])) [0..<n]) n"
    by simp
  then show ?case unfolding Suc unfolding assms(1) step d .
qed (simp add: dealt_to_def)

lemma deal_hands_three:
  assumes "ps = [a, b, c]" "a \<noteq> b" "a \<noteq> c" "b \<noteq> c"
  shows "deal_hands ps deck h = h(a \<mapsto> SortCards (dealt_to deck 51 0),
    b \<mapsto> SortCards (dealt_to deck 51 1), c \<mapsto> SortCards (dealt_to deck 51 2))"
proof -
  have "foldl (\<lambda>m pid. m(pid \<mapsto> [])) h ps = h(a \<mapsto> [], b \<mapsto> [], c \<mapsto> [])"
    by (simp add: assms(1))
  then have "foldl (deal_one ps deck) (foldl (\<lambda>m pid. m(pid \<mapsto> [])) h ps) [0..<51] =
      h(a \<mapsto> dealt_to deck 51 0, b \<mapsto> dealt_to deck 51 1, c \<mapsto> dealt_to deck 51 2)"
    by (simp only: deal_loop [OF assms])
  moreover have "foldl (\<lambda>m pid. m(pid \<mapsto> f (get_or m pid []))) (h(a \<mapsto> x, b \<mapsto> y, c \<mapsto> z)) [a, b, c]
      = h(a \<mapsto> f x, b \<mapsto> f y, c \<mapsto> f z)" for f and x y z :: "card list"
    using assms(2-4) by (intro ext) (simp add: get_or_def)
  ultimately show ?thesis unfolding deal_hands_def Let_def assms(1) by (simp only:)
qed

lemma length_dealt_to: "j < 3 \<Longrightarrow> length (dealt_to deck 51 j) = 17"
proof -
  have *: "length (filter (\<lambda>i. i mod 3 = 0) [0..<51]) = 17"
    "length (filter (\<lambda>i. i mod 3 = Suc 0) [0..<51]) = 17"
    "length (filter (\<lambda>i. i mod 3 = 2) [0..<51]) = 17" by code_simp+
  assume "j < 3"
  then have "j = 0 \<or> j = Suc 0 \<or> j = 2" by linarith
  then show ?thesis using * unfolding dealt_to_def length_map by blast
qed

lemma mset_dealt_to:
  "n \<le> length deck \<Longrightarrow>
     mset (dealt_to deck n 0) + mset (dealt_to deck n 1) + mset (dealt_to deck n 2) =
     mset (take n deck)"
proof (induction n)
  case (Suc n)
  have "n mod 3 = 0 \<or> n mod 3 = 1 \<or> n mod 3 = 2" by linarith
  then show ?case
    using Suc by (auto simp: dealt_to_def take_Suc_conv_app_nth)
qed (simp add: dealt_to_def)

lemma held_three:
  "held [a, b, c] h = mset (get_or h a []) + mset (get_or h b []) + mset (get_or h c [])"
  by (simp add: held_def add.assoc)

lemma deal_held:
  assumes "seated ps" "length deck = 54"
  shows "held ps (deal_hands ps deck h) + mset [deck ! 51, deck ! 52, deck ! 53] = mset deck"
proof -
  obtain a b c where ps: "ps = [a, b, c]" "a \<noteq> b" "a \<noteq> c" "b \<noteq> c"
    using seatedE [OF assms(1)] by metis
  have "held ps (deal_hands ps deck h) = mset (take 51 deck)"
    using mset_dealt_to [of 51 deck] assms(2) ps(2-4)
    unfolding deal_hands_three [OF ps] unfolding ps(1) held_three by simp
  moreover have "drop 51 deck = [deck ! 51, deck ! 52, deck ! 53]"
    using assms(2) by (simp add: Cons_nth_drop_Suc [symmetric])
  ultimately show ?thesis by (metis append_take_drop_id mset_append)
qed

lemma deal_lengths:
  assumes "seated ps" "p \<in> set ps"
  shows "\<exists>hand. deal_hands ps deck h p = Some hand \<and> length hand = 17"
proof -
  obtain a b c where ps: "ps = [a, b, c]" "a \<noteq> b" "a \<noteq> c" "b \<noteq> c"
    using seatedE [OF assms(1)] by metis
  show ?thesis
    using assms(2) ps(2-4) unfolding deal_hands_three [OF ps] unfolding ps(1)
    by (auto simp: length_dealt_to)
qed

lemma length_full_deck: "length full_deck = 54"
  by (simp add: full_deck_def)

lemma DealCards_sel [simp]:
  "rm_players (DealCards shuf r) = rm_players r" "rm_operator (DealCards shuf r) = rm_operator r"
  "rm_state (DealCards shuf r) = rm_state r" "rm_id (DealCards shuf r) = rm_id r"
  "rm_action_count (DealCards shuf r) = rm_action_count r"
  "rm_landlord (DealCards shuf r) = rm_landlord r"
  "rm_call_score (DealCards shuf r) = rm_call_score r"
  "rm_call_player (DealCards shuf r) = rm_call_player r"
  "rm_base_coin (DealCards shuf r) = rm_base_coin r"
  "rm_last_cards (DealCards shuf r) = rm_last_cards r"
  "rm_last_player (DealCards shuf r) = rm_last_player r"
  "rm_pass_count (DealCards shuf r) = rm_pass_count r"
  "rm_version (DealCards shuf r) = rm_version r"
  "rm_action_seq (DealCards shuf r) = rm_action_seq r"
  by (simp_all add: DealCards_def Let_def)

lemma DealCards_ok:
  assumes "is_shuffle shuf" "seated (rm_players r)" "\<not> rm_dealt r"
  shows "dealt_ok (DealCards shuf r)"
proof -
  let ?deck = "shuf (deal_seed (rm_id r)) full_deck"
  have m: "mset ?deck = mset full_deck" using assms(1) by (simp add: is_shuffle_def)
  then have len: "length ?deck = 54" using length_full_deck by (metis size_mset)
  have "length (rm_players r) = 3" using assms(2) by (simp add: seated_def)
  then have D: "DealCards shuf r = r\<lparr>rm_hands := deal_hands (rm_players r) ?deck (rm_hands r),
      rm_bottom := [?deck ! 51, ?deck ! 52, ?deck ! 53], rm_dealt := True\<rparr>"
    using assms(3) by (simp add: DealCards_def Let_def)
  show ?thesis
    unfolding D dealt_ok_def
    using deal_lengths [OF assms(2), of _ ?deck "rm_hands r"] deal_held [OF assms(2) len, of "rm_hands r"]
    by (fastforce simp: list_all_iff m split: option.split)
qed

subsection \<open>Every action keeps the invariant\<close>

lemma accepted_simps [simp]:
  "fst (accepted r) = BumpSnapshotVersion True r" "fst (refused r e) = r"
  "snd (refused r e) = Inl e" "snd (accepted r) \<noteq> Inl e"
  by (simp_all add: accepted_def refused_def Let_def del: Bump_simp)

declare NextOperator_def [simp]

lemma next_operator_three [simp]:
  "next_operator [a, b, c] p = (if p = a then b else if p = b then c else a)"
  by (auto simp: next_operator_def)

lemma next_operator_in: "seated ps \<Longrightarrow> next_operator ps p \<in> set ps"
  by (erule seatedE) simp

lemma next_operator_ne: "seated ps \<Longrightarrow> next_operator ps p \<noteq> p"
  by (erule seatedE) simp

lemma next_operator_ne2: "seated ps \<Longrightarrow> p \<in> set ps \<Longrightarrow> next_operator ps (next_operator ps p) \<noteq> p"
  by (erule seatedE) auto

lemma next_operator_3: "seated ps \<Longrightarrow> p \<in> set ps \<Longrightarrow>
    next_operator ps (next_operator ps (next_operator ps p)) = p"
  by (erule seatedE) auto

lemma seated_length: "seated ps \<Longrightarrow> length ps = 3"
  by (simp add: seated_def)

lemma start_if_waiting_ok:
  assumes "is_shuffle shuf" "room_ok r"
  shows "room_ok (start_if_waiting shuf r)"
proof (cases "rm_state r = WaitStart")
  case True
  let ?r = "r\<lparr>rm_state := CallScore\<rparr>"
  have w: "waiting_ok r" and s: "seated (rm_players r)"
    using assms(2) True by (simp_all add: room_ok_def)
  have "dealt_ok (DealCards shuf ?r)"
    using w s by (intro DealCards_ok [OF assms(1)]) (simp_all add: waiting_ok_def)
  moreover have "rm_players r ! 0 = hd (rm_players r)"
    using s by (elim seatedE) simp
  ultimately show ?thesis
    using w s True
    by (simp add: start_if_waiting_def room_ok_def calling_ok_def waiting_ok_def table_clear_def)
next
  case False
  then show ?thesis using assms(2) by (simp add: start_if_waiting_def)
qed

lemma start_if_waiting_sel [simp]:
  "rm_players (start_if_waiting shuf r) = rm_players r"
  "rm_id (start_if_waiting shuf r) = rm_id r"
  "rm_operator (start_if_waiting shuf r) = rm_operator r"
  "rm_version (start_if_waiting shuf r) = rm_version r"
  "rm_action_seq (start_if_waiting shuf r) = rm_action_seq r"
  "rm_state (start_if_waiting shuf r) = (if rm_state r = WaitStart then CallScore else rm_state r)"
  by (simp_all add: start_if_waiting_def)

lemma dealt_ok_frame [simp]:
  "dealt_ok (r\<lparr>rm_state := st\<rparr>) = dealt_ok r"
  "dealt_ok (r\<lparr>rm_operator := x\<rparr>) = dealt_ok r"
  "dealt_ok (r\<lparr>rm_action_count := n\<rparr>) = dealt_ok r"
  "dealt_ok (r\<lparr>rm_landlord := x\<rparr>) = dealt_ok r"
  "dealt_ok (r\<lparr>rm_call_score := n\<rparr>) = dealt_ok r"
  "dealt_ok (r\<lparr>rm_call_player := x\<rparr>) = dealt_ok r"
  "dealt_ok (r\<lparr>rm_base_coin := n\<rparr>) = dealt_ok r"
  "dealt_ok (r\<lparr>rm_version := n\<rparr>) = dealt_ok r"
  "dealt_ok (r\<lparr>rm_action_seq := n\<rparr>) = dealt_ok r"
  by (simp_all add: dealt_ok_def)

lemma table_clear_frame [simp]:
  "table_clear (r\<lparr>rm_state := st\<rparr>) = table_clear r"
  "table_clear (r\<lparr>rm_operator := x\<rparr>) = table_clear r"
  "table_clear (r\<lparr>rm_action_count := n\<rparr>) = table_clear r"
  "table_clear (r\<lparr>rm_landlord := x\<rparr>) = table_clear r"
  "table_clear (r\<lparr>rm_call_score := n\<rparr>) = table_clear r"
  "table_clear (r\<lparr>rm_call_player := x\<rparr>) = table_clear r"
  "table_clear (r\<lparr>rm_base_coin := n\<rparr>) = table_clear r"
  "table_clear (r\<lparr>rm_version := n\<rparr>) = table_clear r"
  "table_clear (r\<lparr>rm_action_seq := n\<rparr>) = table_clear r"
  by (simp_all add: table_clear_def)

text \<open>An outcome is either a refusal that leaves the room as it was after dealing, or an
  accepted step.\<close>

lemma note_call_sel [simp]:
  "rm_players (note_call r p k) = rm_players r" "rm_id (note_call r p k) = rm_id r"
  "rm_action_count (note_call r p k) = rm_action_count r + 1"
  "rm_state (note_call r p k) = rm_state r"
  "rm_landlord (note_call r p k) = rm_landlord r"
  "rm_base_coin (note_call r p k) = rm_base_coin r"
  "rm_call_score (note_call r p k) = max k (rm_call_score r)"
  "rm_call_player (note_call r p k) = (if k > rm_call_score r then p else rm_call_player r)"
  "rm_version (note_call r p k) = rm_version r"
  "rm_action_seq (note_call r p k) = rm_action_seq r"
  "rm_hands (note_call r p k) = rm_hands r"
  "dealt_ok (note_call r p k) = dealt_ok r"
  "table_clear (note_call r p k) = table_clear r"
  by (simp_all add: note_call_def)

lemma end_calling_sel [simp]:
  "rm_players (end_calling r) = rm_players r" "rm_id (end_calling r) = rm_id r"
  "rm_action_count (end_calling r) = 0"
  "rm_state (end_calling r) = RobLandlord"
  "rm_landlord (end_calling r) = rm_landlord r"
  "rm_base_coin (end_calling r) = max 1 (rm_call_score r)"
  "rm_operator (end_calling r) = rm_call_player (end_calling r)"
  "rm_version (end_calling r) = rm_version r"
  "rm_action_seq (end_calling r) = rm_action_seq r"
  "rm_hands (end_calling r) = rm_hands r"
  "dealt_ok (end_calling r) = dealt_ok r"
  "table_clear (end_calling r) = table_clear r"
  by (simp_all add: end_calling_def Let_def)

lemma end_calling_caller:
  "rm_call_player (end_calling r) =
     (if rm_call_player r = 0 \<and> rm_players r \<noteq> [] then hd (rm_players r) else rm_call_player r)"
  by (simp add: end_calling_def Let_def)

lemma call_score_ok:
  assumes ok: "room_ok r" and st: "rm_state r = CallScore" and op: "rm_operator r = p"
  shows "room_ok (fst (call_score_action r p q))"
proof -
  have s: "seated (rm_players r)" and c: "calling_ok r" using ok st by (simp_all add: room_ok_def)
  obtain a b d where ps: "rm_players r = [a, b, d]" "a \<noteq> b" "a \<noteq> d" "b \<noteq> d" "a \<noteq> 0" "b \<noteq> 0" "d \<noteq> 0"
    using s by (rule seatedE)
  have cnt: "rm_action_count r = 0 \<or> rm_action_count r = 1 \<or> rm_action_count r = 2"
    using c by (auto simp: calling_ok_def)
  then have p: "p = (if rm_action_count r = 0 then a else if rm_action_count r = 1 then b else d)"
    using c op ps by (auto simp: calling_ok_def)
  consider (bad) "rq_type q \<noteq> ActCallScore \<or> rq_call_score q < 0 \<or> rq_call_score q > 3"
    | (last) "rq_type q = ActCallScore" "0 \<le> rq_call_score q" "rq_call_score q \<le> 3"
        "rq_call_score q = 3 \<or> rm_action_count r + 1 \<ge> 3"
    | (more) "rq_type q = ActCallScore" "0 \<le> rq_call_score q" "rq_call_score q < 3"
        "rm_action_count r + 1 < 3" by linarith
  then show ?thesis
  proof cases
    case bad
    then show ?thesis using ok by (auto simp: call_score_action_def)
  next
    case last
    then have "fst (call_score_action r p q) =
        BumpSnapshotVersion True (end_calling (note_call r p (rq_call_score q)))"
      by (auto simp: call_score_action_def Let_def num_players_def ps simp del: Bump_simp)
    moreover have "p \<noteq> 0" "p \<in> set (rm_players r)" using p ps by auto
    ultimately show ?thesis
      using c last(2,3) ps s
      by (auto simp: room_ok_def robbing_ok_def calling_ok_def end_calling_caller)
  next
    case more
    then have "fst (call_score_action r p q) = BumpSnapshotVersion True
        ((note_call r p (rq_call_score q))\<lparr>rm_operator := NextOperator (note_call r p (rq_call_score q)) p\<rparr>)"
      by (simp add: call_score_action_def Let_def num_players_def ps del: Bump_simp)
    moreover have "NextOperator (note_call r p (rq_call_score q)) p =
        rm_players r ! nat (rm_action_count r + 1)"
      using cnt more p ps by (auto simp: nat_add_distrib)
    moreover have "p \<noteq> 0" "p \<in> set (rm_players r)" using p ps by auto
    ultimately show ?thesis
      using c more s st by (auto simp: room_ok_def calling_ok_def)
  qed
qed

lemma note_rob_sel [simp]:
  "rm_players (note_rob r p k) = rm_players r" "rm_id (note_rob r p k) = rm_id r"
  "rm_action_count (note_rob r p k) = rm_action_count r + 1"
  "rm_state (note_rob r p k) = rm_state r"
  "rm_landlord (note_rob r p k) = (if k = 1 then p else rm_landlord r)"
  "rm_base_coin (note_rob r p k) = (if k = 1 then max 1 (rm_base_coin r) * 2 else rm_base_coin r)"
  "rm_call_player (note_rob r p k) = rm_call_player r"
  "rm_version (note_rob r p k) = rm_version r"
  "rm_action_seq (note_rob r p k) = rm_action_seq r"
  "rm_hands (note_rob r p k) = rm_hands r"
  "rm_bottom (note_rob r p k) = rm_bottom r"
  "dealt_ok (note_rob r p k) = dealt_ok r"
  "table_clear (note_rob r p k) = table_clear r"
  by (simp_all add: note_rob_def)

lemma choose_landlord_sel [simp]:
  "rm_players (choose_landlord r) = rm_players r" "rm_id (choose_landlord r) = rm_id r"
  "rm_action_count (choose_landlord r) = rm_action_count r"
  "rm_state (choose_landlord r) = rm_state r"
  "rm_base_coin (choose_landlord r) = rm_base_coin r"
  "rm_version (choose_landlord r) = rm_version r"
  "rm_action_seq (choose_landlord r) = rm_action_seq r"
  "rm_hands (choose_landlord r) = rm_hands r"
  "rm_bottom (choose_landlord r) = rm_bottom r"
  "dealt_ok (choose_landlord r) = dealt_ok r"
  "table_clear (choose_landlord r) = table_clear r"
  by (simp_all add: choose_landlord_def Let_def)

lemma choose_landlord_who:
  "rm_landlord (choose_landlord r) =
     (if rm_landlord r \<noteq> 0 then rm_landlord r
      else if rm_call_player r \<noteq> 0 then rm_call_player r
      else if rm_players r \<noteq> [] then hd (rm_players r) else 0)"
  by (auto simp: choose_landlord_def Let_def)

lemma dealt_ok_hand: "dealt_ok r \<Longrightarrow> p \<in> set (rm_players r) \<Longrightarrow> \<exists>h. rm_hands r p = Some h \<and> length h = 17"
  by (auto simp: dealt_ok_def list_all_iff split: option.splits)

lemma held_update:
  assumes "seated ps" "p \<in> set ps"
  shows "held ps (h(p \<mapsto> x)) + mset (get_or h p []) = held ps h + mset x"
  using assms by (elim seatedE) (auto simp: held_three)

lemma start_playing_ok:
  assumes "seated (rm_players r)" "dealt_ok r" "rm_landlord r \<in> set (rm_players r)"
    "rm_hands r (rm_landlord r) = Some hand" "1 \<le> rm_base_coin r" "rm_base_coin r \<le> 24"
  shows "playing_ok (start_playing r hand)"
proof -
  have "held (rm_players r) ((rm_hands r)(rm_landlord r \<mapsto> SortCards (hand @ rm_bottom r))) + mset hand
      = held (rm_players r) (rm_hands r) + mset (rm_bottom r) + mset hand"
    using held_update [OF assms(1,3), of "rm_hands r" "SortCards (hand @ rm_bottom r)"] assms(4)
    by (simp add: get_or_Some ac_simps)
  then have "held (rm_players r) ((rm_hands r)(rm_landlord r \<mapsto> SortCards (hand @ rm_bottom r)))
      = mset full_deck"
    using assms(2) by (simp add: dealt_ok_def)
  moreover have "length hand = 17" using dealt_ok_hand [OF assms(2,3)] assms(4) by simp
  moreover have "list_all (\<lambda>p. case rm_hands r p of None \<Rightarrow> False | Some h \<Rightarrow> h \<noteq> []) (rm_players r)"
    using dealt_ok_hand [OF assms(2)] by (fastforce simp: list_all_iff)
  ultimately show ?thesis
    using assms by (auto simp: playing_ok_def start_playing_def table_ok_def table_clear_def
        dealt_ok_def list_all_iff)
qed

lemma playing_ok_frame [simp]:
  "playing_ok (r\<lparr>rm_version := n\<rparr>) = playing_ok r"
  "playing_ok (r\<lparr>rm_action_seq := n\<rparr>) = playing_ok r"
  by (simp_all add: playing_ok_def table_ok_def table_clear_def)

lemma rob_ok:
  assumes ok: "room_ok r" and st: "rm_state r = RobLandlord" and op: "rm_operator r = p"
  shows "room_ok (fst (rob_action r p q))"
proof -
  have s: "seated (rm_players r)" and c: "robbing_ok r" using ok st by (simp_all add: room_ok_def)
  have len: "length (rm_players r) = 3" using s by (simp add: seated_def)
  have p: "p \<in> set (rm_players r)" and dealt: "dealt_ok r" and c0: "0 \<notin> set (rm_players r)"
    using c op s by (simp_all add: robbing_ok_def seated_def)
  let ?r1 = "note_rob r p (rq_rob q)"
  have base: "1 \<le> rm_base_coin ?r1"
    "rm_base_coin ?r1 \<le> 3 * 2 ^ nat (rm_action_count r + 1)"
    using c by (auto simp: robbing_ok_def nat_add_distrib)
  consider (bad) "rq_type q \<noteq> ActRobLandlord \<or> rq_rob q \<noteq> 0 \<and> rq_rob q \<noteq> 1"
    | (last) "rq_type q = ActRobLandlord" "rq_rob q = 0 \<or> rq_rob q = 1" "rm_action_count r + 1 \<ge> 3"
    | (more) "rq_type q = ActRobLandlord" "rq_rob q = 0 \<or> rq_rob q = 1" "rm_action_count r + 1 < 3"
    by linarith
  then show ?thesis
  proof cases
    case bad
    then show ?thesis using ok by (auto simp: rob_action_def)
  next
    case last
    let ?r2 = "choose_landlord ?r1"
    have l: "rm_landlord ?r2 \<in> set (rm_players r)"
      using c p c0 by (auto simp: choose_landlord_who robbing_ok_def)
    then obtain hand where h: "rm_hands r (rm_landlord ?r2) = Some hand"
      using dealt_ok_hand [OF dealt] by blast
    have "rm_action_count r = 2" using last(3) c by (simp add: robbing_ok_def)
    then have "playing_ok (start_playing ?r2 hand)"
      using s dealt l h base by (intro start_playing_ok) simp_all
    moreover have "fst (rob_action r p q) = BumpSnapshotVersion True (start_playing ?r2 hand)"
      using last len h by (auto simp: rob_action_def Let_def num_players_def simp del: Bump_simp)
    ultimately show ?thesis using s by (simp add: room_ok_def start_playing_def)
  next
    case more
    then have "fst (rob_action r p q) = BumpSnapshotVersion True (?r1\<lparr>rm_operator := NextOperator ?r1 p\<rparr>)"
      using len by (auto simp: rob_action_def Let_def num_players_def simp del: Bump_simp)
    moreover have "NextOperator ?r1 p \<in> set (rm_players r)"
      using next_operator_in s by simp
    ultimately show ?thesis
      using c more(3) s st base p by (auto simp: room_ok_def robbing_ok_def)
  qed
qed

lemma table_clear_playing: "table_clear r \<Longrightarrow> rm_last_cards r = []"
  by (simp add: table_clear_def)

lemma table_okE:
  assumes "table_ok r" "rm_last_cards r \<noteq> []"
  obtains (first) "rm_pass_count r = 0" "cc_valid (Analyze (rm_last_cards r))"
      "rm_last_player r \<in> set (rm_players r)"
      "rm_operator r = next_operator (rm_players r) (rm_last_player r)"
  | (second) "rm_pass_count r = 1" "cc_valid (Analyze (rm_last_cards r))"
      "rm_last_player r \<in> set (rm_players r)"
      "rm_operator r = next_operator (rm_players r) (next_operator (rm_players r) (rm_last_player r))"
  using assms by (auto simp: table_ok_def table_clear_def)

text \<open>While there are cards on the table, the player to move is not the one who played them.\<close>

lemma operator_not_last:
  assumes "table_ok r" "rm_last_cards r \<noteq> []" "seated (rm_players r)"
  shows "rm_operator r \<noteq> rm_last_player r"
  using assms(1,2)
  by (cases rule: table_okE)
    (use next_operator_ne [OF assms(3)] next_operator_ne2 [OF assms(3)] in metis)+

lemma pass_ok:
  assumes ok: "room_ok r" and st: "rm_state r = Playing" and op: "rm_operator r = p"
  shows "room_ok (fst (pass_action r p q))"
proof (cases "rq_cards q \<noteq> [] \<or> rm_last_cards r = [] \<or> rm_last_player r = p")
  case True
  then show ?thesis using ok by (auto simp: pass_action_def)
next
  case False
  have s: "seated (rm_players r)" and c: "playing_ok r" using ok st by (simp_all add: room_ok_def)
  then have len: "num_players r = 3" by (simp add: num_players_def seated_def)
  have t: "table_ok r" using c by (simp add: playing_ok_def)
  have "rm_last_cards r \<noteq> []" using False by simp
  with t show ?thesis
  proof (cases rule: table_okE)
    case first
    then have "fst (pass_action r p q) = BumpSnapshotVersion True
        (r\<lparr>rm_pass_count := 1, rm_operator := next_operator (rm_players r) p\<rparr>)"
      using False len by (simp add: pass_action_def Let_def num_players_def)
    then show ?thesis
      using first c s st op False next_operator_in [OF s]
      by (simp add: room_ok_def playing_ok_def table_ok_def table_clear_def)
  next
    case second
    then have "fst (pass_action r p q) = BumpSnapshotVersion True
        (clear_table (r\<lparr>rm_pass_count := 2\<rparr>))"
      using False len by (simp add: pass_action_def Let_def num_players_def)
    then show ?thesis
      using second c s st
      by (simp add: room_ok_def playing_ok_def table_ok_def table_clear_def clear_table_def)
  qed
qed

lemma Analyze_not_Nil: "cc_valid (Analyze cards) \<Longrightarrow> cards \<noteq> []"
  by auto

lemma get_or_in_held: "seated ps \<Longrightarrow> p \<in> set ps \<Longrightarrow> mset (get_or h p []) \<subseteq># held ps h"
  by (elim seatedE) (auto simp: held_three ac_simps intro: subset_mset.add_increasing2)

text \<open>What an accepted play does to the cards: they leave the player's hand, and nothing else
  changes hands.\<close>

lemma put_cards_held:
  assumes "seated ps" "p \<in> set ps" "h p = Some hand" "RemoveCards hand cards = Some hand'"
  shows "held ps (h(p \<mapsto> hand')) + mset cards = held ps h"
proof -
  have "mset cards \<subseteq># mset hand" "mset hand' = mset hand - mset cards"
    using RemoveCards_Some [OF assms(4)] by auto
  then have "mset hand' + mset cards = mset hand" by simp
  moreover have "held ps (h(p \<mapsto> hand')) + mset hand = held ps h + mset hand'"
    using held_update [OF assms(1,2), of h hand'] assms(3) by (simp add: get_or_Some)
  ultimately have "held ps (h(p \<mapsto> hand')) + mset cards + mset hand = held ps h + mset hand"
    by (metis (no_types, lifting) add.assoc add.commute)
  then show ?thesis by simp
qed

lemma play_cases:
  assumes "snd (play_action r p q) = Inr res"
  obtains hand hand' where "rq_cards q \<noteq> []" "rm_hands r p = Some hand"
    "cc_valid (Analyze (rq_cards q))"
    "rm_last_cards r \<noteq> [] \<Longrightarrow> rm_last_player r \<noteq> p \<Longrightarrow>
       CanBeat (Analyze (rq_cards q)) (Analyze (rm_last_cards r))"
    "RemoveCards hand (rq_cards q) = Some hand'"
    "play_action r p q = (let r1 = put_cards r p (rq_cards q) hand' in
       if hand' = [] then win_game r1 p else accepted (r1\<lparr>rm_operator := NextOperator r1 p\<rparr>))"
  using assms unfolding play_action_def
  by (auto split: if_splits option.splits simp del: NextOperator_def)

lemma refusal_keeps:
  "snd (play_action r p q) = Inl e \<Longrightarrow> fst (play_action r p q) = r"
  "snd (pass_action r p q) = Inl e \<Longrightarrow> fst (pass_action r p q) = r"
  "snd (call_score_action r p q) = Inl e \<Longrightarrow> fst (call_score_action r p q) = r"
  by (auto simp: play_action_def pass_action_def call_score_action_def Let_def win_game_def
      split: if_splits option.splits)

lemma put_cards_sel [simp]:
  "rm_players (put_cards r p cs h) = rm_players r" "rm_id (put_cards r p cs h) = rm_id r"
  "rm_base_coin (put_cards r p cs h) = rm_base_coin r"
  "rm_state (put_cards r p cs h) = rm_state r" "rm_landlord (put_cards r p cs h) = rm_landlord r"
  "rm_hands (put_cards r p cs h) = (rm_hands r)(p \<mapsto> h)" "rm_last_cards (put_cards r p cs h) = cs"
  "rm_last_player (put_cards r p cs h) = p" "rm_pass_count (put_cards r p cs h) = 0"
  "rm_version (put_cards r p cs h) = rm_version r" "rm_dealt (put_cards r p cs h) = rm_dealt r"
  "rm_action_seq (put_cards r p cs h) = rm_action_seq r"
  by (simp_all add: put_cards_def)

lemma play_ok:
  assumes ok: "room_ok r" and st: "rm_state r = Playing" and op: "rm_operator r = p"
  shows "room_ok (fst (play_action r p q))"
proof (cases "snd (play_action r p q)")
  case (Inl e)
  then show ?thesis using ok refusal_keeps(1) by metis
next
  case (Inr res)
  have s: "seated (rm_players r)" and c: "playing_ok r" using ok st by (simp_all add: room_ok_def)
  have p: "p \<in> set (rm_players r)" using c op by (simp add: playing_ok_def)
  from Inr show ?thesis
  proof (cases rule: play_cases)
    case (1 hand hand')
    let ?r1 = "put_cards r p (rq_cards q) hand'"
    show ?thesis
    proof (cases "hand' = []")
      case True
      then show ?thesis using 1(6) s by (simp add: win_game_def room_ok_def Let_def)
    next
      case False
      have "held (rm_players r) (rm_hands ?r1) \<subseteq># held (rm_players r) (rm_hands r)"
        using put_cards_held [OF s p, of "rm_hands r", OF 1(2,5)] by (metis mset_subset_eq_add_left put_cards_sel(6))
      then have "held (rm_players r) (rm_hands ?r1) \<subseteq># mset full_deck"
        using c unfolding playing_ok_def by (meson subset_mset.trans)
      moreover have "fst (play_action r p q) =
          BumpSnapshotVersion True (?r1\<lparr>rm_operator := next_operator (rm_players r) p\<rparr>)"
        using 1(6) False by simp
      ultimately show ?thesis
        using c s st p 1(3) False next_operator_in [OF s]
        by (simp add: room_ok_def playing_ok_def table_ok_def list_all_iff)
    qed
  qed
qed

lemma apply_action_ok:
  assumes "is_shuffle shuf" "room_ok r"
  shows "room_ok (fst (apply_action shuf r p q))"
proof -
  let ?r = "start_if_waiting shuf r"
  have ok: "room_ok ?r" by (rule start_if_waiting_ok [OF assms])
  show ?thesis
    using call_score_ok [OF ok] rob_ok [OF ok] pass_ok [OF ok] play_ok [OF ok] ok assms(2)
    by (simp add: apply_action_def dispatch_action_def)
qed

subsection \<open>Boundedness and progress\<close>

text \<open>A machine whose accepted inputs keep an invariant and decrease a measure: its runs are
  bounded; and if an automatic player can always move until the machine is final, repeating it
  ends in a final state.\<close>

locale bounded_machine =
  fixes step :: "'s \<Rightarrow> 'i \<Rightarrow> 's option" and auto_step :: "'s \<Rightarrow> 's option"
    and inv :: "'s \<Rightarrow> bool" and mu :: "'s \<Rightarrow> nat" and final :: "'s \<Rightarrow> bool"
  assumes step_inv: "inv s \<Longrightarrow> step s i = Some s' \<Longrightarrow> inv s'"
    and step_less: "inv s \<Longrightarrow> step s i = Some s' \<Longrightarrow> mu s' < mu s"
    and auto_is_step: "auto_step s = Some s' \<Longrightarrow> \<exists>i. step s i = Some s'"
    and auto_moves: "inv s \<Longrightarrow> \<not> final s \<Longrightarrow> auto_step s \<noteq> None"
begin

fun run_steps :: "'s \<Rightarrow> 'i list \<Rightarrow> 's option" where
  "run_steps s [] = Some s"
| "run_steps s (i # xs) = (case step s i of None \<Rightarrow> None | Some s' \<Rightarrow> run_steps s' xs)"

fun play_out :: "nat \<Rightarrow> 's \<Rightarrow> 's" where
  "play_out 0 s = s"
| "play_out (Suc n) s =
     (if final s then s else case auto_step s of None \<Rightarrow> s | Some s' \<Rightarrow> play_out n s')"

lemma run_steps_bound: "inv s \<Longrightarrow> run_steps s xs = Some s' \<Longrightarrow> length xs + mu s' \<le> mu s \<and> inv s'"
proof (induction xs arbitrary: s)
  case (Cons i xs)
  then obtain t where t: "step s i = Some t" "run_steps t xs = Some s'"
    by (auto split: option.splits)
  then show ?case
    using Cons.IH [OF step_inv [OF Cons.prems(1) t(1)] t(2)] step_less [OF Cons.prems(1) t(1)] by auto
qed simp

lemma run_steps_length: "inv s \<Longrightarrow> run_steps s xs = Some s' \<Longrightarrow> length xs \<le> mu s"
  using run_steps_bound [of s xs s'] by simp

lemma play_out_final: "inv s \<Longrightarrow> mu s \<le> n \<Longrightarrow> final (play_out n s)"
proof (induction n arbitrary: s)
  case 0
  show ?case
  proof (rule ccontr)
    assume "\<not> final (play_out 0 s)"
    then obtain s' i where "step s i = Some s'" using auto_moves [OF 0(1)] auto_is_step by fastforce
    then show False using step_less [OF 0(1)] 0(2) by force
  qed
next
  case (Suc n)
  show ?case
  proof (cases "final s")
    case False
    then obtain s' where s': "auto_step s = Some s'" using auto_moves [OF Suc(2)] by auto
    then obtain i where i: "step s i = Some s'" using auto_is_step by blast
    have "inv s'" "mu s' \<le> n" using step_inv [OF Suc(2) i] step_less [OF Suc(2) i] Suc(3) by auto
    then show ?thesis using Suc.IH False s' by simp
  qed simp
qed

end

text \<open>The measure of a room: what is left to call and to rob, then three per card still held,
  less what the passes on the table have used up.\<close>

definition cards_left :: "room \<Rightarrow> nat" where
  "cards_left r = size (held (rm_players r) (rm_hands r))"

definition room_measure :: "room \<Rightarrow> nat" where
  "room_measure r =
     (case rm_state r of
        WaitStart \<Rightarrow> 168
      | CallScore \<Rightarrow> 168 - nat (rm_action_count r)
      | RobLandlord \<Rightarrow> 165 - nat (rm_action_count r)
      | Playing \<Rightarrow> 3 * cards_left r + (if rm_last_cards r = [] then 0 else 2 - nat (rm_pass_count r))
      | _ \<Rightarrow> 0)"

lemma room_measure_frame [simp]:
  "room_measure (r\<lparr>rm_version := n\<rparr>) = room_measure r"
  "room_measure (r\<lparr>rm_action_seq := n\<rparr>) = room_measure r"
  by (simp_all add: room_measure_def cards_left_def split: room_state.split)

definition accepts :: "(64 word \<Rightarrow> card list \<Rightarrow> card list) \<Rightarrow> room \<Rightarrow> player_id \<times> action_request \<Rightarrow> room option" where
  "accepts shuf r pq = (case apply_action shuf r (fst pq) (snd pq) of
       (r', Inr _) \<Rightarrow> Some r' | (r', Inl _) \<Rightarrow> None)"

definition trustee_moves :: "(64 word \<Rightarrow> card list \<Rightarrow> card list) \<Rightarrow> room \<Rightarrow> room option" where
  "trustee_moves shuf r = (case trustee_request r (rm_operator r) of
       Inl _ \<Rightarrow> None | Inr q \<Rightarrow> accepts shuf r (rm_operator r, q))"

lemma cards_left_le: "playing_ok r \<Longrightarrow> cards_left r \<le> 54"
  using size_mset_mono [of "held (rm_players r) (rm_hands r)" "mset full_deck"]
  by (simp add: playing_ok_def cards_left_def length_full_deck)

text \<open>The possible outcomes of an accepted action, one rule per phase.\<close>

lemma call_score_accepted:
  assumes "snd (call_score_action r p q) = Inr res"
  shows "rq_type q = ActCallScore \<and> 0 \<le> rq_call_score q \<and> rq_call_score q \<le> 3 \<and>
    call_score_action r p q =
      (let r1 = note_call r p (rq_call_score q) in
       if rq_call_score q = 3 \<or> rm_action_count r + 1 \<ge> num_players r
       then accepted (end_calling r1) else accepted (r1\<lparr>rm_operator := NextOperator r1 p\<rparr>))"
  using assms
  by (auto simp: call_score_action_def Let_def num_players_def simp del: NextOperator_def split: if_splits)

lemma rob_accepted:
  assumes "snd (rob_action r p q) = Inr res"
  obtains "rq_type q = ActRobLandlord" "rq_rob q = 0 \<or> rq_rob q = 1"
    "rm_action_count r + 1 < num_players r"
    "rob_action r p q = accepted ((note_rob r p (rq_rob q))\<lparr>rm_operator := NextOperator r p\<rparr>)"
  | hand where "rq_type q = ActRobLandlord" "rq_rob q = 0 \<or> rq_rob q = 1"
    "rm_action_count r + 1 \<ge> num_players r"
    "rm_hands r (rm_landlord (choose_landlord (note_rob r p (rq_rob q)))) = Some hand"
    "rob_action r p q = accepted (start_playing (choose_landlord (note_rob r p (rq_rob q))) hand)"
  using assms unfolding rob_action_def num_players_def
  by (simp add: Let_def not_le split: if_splits option.splits; blast)

lemma pass_accepted:
  assumes "snd (pass_action r p q) = Inr res"
  shows "rq_cards q = [] \<and> rm_last_cards r \<noteq> [] \<and> rm_last_player r \<noteq> p \<and>
    pass_action r p q =
      (let r1 = r\<lparr>rm_pass_count := rm_pass_count r + 1\<rparr> in
       if rm_pass_count r + 1 \<ge> num_players r - 1 then accepted (clear_table r1)
       else accepted (r1\<lparr>rm_operator := NextOperator r1 p\<rparr>))"
  using assms by (auto simp: pass_action_def Let_def num_players_def simp del: NextOperator_def split: if_splits)

lemma call_score_less:
  assumes "snd (call_score_action r p q) = Inr res" "rm_state r = CallScore" "room_ok r"
  shows "room_measure (fst (call_score_action r p q)) < room_measure r"
proof -
  have "num_players r = 3" "0 \<le> rm_action_count r" "rm_action_count r < 3"
    using assms(2,3) by (auto simp: room_ok_def calling_ok_def num_players_def seated_def)
  then show ?thesis
    using call_score_accepted [OF assms(1)] assms(2) by (auto simp: room_measure_def Let_def)
qed

lemma start_playing_cards:
  assumes "playing_ok (start_playing r hand)"
  shows "room_measure (start_playing r hand) \<le> 162"
  using cards_left_le [OF assms] by (simp add: room_measure_def start_playing_def)

lemma rob_less:
  assumes "snd (rob_action r p q) = Inr res" "rm_state r = RobLandlord" "room_ok r"
    "rm_operator r = p"
  shows "room_measure (fst (rob_action r p q)) < room_measure r"
proof -
  have n: "num_players r = 3" "0 \<le> rm_action_count r" "rm_action_count r < 3"
    using assms(2,3) by (auto simp: room_ok_def robbing_ok_def num_players_def seated_def)
  have ok: "room_ok (fst (rob_action r p q))" by (rule rob_ok [OF assms(3,2,4)])
  from assms(1) show ?thesis
  proof (cases rule: rob_accepted)
    case 1
    then show ?thesis using n assms(2) by (simp add: room_measure_def)
  next
    case (2 hand)
    let ?s = "start_playing (choose_landlord (note_rob r p (rq_rob q))) hand"
    have "rm_state ?s = Playing" by (simp add: start_playing_def)
    then have "playing_ok ?s" using ok 2(5) by (simp add: room_ok_def)
    then have "room_measure ?s \<le> 162" by (rule start_playing_cards)
    moreover have "room_measure (fst (rob_action r p q)) = room_measure ?s"
      by (simp add: 2(5))
    moreover have "163 \<le> room_measure r" using n assms(2) by (simp add: room_measure_def)
    ultimately show ?thesis by linarith
  qed
qed

lemma pass_less:
  assumes "snd (pass_action r p q) = Inr res" "rm_state r = Playing" "room_ok r"
    "rm_operator r = p"
  shows "room_measure (fst (pass_action r p q)) < room_measure r"
proof -
  have n: "num_players r = 3" and t: "table_ok r"
    using assms(2,3) by (auto simp: room_ok_def playing_ok_def num_players_def seated_def)
  note a = pass_accepted [OF assms(1)]
  then have "rm_last_cards r \<noteq> []" by simp
  with t have "rm_pass_count r = 0 \<or> rm_pass_count r = 1" by (cases rule: table_okE) auto
  then show ?thesis
    using a n assms(2) by (auto simp: room_measure_def Let_def clear_table_def cards_left_def)
qed

lemma play_less:
  assumes "snd (play_action r p q) = Inr res" "rm_state r = Playing" "room_ok r"
    "rm_operator r = p"
  shows "room_measure (fst (play_action r p q)) < room_measure r"
proof -
  have s: "seated (rm_players r)" and c: "playing_ok r" using assms(2,3) by (simp_all add: room_ok_def)
  have p: "p \<in> set (rm_players r)" using c assms(4) by (simp add: playing_ok_def)
  from assms(1) show ?thesis
  proof (cases rule: play_cases)
    case (1 hand hand')
    let ?r1 = "put_cards r p (rq_cards q) hand'"
    have "size (held (rm_players r) (rm_hands ?r1)) + length (rq_cards q) = cards_left r"
      using arg_cong [OF put_cards_held [OF s p, of "rm_hands r", OF 1(2,5)], of size]
      by (simp add: cards_left_def)
    then have "cards_left ?r1 < cards_left r" using 1(1) by (cases "rq_cards q") (simp_all add: cards_left_def)
    then show ?thesis
      using 1(1,6) assms(2) by (auto simp: room_measure_def Let_def win_game_def cards_left_def)
  qed
qed

text \<open>The actions of a room as a whole.\<close>

lemma apply_accepted:
  assumes "snd (apply_action shuf r0 p q) = Inr res"
  obtains r where "r = start_if_waiting shuf r0" "p \<in> set (rm_players r0)" "rm_operator r0 = p"
    "rm_state r0 \<noteq> Settling" "rm_state r0 \<noteq> Finished"
    "rm_state r = CallScore \<and> apply_action shuf r0 p q = call_score_action r p q \<or>
     rm_state r = RobLandlord \<and> apply_action shuf r0 p q = rob_action r p q \<or>
     rm_state r = Playing \<and> rq_type q = ActPass \<and> apply_action shuf r0 p q = pass_action r p q \<or>
     rm_state r = Playing \<and> rq_type q = ActPlayCards \<and> apply_action shuf r0 p q = play_action r p q"
  using assms by (force simp: apply_action_def dispatch_action_def split: if_splits)

lemma start_if_waiting_measure:
  "room_ok r \<Longrightarrow> room_measure (start_if_waiting shuf r) = room_measure r"
  by (auto simp: start_if_waiting_def room_measure_def room_ok_def waiting_ok_def)

lemma apply_less:
  assumes "is_shuffle shuf" "room_ok r0" "snd (apply_action shuf r0 p q) = Inr res"
  shows "room_measure (fst (apply_action shuf r0 p q)) < room_measure r0"
proof -
  from assms(3) obtain r where r: "r = start_if_waiting shuf r0" "rm_operator r0 = p"
    and cases: "rm_state r = CallScore \<and> apply_action shuf r0 p q = call_score_action r p q \<or>
     rm_state r = RobLandlord \<and> apply_action shuf r0 p q = rob_action r p q \<or>
     rm_state r = Playing \<and> rq_type q = ActPass \<and> apply_action shuf r0 p q = pass_action r p q \<or>
     rm_state r = Playing \<and> rq_type q = ActPlayCards \<and> apply_action shuf r0 p q = play_action r p q"
    by (rule apply_accepted)
  have ok: "room_ok r" using start_if_waiting_ok [OF assms(1,2)] r(1) by simp
  have op: "rm_operator r = p" using r by simp
  have m: "room_measure r = room_measure r0" using start_if_waiting_measure [OF assms(2)] r(1) by simp
  from cases assms(3) show ?thesis
    using call_score_less [of r p q res] rob_less [of r p q res] pass_less [of r p q res]
      play_less [of r p q res] ok op m by auto
qed

lemma accepts_Some:
  "accepts shuf r (p, q) = Some r' \<longleftrightarrow> (\<exists>res. apply_action shuf r p q = (r', Inr res))"
  by (auto simp: accepts_def split: prod.splits sum.splits)

text \<open>The trustee's request is always legal.\<close>

lemma Analyze_single: "0 \<le> c \<Longrightarrow> c \<le> 53 \<Longrightarrow> cc_valid (Analyze [c])"
  using Analyze_shape_valid [of "[c]" Single "CardRank c"] by simp

lemma held_cards_range:
  assumes "playing_ok r" "seated (rm_players r)" "p \<in> set (rm_players r)" "rm_hands r p = Some hand"
    "c \<in> set hand"
  shows "0 \<le> c \<and> c \<le> 53"
proof -
  have "mset hand \<subseteq># held (rm_players r) (rm_hands r)"
    using get_or_in_held [OF assms(2,3), of "rm_hands r"] assms(4) by (simp add: get_or_Some)
  then have "mset hand \<subseteq># mset full_deck"
    using assms(1) unfolding playing_ok_def by (meson subset_mset.trans)
  then have "c \<in># mset full_deck" using assms(5) by (meson mset_subset_eqD set_mset_mset in_multiset_in_set)
  then show ?thesis by (simp add: full_deck_def)
qed

lemma call_score_accepts:
  "rq_type q = ActCallScore \<Longrightarrow> 0 \<le> rq_call_score q \<Longrightarrow> rq_call_score q \<le> 3 \<Longrightarrow>
   \<exists>res. snd (call_score_action r p q) = Inr res"
  by (auto simp: call_score_action_def Let_def accepted_def simp del: Bump_simp)

lemma rob_accepts:
  assumes "rq_type q = ActRobLandlord" "rq_rob q = 0 \<or> rq_rob q = 1" "room_ok r"
    "rm_state r = RobLandlord" "rm_operator r = p"
  shows "\<exists>res. snd (rob_action r p q) = Inr res"
proof -
  have s: "seated (rm_players r)" and c: "robbing_ok r" using assms(3,4) by (simp_all add: room_ok_def)
  have c0: "0 \<notin> set (rm_players r)" using s by (simp add: seated_def)
  have "rm_landlord (choose_landlord (note_rob r p (rq_rob q))) \<in> set (rm_players r)"
    using c assms(5) c0 by (auto simp: choose_landlord_who robbing_ok_def)
  then obtain hand where "rm_hands r (rm_landlord (choose_landlord (note_rob r p (rq_rob q)))) = Some hand"
    using dealt_ok_hand [of r] c by (auto simp: robbing_ok_def)
  then show ?thesis
    using assms(1,2) by (auto simp: rob_action_def Let_def accepted_def simp del: Bump_simp)
qed

lemma pass_accepts:
  "rq_cards q = [] \<Longrightarrow> rm_last_cards r \<noteq> [] \<Longrightarrow> rm_last_player r \<noteq> p \<Longrightarrow>
   \<exists>res. snd (pass_action r p q) = Inr res"
  by (auto simp: pass_action_def Let_def accepted_def simp del: Bump_simp)

lemma play_accepts:
  assumes "rm_hands r p = Some hand" "cc_valid (Analyze (rq_cards q))"
    "rm_last_cards r = [] \<or> rm_last_player r = p \<or>
     CanBeat (Analyze (rq_cards q)) (Analyze (rm_last_cards r))"
    "mset (rq_cards q) \<subseteq># mset hand"
  shows "\<exists>res. snd (play_action r p q) = Inr res"
proof -
  have "rq_cards q \<noteq> []" using assms(2) Analyze_not_Nil by blast
  then show ?thesis
    using assms
    by (auto simp: play_action_def RemoveCards_iff Let_def accepted_def win_game_def simp del: Bump_simp)
qed

lemma trustee_request_phase:
  "rm_state r = CallScore \<Longrightarrow> trustee_request r (rm_operator r) =
     Inr (empty_request\<lparr>rq_type := ActCallScore, rq_call_score := 0\<rparr>)"
  "rm_state r = RobLandlord \<Longrightarrow> trustee_request r (rm_operator r) =
     Inr (empty_request\<lparr>rq_type := ActRobLandlord, rq_rob := 0\<rparr>)"
  by (simp_all add: trustee_request_def)

text \<open>In play the trustee leads its first card, beats the table with its first single card that
  does, or passes.\<close>

lemma trustee_request_play:
  assumes "room_ok r" "rm_state r = Playing"
  obtains q where "trustee_request r (rm_operator r) = Inr q" "rq_type q = ActPlayCards"
      "\<exists>res. snd (play_action r (rm_operator r) q) = Inr res"
  | q where "trustee_request r (rm_operator r) = Inr q" "rq_type q = ActPass"
      "\<exists>res. snd (pass_action r (rm_operator r) q) = Inr res"
proof -
  let ?p = "rm_operator r"
  have s: "seated (rm_players r)" and c: "playing_ok r" using assms by (simp_all add: room_ok_def)
  have p: "?p \<in> set (rm_players r)" and t: "table_ok r" using c by (simp_all add: playing_ok_def)
  obtain hand where hand: "rm_hands r ?p = Some hand" "hand \<noteq> []"
    using c p by (auto simp: playing_ok_def list_all_iff split: option.splits)
  have valid: "cc_valid (Analyze [x])" if "x \<in> set hand" for x
    using held_cards_range [OF c s p hand(1) that] Analyze_single by blast
  show ?thesis
  proof (cases "rm_last_cards r = []")
    case True
    obtain x xs where x: "hand = x # xs" using hand(2) by (cases hand) auto
    let ?q = "empty_request\<lparr>rq_type := ActPlayCards, rq_cards := [x]\<rparr>"
    have "\<exists>res. snd (play_action r ?p ?q) = Inr res"
      using True valid x by (intro play_accepts [OF hand(1)]) (auto simp: x)
    then show ?thesis
      using True assms(2) hand(1) x by (intro that(1) [of ?q]) (simp_all add: trustee_request_def)
  next
    case False
    have ne: "rm_last_player r \<noteq> ?p" using operator_not_last [OF t False s] by simp
    let ?prev = "Analyze (rm_last_cards r)"
    let ?P = "\<lambda>x. cc_valid (Analyze [x]) \<and> CanBeat (Analyze [x]) ?prev"
    show ?thesis
    proof (cases "find ?P hand")
      case None
      let ?q = "empty_request\<lparr>rq_type := ActPass\<rparr>"
      have "\<exists>res. snd (pass_action r ?p ?q) = Inr res"
        using False ne by (intro pass_accepts) (simp_all add: empty_request_def)
      then show ?thesis
        using None False ne assms(2) hand(1)
        by (intro that(2) [of ?q]) (simp_all add: trustee_request_def get_or_Some Let_def)
    next
      case (Some x)
      let ?q = "empty_request\<lparr>rq_type := ActPlayCards, rq_cards := [x]\<rparr>"
      have x: "x \<in> set hand" "?P x" using Some by (auto simp: find_Some_iff)
      have "\<exists>res. snd (play_action r ?p ?q) = Inr res"
        using x by (intro play_accepts [OF hand(1)]) simp_all
      then show ?thesis
        using Some False ne assms(2) hand(1)
        by (intro that(1) [of ?q]) (simp_all add: trustee_request_def get_or_Some Let_def)
    qed
  qed
qed

lemma trustee_progress:
  assumes "is_shuffle shuf" "room_ok r" "rm_state r \<in> {CallScore, RobLandlord, Playing}"
  shows "\<exists>q r' res. trustee_request r (rm_operator r) = Inr q \<and>
    apply_action shuf r (rm_operator r) q = (r', Inr res)"
proof -
  let ?p = "rm_operator r"
  have s: "seated (rm_players r)" using assms(2) by (simp add: room_ok_def)
  have nw: "start_if_waiting shuf r = r" using assms(3) by (auto simp: start_if_waiting_def)
  have call: "rm_players r ! nat n \<in> set (rm_players r)" if "0 \<le> n" "n < 3" for n
    using that s by (intro nth_mem) (simp add: seated_def nat_less_iff)
  have p: "?p \<in> set (rm_players r)"
    using assms(2,3) call [of "rm_action_count r"]
    by (auto simp: room_ok_def calling_ok_def robbing_ok_def playing_ok_def)
  have "\<exists>q res. trustee_request r ?p = Inr q \<and> snd (apply_action shuf r ?p q) = Inr res"
  proof -
    consider "rm_state r = CallScore" | "rm_state r = RobLandlord" | "rm_state r = Playing"
      using assms(3) by blast
    then show ?thesis
    proof cases
      case 1
      then show ?thesis
        using call_score_accepts [of "empty_request\<lparr>rq_type := ActCallScore, rq_call_score := 0\<rparr>" r ?p]
          trustee_request_phase(1) p nw by (simp add: apply_action_def dispatch_action_def)
    next
      case 2
      then show ?thesis
        using rob_accepts [of "empty_request\<lparr>rq_type := ActRobLandlord, rq_rob := 0\<rparr>" r ?p]
          trustee_request_phase(2) assms(2) p nw by (simp add: apply_action_def dispatch_action_def)
    next
      case 3
      from assms(2) 3 show ?thesis
      proof (cases rule: trustee_request_play)
        case (1 q)
        then show ?thesis using 3 p nw by (simp add: apply_action_def dispatch_action_def)
      next
        case (2 q)
        then show ?thesis using 3 p nw by (simp add: apply_action_def dispatch_action_def)
      qed
    qed
  qed
  then show ?thesis by (metis prod.collapse)
qed

definition game_ended :: "room \<Rightarrow> bool" where
  "game_ended r \<longleftrightarrow> rm_state r = Settling \<or> rm_state r = Finished"

text \<open>The game as a bounded machine: the inputs are the accepted actions of any player, the
  automatic player is the trustee. A trustee acts from the first call on, so the machine is
  also final while the room waits for its first action.\<close>

interpretation game: bounded_machine "accepts shuf" "trustee_moves shuf"
    "\<lambda>r. is_shuffle shuf \<and> room_ok r" room_measure "\<lambda>r. game_ended r \<or> rm_state r = WaitStart"
  for shuf
proof (unfold_locales, goal_cases)
  case (1 r i r')
  then show ?case using apply_action_ok [of shuf r "fst i" "snd i"]
    by (cases i) (auto simp: accepts_Some)
next
  case (2 r i r')
  then show ?case using apply_less [of shuf r "fst i" "snd i"]
    by (cases i) (auto simp: accepts_Some)
next
  case (3 r r')
  then show ?case by (auto simp: trustee_moves_def split: sum.splits)
next
  case (4 r)
  then have "rm_state r \<in> {CallScore, RobLandlord, Playing}"
    by (cases "rm_state r") (auto simp: game_ended_def)
  then obtain q r' res where "trustee_request r (rm_operator r) = Inr q"
    "apply_action shuf r (rm_operator r) q = (r', Inr res)" using 4 trustee_progress by blast
  then show ?case by (simp add: trustee_moves_def accepts_def)
qed

subsection \<open>Outcomes of an action\<close>

text \<open>Versions, phases and refusals.\<close>

definition outcome_ok :: "room \<Rightarrow> action_outcome \<Rightarrow> bool" where
  "outcome_ok r out \<longleftrightarrow>
     (case out of
        (r', Inl _) \<Rightarrow> r' = r
      | (r', Inr res) \<Rightarrow>
          rm_version r' = rm_version r + 1 \<and> rm_action_seq r' = rm_action_seq r + 1 \<and>
          rm_players r' = rm_players r \<and> rm_id r' = rm_id r \<and>
          ar_snapshot res = MakeSnapshot r')"

lemma outcome_ok_intros [inv_intros]:
  "outcome_ok r (refused r e)"
  "rm_version r' = rm_version r \<Longrightarrow> rm_action_seq r' = rm_action_seq r \<Longrightarrow>
     rm_players r' = rm_players r \<Longrightarrow> rm_id r' = rm_id r \<Longrightarrow> outcome_ok r (accepted r')"
  "rm_version r' = rm_version r \<Longrightarrow> rm_action_seq r' = rm_action_seq r \<Longrightarrow>
     rm_players r' = rm_players r \<Longrightarrow> rm_id r' = rm_id r \<Longrightarrow> outcome_ok r (win_game r' p)"
  by (simp_all add: outcome_ok_def refused_def accepted_def win_game_def Let_def)

lemma call_score_outcome: "outcome_ok r (call_score_action r p q)"
  by (auto simp: call_score_action_def Let_def intro!: inv_intros)

lemma pass_outcome: "outcome_ok r (pass_action r p q)"
  by (auto simp: pass_action_def Let_def clear_table_def intro!: inv_intros)

lemma play_outcome: "outcome_ok r (play_action r p q)"
  by (auto simp: play_action_def Let_def intro!: inv_intros split: option.split)

lemma rob_outcome:
  assumes "room_ok r" "rm_state r = RobLandlord" "rm_operator r = p"
  shows "outcome_ok r (rob_action r p q)"
proof (cases "rq_type q = ActRobLandlord \<and> (rq_rob q = 0 \<or> rq_rob q = 1)")
  case True
  then obtain res where "snd (rob_action r p q) = Inr res" using rob_accepts assms by blast
  then show ?thesis
    by (cases rule: rob_accepted) (auto simp: start_playing_def intro!: inv_intros)
next
  case False
  then show ?thesis by (auto simp: rob_action_def intro!: inv_intros)
qed

lemma dispatch_disj:
  "rm_state r = CallScore \<and> dispatch_action r p q = call_score_action r p q \<or>
   rm_state r = RobLandlord \<and> dispatch_action r p q = rob_action r p q \<or>
   rm_state r = Playing \<and> rq_type q = ActPass \<and> dispatch_action r p q = pass_action r p q \<or>
   rm_state r = Playing \<and> rq_type q = ActPlayCards \<and> dispatch_action r p q = play_action r p q \<or>
   (\<exists>e. dispatch_action r p q = refused r e)"
  by (cases "rm_state r"; cases "rq_type q"; simp add: dispatch_action_def; blast)

lemma apply_cases:
  obtains (early) e where "apply_action shuf r0 p q = refused r0 e"
  | (late) e where "apply_action shuf r0 p q = refused (start_if_waiting shuf r0) e"
  | (call) "apply_action shuf r0 p q = call_score_action (start_if_waiting shuf r0) p q"
      "rm_operator r0 = p" "rm_state (start_if_waiting shuf r0) = CallScore"
  | (rob) "apply_action shuf r0 p q = rob_action (start_if_waiting shuf r0) p q"
      "rm_operator r0 = p" "rm_state (start_if_waiting shuf r0) = RobLandlord"
  | (pass) "apply_action shuf r0 p q = pass_action (start_if_waiting shuf r0) p q"
      "rm_operator r0 = p" "rm_state (start_if_waiting shuf r0) = Playing" "rq_type q = ActPass"
  | (play) "apply_action shuf r0 p q = play_action (start_if_waiting shuf r0) p q"
      "rm_operator r0 = p" "rm_state (start_if_waiting shuf r0) = Playing" "rq_type q = ActPlayCards"
proof -
  let ?r = "start_if_waiting shuf r0"
  consider e where "apply_action shuf r0 p q = refused r0 e"
    | (go) "apply_action shuf r0 p q = dispatch_action ?r p q" "rm_operator r0 = p"
    unfolding apply_action_def by metis
  then show ?thesis
  proof cases
    case go
    then show ?thesis using that(2-6) dispatch_disj [of ?r p q] by metis
  qed (rule early)
qed

lemma apply_outcome:
  assumes "is_shuffle shuf" "room_ok r0"
  shows "outcome_ok r0 (apply_action shuf r0 p q) \<or>
    outcome_ok (start_if_waiting shuf r0) (apply_action shuf r0 p q)"
proof -
  have ok: "room_ok (start_if_waiting shuf r0)" by (rule start_if_waiting_ok [OF assms])
  show ?thesis
    by (cases rule: apply_cases [of shuf r0 p q])
      (use rob_outcome [OF ok] in \<open>simp_all add: outcome_ok_intros call_score_outcome pass_outcome
         play_outcome\<close>)
qed

lemma apply_accepted_outcome:
  assumes "is_shuffle shuf" "room_ok r0" "apply_action shuf r0 p q = (r', Inr res)"
  shows "rm_version r' = rm_version r0 + 1" "rm_action_seq r' = rm_action_seq r0 + 1"
    "rm_players r' = rm_players r0" "rm_id r' = rm_id r0" "ar_snapshot res = MakeSnapshot r'"
  using apply_outcome [OF assms(1,2), of p q] assms(3) by (auto simp: outcome_ok_def)

lemma apply_identity:
  assumes "is_shuffle shuf" "room_ok r0"
  shows "rm_players (fst (apply_action shuf r0 p q)) = rm_players r0"
    "rm_id (fst (apply_action shuf r0 p q)) = rm_id r0"
  using apply_outcome [OF assms, of p q]
  by (auto simp: outcome_ok_def split: prod.splits sum.splits)

lemma apply_refused:
  assumes "is_shuffle shuf" "room_ok r0" "apply_action shuf r0 p q = (r', Inl e)"
  shows "r' = r0 \<or> rm_state r0 = WaitStart \<and> r' = start_if_waiting shuf r0"
  using apply_outcome [OF assms(1,2), of p q] assms(3)
  by (auto simp: outcome_ok_def start_if_waiting_def)

text \<open>The phase never goes back.\<close>

lemma call_score_state:
  "rm_state r = CallScore \<Longrightarrow> rm_state (fst (call_score_action r p q)) \<in> {CallScore, RobLandlord}"
  by (auto simp: call_score_action_def Let_def)

lemma rob_state:
  "rm_state r = RobLandlord \<Longrightarrow> rm_state (fst (rob_action r p q)) \<in> {RobLandlord, Playing}"
  by (auto simp: rob_action_def Let_def start_playing_def split: option.splits)

lemma pass_state: "rm_state (fst (pass_action r p q)) = rm_state r"
  by (auto simp: pass_action_def Let_def clear_table_def)

lemma play_state:
  "rm_state r = Playing \<Longrightarrow> rm_state (fst (play_action r p q)) \<in> {Playing, Settling}"
  by (auto simp: play_action_def Let_def win_game_def split: option.splits)

lemmas action_states = call_score_state rob_state pass_state play_state

lemma state_order [simp]:
  "WaitStart \<le> s" "CallScore \<le> RobLandlord" "CallScore \<le> Playing" "RobLandlord \<le> Playing"
  "Playing \<le> Settling" "s \<le> Finished"
  by (cases s; simp add: less_eq_room_state_def)+

lemma apply_state_mono: "rm_state r \<le> rm_state (fst (apply_action shuf r p q))"
proof -
  let ?r = "start_if_waiting shuf r"
  have "rm_state r \<le> rm_state ?r" by simp
  moreover have "fst (apply_action shuf r p q) = r \<or> rm_state ?r \<le> rm_state (fst (apply_action shuf r p q))"
    by (cases rule: apply_cases [of shuf r p q])
      (use action_states [of ?r p q] in \<open>auto simp del: start_if_waiting_sel(5)\<close>)
  ultimately show ?thesis by (metis order.refl order.trans)
qed

end
