(* ===== verification/DdzRoomProps.thy ===== *)
theory DdzRoomProps
  imports DdzRoomSpec
begin

text \<open>
  The room manager: the maps from room and player identifiers stay consistent under every
  operation, and the properties of rooms stated over the manager's operations.
\<close>

subsection \<open>Marking a player\<close>

lemma room_ok_frame [simp]:
  "room_ok (r\<lparr>rm_version := n\<rparr>) = room_ok r" "room_ok (r\<lparr>rm_action_seq := n\<rparr>) = room_ok r"
  "room_ok (r\<lparr>rm_online := f\<rparr>) = room_ok r" "room_ok (r\<lparr>rm_trustee := f\<rparr>) = room_ok r"
  "room_ok (r\<lparr>rm_offline_at := g\<rparr>) = room_ok r"
  by (simp_all add: room_ok_def phase_defs dealt_ok_def table_ok_def table_clear_def
      split: room_state.split)

lemma mark_ok:
  "mark_offline p t r = Some r' \<Longrightarrow> room_ok r' = room_ok r \<and> rm_id r' = rm_id r \<and> rm_players r' = rm_players r"
  "mark_online p r = Some r' \<Longrightarrow> room_ok r' = room_ok r \<and> rm_id r' = rm_id r \<and> rm_players r' = rm_players r"
  "mark_trustee p b r = Some r' \<Longrightarrow> room_ok r' = room_ok r \<and> rm_id r' = rm_id r \<and> rm_players r' = rm_players r"
  by (auto simp: mark_offline_def mark_online_def mark_trustee_def split: option.splits if_splits)

subsection \<open>The manager's invariant\<close>

definition rooms_ok :: "room_manager \<Rightarrow> bool" where
  "rooms_ok m \<longleftrightarrow> (\<forall>rid r. mg_rooms m rid = Some r \<longrightarrow>
     rm_id r = rid \<and> rid < mg_next_id m \<and> room_ok r)"

definition players_ok :: "room_manager \<Rightarrow> bool" where
  "players_ok m \<longleftrightarrow> (\<forall>p rid. mg_player_room m p = Some rid \<longleftrightarrow>
     (\<exists>r. mg_rooms m rid = Some r \<and> p \<in> set (rm_players r)))"

definition manager_ok :: "room_manager \<Rightarrow> bool" where
  "manager_ok m \<longleftrightarrow> rooms_ok m \<and> players_ok m"

lemma foldl_upd: "foldl (\<lambda>m p. m(p := v)) f ps q = (if q \<in> set ps then v else f q)"
  by (induction ps arbitrary: f) auto

lemma new_room_sel [simp]:
  "rm_players (new_room rid mode ps) = ps" "rm_id (new_room rid mode ps) = rid"
  "rm_state (new_room rid mode ps) = WaitStart"
  by (simp_all add: new_room_def)

lemma new_room_ok: "seated ps \<Longrightarrow> room_ok (new_room rid mode ps)"
  by (auto simp: room_ok_def waiting_ok_def table_clear_def new_room_def elim!: seatedE)

lemma empty_manager_ok: "manager_ok empty_manager"
  by (simp add: manager_ok_def rooms_ok_def players_ok_def empty_manager_def)

lemma CreateRoom_ok:
  assumes "manager_ok m" "seated ps" "\<forall>p \<in> set ps. mg_player_room m p = None"
  shows "manager_ok (fst (CreateRoom m mode ps))"
proof -
  let ?rid = "mg_next_id m" and ?m = "fst (CreateRoom m mode ps)"
  have fresh: "mg_rooms m ?rid = None"
    using assms(1) by (metis less_irrefl manager_ok_def not_None_eq rooms_ok_def)
  have rooms: "mg_rooms ?m = (mg_rooms m)(?rid \<mapsto> new_room ?rid mode ps)"
    and pr: "mg_player_room ?m p = (if p \<in> set ps then Some ?rid else mg_player_room m p)" for p
    by (simp_all add: CreateRoom_def Let_def foldl_upd)
  have "rooms_ok ?m"
    using assms(1) new_room_ok [OF assms(2)]
    by (force simp: rooms_ok_def manager_ok_def CreateRoom_def Let_def)
  moreover have "players_ok ?m" unfolding players_ok_def
  proof (intro allI)
    fix p rid
    have "mg_player_room m p = Some rid \<longleftrightarrow>
        (\<exists>r. mg_rooms m rid = Some r \<and> p \<in> set (rm_players r))"
      using assms(1) by (simp add: manager_ok_def players_ok_def)
    then show "mg_player_room ?m p = Some rid \<longleftrightarrow>
        (\<exists>r. mg_rooms ?m rid = Some r \<and> p \<in> set (rm_players r))"
      unfolding rooms pr using assms(3) fresh by auto
  qed
  ultimately show ?thesis by (simp add: manager_ok_def)
qed

lemma DestroyRoom_ok:
  assumes "manager_ok m"
  shows "manager_ok (fst (DestroyRoom m rid))"
proof (cases "mg_rooms m rid")
  case None
  then show ?thesis using assms by (simp add: DestroyRoom_def)
next
  case (Some r)
  let ?m = "fst (DestroyRoom m rid)"
  have rooms: "mg_rooms ?m = (mg_rooms m)(rid := None)"
    and pr: "mg_player_room ?m p = (if p \<in> set (rm_players r) then None else mg_player_room m p)" for p
    by (simp_all add: DestroyRoom_def Some foldl_upd)
  have P: "mg_player_room m p = Some rid' \<longleftrightarrow>
     (\<exists>r. mg_rooms m rid' = Some r \<and> p \<in> set (rm_players r))" for p rid'
    using assms by (simp add: manager_ok_def players_ok_def)
  have "players_ok ?m" unfolding players_ok_def
  proof (intro allI)
    fix p rid'
    show "mg_player_room ?m p = Some rid' \<longleftrightarrow>
        (\<exists>r. mg_rooms ?m rid' = Some r \<and> p \<in> set (rm_players r))"
      unfolding rooms pr using P [of p rid'] P [of p rid] Some by auto
  qed
  moreover have "rooms_ok ?m"
    using assms by (auto simp: rooms_ok_def manager_ok_def DestroyRoom_def Some split: if_splits)
  ultimately show ?thesis by (simp add: manager_ok_def)
qed

lemma store_room_ok:
  assumes "manager_ok m" "mg_rooms m rid = Some r" "room_ok r'" "rm_id r' = rm_id r"
    "rm_players r' = rm_players r"
  shows "manager_ok (store_room m rid r')"
proof -
  have "players_ok (store_room m rid r')" unfolding players_ok_def
  proof (intro allI)
    fix p rid'
    have "mg_player_room m p = Some rid' \<longleftrightarrow>
        (\<exists>r. mg_rooms m rid' = Some r \<and> p \<in> set (rm_players r))"
      using assms(1) by (simp add: manager_ok_def players_ok_def)
    then show "mg_player_room (store_room m rid r') p = Some rid' \<longleftrightarrow>
        (\<exists>r. mg_rooms (store_room m rid r') rid' = Some r \<and> p \<in> set (rm_players r))"
      using assms(2,5) by (simp add: store_room_def)
  qed
  moreover have "rooms_ok (store_room m rid r')"
    using assms by (auto simp: rooms_ok_def manager_ok_def store_room_def)
  ultimately show ?thesis by (simp add: manager_ok_def)
qed

lemma manager_room: "manager_ok m \<Longrightarrow> mg_rooms m rid = Some r \<Longrightarrow> room_ok r \<and> rm_id r = rid"
  by (simp add: manager_ok_def rooms_ok_def)

lemma ApplyPlayerAction_ok:
  assumes "is_shuffle shuf" "manager_ok m"
  shows "manager_ok (fst (ApplyPlayerAction shuf m rid p q))"
proof (cases "mg_rooms m rid")
  case None
  then show ?thesis using assms by (simp add: ApplyPlayerAction_def)
next
  case (Some r)
  have ok: "room_ok r" using manager_room [OF assms(2) Some] by simp
  have "fst (ApplyPlayerAction shuf m rid p q) = store_room m rid (fst (apply_action shuf r p q))"
    by (simp add: ApplyPlayerAction_def Some split: prod.split)
  then show ?thesis
    using store_room_ok [OF assms(2) Some apply_action_ok [OF assms(1) ok]] apply_identity [OF assms(1) ok]
    by simp
qed

lemma ApplyTrusteeAction_ok:
  "is_shuffle shuf \<Longrightarrow> manager_ok m \<Longrightarrow> manager_ok (fst (ApplyTrusteeAction shuf m rid p))"
  using ApplyPlayerAction_ok by (simp add: ApplyTrusteeAction_def split: option.split sum.split)

lemma ApplyPlayerActionType_ok:
  assumes "is_shuffle shuf" "manager_ok m"
  shows "manager_ok (fst (ApplyPlayerActionType shuf m rid p t))"
proof -
  have "manager_ok (fst (case ApplyPlayerAction shuf m rid p q of
      (m', Inl e) \<Rightarrow> (m', Inl e) | (m', Inr res) \<Rightarrow> (m', Inr (ar_snapshot res))))" for q
    using ApplyPlayerAction_ok [OF assms, of rid p q]
    by (cases "ApplyPlayerAction shuf m rid p q") (simp split: sum.split)
  then show ?thesis
    using assms(2)
    by (simp add: ApplyPlayerActionType_def Let_def split: action_type.split option.split list.split)
qed

lemma update_player_room_ok:
  assumes "manager_ok m"
    "\<And>r r'. f r = Some r' \<Longrightarrow> room_ok r' = room_ok r \<and> rm_id r' = rm_id r \<and> rm_players r' = rm_players r"
  shows "manager_ok (fst (update_player_room f m p))"
  using assms manager_room [OF assms(1)] store_room_ok [OF assms(1)]
  by (auto simp: update_player_room_def split: option.split)

lemma Mark_ok:
  "manager_ok m \<Longrightarrow> manager_ok (fst (MarkPlayerOffline m p t))"
  "manager_ok m \<Longrightarrow> manager_ok (fst (MarkPlayerOnline m p))"
  "manager_ok m \<Longrightarrow> manager_ok (fst (MarkPlayerTrustee m p b))"
  by (simp_all add: MarkPlayerOffline_def MarkPlayerOnline_def MarkPlayerTrustee_def
      update_player_room_ok mark_ok)

lemma mark_state_ok:
  assumes "manager_ok m" "s = Settling \<or> s = Finished"
  shows "manager_ok (fst (mark_state s m rid))"
  using assms manager_room [OF assms(1)]
  by (auto simp: mark_state_def room_ok_def simp del: Bump_simp split: option.split
      intro!: store_room_ok [OF assms(1)]) (auto simp: room_ok_def)

subsection \<open>Everything that can happen to the manager\<close>

inductive manager_step :: "(64 word \<Rightarrow> card list \<Rightarrow> card list) \<Rightarrow> room_manager \<Rightarrow> room_manager \<Rightarrow> bool"
  for shuf where
  create: "seated ps \<Longrightarrow> list_all (\<lambda>p. GetRoomIdByPlayer m p = None) ps \<Longrightarrow>
    manager_step shuf m (fst (CreateRoom m mode ps))"
| destroy: "manager_step shuf m (fst (DestroyRoom m rid))"
| act: "manager_step shuf m (fst (ApplyPlayerAction shuf m rid p q))"
| act_type: "manager_step shuf m (fst (ApplyPlayerActionType shuf m rid p t))"
| act_trustee: "manager_step shuf m (fst (ApplyTrusteeAction shuf m rid p))"
| offline: "manager_step shuf m (fst (MarkPlayerOffline m p t))"
| online: "manager_step shuf m (fst (MarkPlayerOnline m p))"
| trustee: "manager_step shuf m (fst (MarkPlayerTrustee m p b))"
| settling: "manager_step shuf m (fst (MarkSettling m rid))"
| finished: "manager_step shuf m (fst (MarkFinished m rid))"

lemma manager_step_ok:
  assumes "is_shuffle shuf"
  shows "manager_step shuf m m' \<Longrightarrow> manager_ok m \<Longrightarrow> manager_ok m'"
  by (induction rule: manager_step.induct)
    (auto simp: list_all_iff GetRoomIdByPlayer_def MarkSettling_def MarkFinished_def
      intro: CreateRoom_ok DestroyRoom_ok ApplyPlayerAction_ok ApplyPlayerActionType_ok
        ApplyTrusteeAction_ok Mark_ok mark_state_ok assms)

subsection \<open>What a legal play is\<close>

definition legal_play :: "room \<Rightarrow> player_id \<Rightarrow> card list \<Rightarrow> bool" where
  "legal_play r p cards \<longleftrightarrow>
     rm_operator r = p \<and> mset cards \<subseteq># mset (get_or (rm_hands r) p []) \<and> cc_valid (Analyze cards) \<and>
     (if rm_last_cards r = [] then True else CanBeat (Analyze cards) (Analyze (rm_last_cards r)))"

lemma playing_facts:
  assumes "room_ok r" "rm_state r = Playing"
  obtains hand where "seated (rm_players r)" "playing_ok r" "rm_operator r \<in> set (rm_players r)"
    "rm_hands r (rm_operator r) = Some hand" "rm_last_cards r = [] \<or> rm_last_player r \<noteq> rm_operator r"
proof -
  have s: "seated (rm_players r)" and c: "playing_ok r" using assms by (simp_all add: room_ok_def)
  then have "rm_operator r \<in> set (rm_players r)" "table_ok r" by (simp_all add: playing_ok_def)
  moreover from this obtain hand where "rm_hands r (rm_operator r) = Some hand"
    using c by (auto simp: playing_ok_def list_all_iff split: option.splits)
  ultimately show ?thesis using that s c operator_not_last by metis
qed

lemma apply_playing:
  assumes "rm_state r = Playing" "rm_operator r \<in> set (rm_players r)" "rq_type q = ActPlayCards"
  shows "apply_action shuf r p q =
    (if p = rm_operator r then play_action r p q
     else refused r (if p \<in> set (rm_players r) then ''not player turn'' else ''player not in room''))"
  using assms by (auto simp: apply_action_def dispatch_action_def start_if_waiting_def)

lemma apply_passing:
  assumes "rm_state r = Playing" "rm_operator r \<in> set (rm_players r)" "rq_type q = ActPass"
  shows "apply_action shuf r p q =
    (if p = rm_operator r then pass_action r p q
     else refused r (if p \<in> set (rm_players r) then ''not player turn'' else ''player not in room''))"
  using assms by (auto simp: apply_action_def dispatch_action_def start_if_waiting_def)

subsection \<open>A concrete game\<close>

text \<open>The rooms of the witnesses: an unshuffled deck, and a game near its end in which player 9
  is the landlord and leads.\<close>

definition demo_shuf :: "64 word \<Rightarrow> card list \<Rightarrow> card list" where
  "demo_shuf seed xs = xs"

definition demo_room :: room where
  "demo_room = (new_room 1 3 [7, 8, 9])
     \<lparr>rm_state := Playing, rm_dealt := True, rm_landlord := 9, rm_operator := 9, rm_base_coin := 4,
      rm_hands := [7 \<mapsto> [0, 1], 8 \<mapsto> [2, 3], 9 \<mapsto> [4, 17]]\<rparr>"

definition demo_play :: "card list \<Rightarrow> action_request" where
  "demo_play cards = empty_request\<lparr>rq_type := ActPlayCards, rq_cards := cards\<rparr>"

text \<open>The same game after player 9 has played the card 4.\<close>

definition demo_table :: room where
  "demo_table = fst (apply_action demo_shuf demo_room 9 (demo_play [4]))"

lemma demo_shuffle: "is_shuffle demo_shuf"
  by (simp add: is_shuffle_def demo_shuf_def)

lemma demo_seated: "seated [7, 8, 9]"
  by (simp add: seated_def)

lemma demo_ok: "room_ok demo_room"
proof -
  have "mset [4, 17, 2, 3, 0, 1] \<subseteq># mset [0..53::int]" by code_simp
  then have "held [7, 8, 9] [7 \<mapsto> [0, 1], 8 \<mapsto> [2, 3], 9 \<mapsto> [4, 17]] \<subseteq># mset full_deck"
    by (simp add: held_def full_deck_def get_or_def)
  then show ?thesis
    by (simp add: demo_room_def room_ok_def demo_seated playing_ok_def table_ok_def table_clear_def
        new_room_def)
qed

lemma demo_table_ok: "room_ok demo_table"
  unfolding demo_table_def by (intro apply_action_ok demo_shuffle demo_ok)

lemma demo_table_facts:
  "rm_state demo_table = Playing \<and> rm_operator demo_table = 7 \<and> rm_last_cards demo_table = [4] \<and>
   rm_last_player demo_table = 9 \<and> rm_hands demo_table 9 = Some [17] \<and>
   rm_hands demo_table 7 = Some [0, 1] \<and> rm_pass_count demo_table = 0"
  by code_simp

subsection \<open>The properties of rooms\<close>



text \<open>C8: dealing splits the deck: each of the three players has 17 cards, three lie at the
  bottom, and together they are the 54 cards, each exactly once.\<close>

theorem deal_splits_deck:
  assumes "is_shuffle shuf" "seated ps"
  shows "let r = DealCards shuf (new_room rid mode ps) in
    map (\<lambda>p. map_option length (rm_hands r p)) ps = [Some 17, Some 17, Some 17] \<and>
    length (rm_bottom r) = 3 \<and>
    (\<Sum>p \<leftarrow> ps. mset (the (rm_hands r p))) + mset (rm_bottom r) = mset [0..53]"
proof -
  let ?r = "DealCards shuf (new_room rid mode ps)"
  have d: "dealt_ok ?r"
    by (rule DealCards_ok [OF assms(1)]) (simp_all add: assms(2) new_room_def)
  obtain a b c where ps: "ps = [a, b, c]" using assms(2) by (rule seatedE)
  have h: "\<exists>h. rm_hands ?r p = Some h \<and> length h = 17" if "p \<in> set ps" for p
    using dealt_ok_hand [OF d, of p] that by simp
  obtain x y z where "rm_hands ?r a = Some x" "rm_hands ?r b = Some y" "rm_hands ?r c = Some z"
    "length x = 17" "length y = 17" "length z = 17"
    using h [of a] h [of b] h [of c] ps by auto
  then show ?thesis
    using d by (simp add: ps dealt_ok_def held_def get_or_def full_deck_def Let_def)
qed

theorem deal_splits_deck_witness:
  "length (rm_bottom (DealCards demo_shuf (new_room 1 3 [7, 8, 9]))) = 3"
  using deal_splits_deck [OF demo_shuffle demo_seated, of 1 3] by (simp add: Let_def)

text \<open>C9: in play, a play of cards is accepted exactly when it is the player's turn, the cards
  are in the player's hand, they form a card type, and they beat what lies on the table.\<close>

theorem play_accepted_iff:
  assumes "room_ok r" "rm_state r = Playing" "rq_type q = ActPlayCards"
  shows "(\<exists>r' res. apply_action shuf r p q = (r', Inr res)) = legal_play r p (rq_cards q)"
proof -
  from assms(1,2) obtain hand where f: "rm_operator r \<in> set (rm_players r)"
    "rm_hands r (rm_operator r) = Some hand" "rm_last_cards r = [] \<or> rm_last_player r \<noteq> rm_operator r"
    by (rule playing_facts)
  have "(\<exists>res. snd (play_action r p q) = Inr res) = legal_play r p (rq_cards q)"
    if "p = rm_operator r"
  proof
    assume "\<exists>res. snd (play_action r p q) = Inr res"
    then obtain res where "snd (play_action r p q) = Inr res" ..
    then show "legal_play r p (rq_cards q)"
      by (cases rule: play_cases)
        (use f that in \<open>auto simp: legal_play_def get_or_Some dest: RemoveCards_Some\<close>)
  next
    assume "legal_play r p (rq_cards q)"
    then show "\<exists>res. snd (play_action r p q) = Inr res"
      using f that by (intro play_accepts) (auto simp: legal_play_def get_or_Some split: if_splits)
  qed
  then show ?thesis
    using apply_playing [OF assms(2) f(1) assms(3), of shuf p]
    by (cases "p = rm_operator r")
      (auto simp: refused_def legal_play_def prod_eq_iff intro!: exI [of _ "fst (play_action r p q)"])
qed

theorem play_accepted_iff_witness:
  "\<exists>r' res. apply_action demo_shuf demo_room 9 (demo_play [4, 17]) = (r', Inr res)"
proof -
  have "legal_play demo_room 9 [4, 17]"
    by (simp add: legal_play_def demo_room_def new_room_def get_or_def) code_simp
  then show ?thesis
    using play_accepted_iff [OF demo_ok, of "demo_play [4, 17]" demo_shuf 9]
    by (simp add: demo_play_def empty_request_def demo_room_def)
qed

text \<open>C10: an accepted play takes exactly the played cards out of the player's hand, leaves the
  other hands alone and puts the cards on the table; the game is over, and the player its
  winner, exactly when the hand is empty, and otherwise the next player is to move.\<close>

theorem play_effect:
  assumes "room_ok r" "rm_state r = Playing" "rq_type q = ActPlayCards"
    "apply_action shuf r p q = (r', Inr res)"
  shows "mset (get_or (rm_hands r') p []) + mset (rq_cards q) = mset (get_or (rm_hands r) p []) \<and>
    (rm_hands r')(p := None) = (rm_hands r)(p := None) \<and>
    rm_last_cards r' = rq_cards q \<and> rm_last_player r' = p \<and> rm_pass_count r' = 0 \<and>
    (if get_or (rm_hands r') p [] = []
     then rm_state r' = Settling \<and> ar_game_over res \<and> ar_winner res = p \<and>
          ar_base_coin res = rm_base_coin r
     else rm_state r' = Playing \<and> \<not> ar_game_over res \<and> rm_operator r' = NextOperator r p)"
proof -
  from assms(1,2) obtain hand where f: "playing_ok r" "rm_operator r \<in> set (rm_players r)" by (rule playing_facts)
  have op: "p = rm_operator r" and a: "play_action r p q = (r', Inr res)"
    using assms(4) apply_playing [OF assms(2) f(2) assms(3), of shuf p]
    by (auto simp: refused_def split: if_splits)
  then have "snd (play_action r p q) = Inr res" by simp
  then show ?thesis
  proof (cases rule: play_cases)
    case (1 hand hand')
    have "mset hand' + mset (rq_cards q) = mset hand" using RemoveCards_Some [OF 1(5)] by simp
    moreover have "1 \<le> rm_base_coin r" using f(1) by (simp add: playing_ok_def)
    ultimately show ?thesis
      using 1(2,6) a assms(2)
      by (auto simp: Let_def win_game_def accepted_def get_or_Some fun_eq_iff split: if_splits)
  qed
qed

theorem play_effect_witness:
  "rm_last_cards demo_table = [4] \<and> rm_operator demo_table = 7 \<and>
   get_or (rm_hands demo_table) 9 [] = [17]"
proof -
  have st: "rm_state demo_room = Playing" "rq_type (demo_play [4]) = ActPlayCards"
    by (simp_all add: demo_room_def demo_play_def)
  have "snd (apply_action demo_shuf demo_room 9 (demo_play [4])) = Inr
      (case snd (apply_action demo_shuf demo_room 9 (demo_play [4])) of Inr x \<Rightarrow> x)"
    by code_simp
  then obtain res where "apply_action demo_shuf demo_room 9 (demo_play [4]) = (demo_table, Inr res)"
    unfolding demo_table_def by (metis prod.collapse)
  from play_effect [OF demo_ok st this]
  have "rm_last_cards demo_table = [4]" by (simp add: demo_play_def)
  moreover have "rm_operator demo_table = 7 \<and> rm_hands demo_table 9 = Some [17]"
    using demo_table_facts by simp
  ultimately show ?thesis by (simp add: get_or_Some)
qed

text \<open>C11: in play, a pass is accepted exactly when it is the player's turn, it carries no
  cards and there are cards on the table; the second pass in a row clears the table and gives
  the lead back to the player whose cards lay there, the first one moves on to the next.\<close>

theorem pass_turns:
  assumes "room_ok r" "rm_state r = Playing" "rq_type q = ActPass"
  shows "(\<exists>res. snd (apply_action shuf r p q) = Inr res) =
      (rm_operator r = p \<and> rq_cards q = [] \<and> rm_last_cards r \<noteq> []) \<and>
    (let r' = fst (apply_action shuf r p q) in
     if snd (apply_action shuf r p q) \<in> range Inl then r' = r
     else if rm_pass_count r = 1
     then rm_last_cards r' = [] \<and> rm_pass_count r' = 0 \<and> rm_operator r' = rm_last_player r
     else rm_last_cards r' = rm_last_cards r \<and> rm_pass_count r' = 1 \<and>
          rm_operator r' = NextOperator r p \<and> rm_operator r' \<noteq> rm_last_player r)"
proof -
  from assms(1,2) obtain hand where f: "seated (rm_players r)" "playing_ok r"
    "rm_operator r \<in> set (rm_players r)" "rm_last_cards r = [] \<or> rm_last_player r \<noteq> rm_operator r"
    by (rule playing_facts)
  have t: "table_ok r" using f(2) by (simp add: playing_ok_def)
  have len: "num_players r = 3" using f(1) by (simp add: num_players_def seated_def)
  note A = apply_passing [OF assms(2) f(3) assms(3), of shuf p]
  show ?thesis
  proof (cases "p = rm_operator r \<and> rq_cards q = [] \<and> rm_last_cards r \<noteq> []")
    case False
    then have "apply_action shuf r p q = refused r ''pass should not carry cards'' \<or>
        apply_action shuf r p q = refused r ''cannot pass on empty table'' \<or>
        apply_action shuf r p q = refused r ''not player turn'' \<or>
        apply_action shuf r p q = refused r ''player not in room''"
      unfolding A by (auto simp: pass_action_def)
    then show ?thesis using False by (elim disjE) auto
  next
    case True
    then have ne: "rm_last_player r \<noteq> p" using f(4) by auto
    have P: "pass_action r p q =
        (if rm_pass_count r + 1 \<ge> 2 then accepted (clear_table (r\<lparr>rm_pass_count := rm_pass_count r + 1\<rparr>))
         else accepted (r\<lparr>rm_pass_count := rm_pass_count r + 1, rm_operator := NextOperator r p\<rparr>))"
      using True ne len by (simp add: pass_action_def Let_def num_players_def)
    have "rm_last_cards r \<noteq> []" using True by simp
    with t show ?thesis
    proof (cases rule: table_okE)
      case first
      then have "next_operator (rm_players r) p \<noteq> rm_last_player r"
        using True next_operator_ne2 [OF f(1)] by simp
      then show ?thesis using True A P first by (auto simp: accepted_def Let_def)
    next
      case second
      then show ?thesis using True A P by (auto simp: accepted_def Let_def clear_table_def)
    qed
  qed
qed

theorem pass_turns_witness:
  "\<exists>res. snd (apply_action demo_shuf demo_table 7 (empty_request\<lparr>rq_type := ActPass\<rparr>)) = Inr res"
  using pass_turns [OF demo_table_ok, of "empty_request\<lparr>rq_type := ActPass\<rparr>" demo_shuf 7]
    demo_table_facts by (simp add: empty_request_def)



text \<open>C16: the trustee is never stuck and always finishes the game: once the first call has been
  made, letting the trustee act for every player ends the game within 168 actions.\<close>

theorem trustee_finishes:
  assumes "is_shuffle shuf" "room_ok r" "CallScore \<le> rm_state r"
  shows "game_ended (game.play_out shuf 168 r)"
proof -
  have m: "room_measure r \<le> 168"
  proof (cases "rm_state r")
    case Playing
    then have "cards_left r \<le> 54" using assms(2) cards_left_le by (simp add: room_ok_def)
    moreover have "room_measure r \<le> 3 * cards_left r + 2" using Playing by (simp add: room_measure_def)
    ultimately show ?thesis by linarith
  qed (simp_all add: room_measure_def)
  have "rm_state r \<le> rm_state (game.play_out shuf n r)" for n
  proof (induction n arbitrary: r)
    case (Suc n)
    have "rm_state r \<le> rm_state r'" if t: "trustee_moves shuf r = Some r'" for r'
    proof -
      obtain q res where "apply_action shuf r (rm_operator r) q = (r', Inr res)"
        using t by (auto simp: trustee_moves_def accepts_Some split: sum.splits)
      then show ?thesis using apply_state_mono [of r shuf "rm_operator r" q] by simp
    qed
    then show ?case using Suc by (auto split: option.split intro: order.trans)
  qed simp
  then have "rm_state (game.play_out shuf 168 r) \<noteq> WaitStart"
    using assms(3) by (metis less_eq_room_state_def order.trans state_code.simps(1,2) not_one_le_zero)
  then show ?thesis using game.play_out_final [of shuf r 168] m assms(1,2) by blast
qed

theorem trustee_finishes_witness: "game_ended (game.play_out demo_shuf 168 demo_room)"
  by (rule trustee_finishes [OF demo_shuffle demo_ok]) (simp add: demo_room_def)

text \<open>C21: an accepted action raises the snapshot version and the action sequence number by one,
  answers with the snapshot of the new state, and never moves the phase back; a refused one
  leaves the room as it was, except that in a waiting room the cards are dealt and calling
  begins although the version the clients compare stays the same.\<close>

theorem action_versions:
  assumes "is_shuffle shuf" "room_ok r"
  shows "case apply_action shuf r p q of
    (r', Inr res) \<Rightarrow> rm_version r' = rm_version r + 1 \<and> rm_action_seq r' = rm_action_seq r + 1 \<and>
      ar_snapshot res = MakeSnapshot r' \<and> rm_state r \<le> rm_state r'
  | (r', Inl e) \<Rightarrow> rm_version r' = rm_version r \<and> rm_action_seq r' = rm_action_seq r \<and>
      (if rm_state r = WaitStart then r' = r \<or> r' = DealCards shuf (r\<lparr>rm_state := CallScore\<rparr>)
       else r' = r)"
proof -
  obtain r' out where a: "apply_action shuf r p q = (r', out)" by (cases "apply_action shuf r p q")
  have m: "rm_state r \<le> rm_state r'" using apply_state_mono [of r shuf p q] a by simp
  show ?thesis
  proof (cases out)
    case (Inl e)
    then show ?thesis
      using apply_refused [OF assms, of p q] a by (auto simp: start_if_waiting_def)
  next
    case (Inr res)
    then have b: "apply_action shuf r p q = (r', Inr res)" using a by simp
    show ?thesis using apply_accepted_outcome [OF assms b] m by (simp add: b)
  qed
qed

theorem action_versions_witness:
  "rm_version demo_table = 2 \<and> rm_action_seq demo_table = 1"
proof -
  have "snd (apply_action demo_shuf demo_room 9 (demo_play [4])) = Inr
      (case snd (apply_action demo_shuf demo_room 9 (demo_play [4])) of Inr x \<Rightarrow> x)"
    by code_simp
  then obtain res where "apply_action demo_shuf demo_room 9 (demo_play [4]) = (demo_table, Inr res)"
    unfolding demo_table_def by (metis prod.collapse)
  then show ?thesis
    using action_versions [OF demo_shuffle demo_ok, of 9 "demo_play [4]"]
    by (simp add: demo_room_def new_room_def)
qed

text \<open>C25: a snapshot pushed to the players shows of the hands only how many cards each player
  holds, and nothing of the bottom cards before the game is played.\<close>

theorem push_snapshot_private:
  assumes "list_all (\<lambda>p. map_option length (h p) = map_option length (rm_hands r p)) (rm_players r)"
    "rm_state r < Playing \<or> b = rm_bottom r"
  shows "MakePushSnapshotV2 (r\<lparr>rm_hands := h, rm_bottom := b\<rparr>) = MakePushSnapshotV2 r"
proof -
  have "(case h p of None \<Rightarrow> 0 | Some x \<Rightarrow> int (length x)) =
      (case rm_hands r p of None \<Rightarrow> 0 | Some x \<Rightarrow> int (length x))" if "p \<in> set (rm_players r)" for p
    using that assms(1) by (force simp: list_all_iff split: option.splits)
  then show ?thesis
    using assms(2) by (auto simp: MakePushSnapshotV2_def MakeSnapshot_def less_room_state_def)
qed

theorem push_snapshot_private_witness:
  "MakePushSnapshotV2 (demo_room\<lparr>rm_hands := [7 \<mapsto> [50, 51], 8 \<mapsto> [3, 2], 9 \<mapsto> [30, 31]],
      rm_bottom := rm_bottom demo_room\<rparr>) = MakePushSnapshotV2 demo_room"
  by (rule push_snapshot_private) (simp_all add: demo_room_def new_room_def)

end
