(* ===== verification/DdzMatch.thy ===== *)
theory DdzMatch
  imports DdzSession DdzRoomProps
begin

text \<open>
  Matching: the queues of waiting players (\<^verbatim>\<open>service/match/match_manager.cpp\<close>) and the handlers
  that put players into them and open a room when enough wait
  (\<^verbatim>\<open>service/match/match_service.cpp\<close>). The queues are a first-come-first-served pool, stated
  as the locale \<open>fifo_pool\<close> and interpreted on the manager.
\<close>

subsection \<open>The queues\<close>

record match_player =
  mp_player :: player_id
  mp_join_time :: millis
  mp_coin :: int
  mp_mode :: int

record match_manager =
  mm_three :: "match_player list"
  mm_four :: "match_player list"
  mm_index :: "player_id \<rightharpoonup> int"

definition empty_match :: match_manager where
  "empty_match = \<lparr>mm_three = [], mm_four = [], mm_index = Map.empty\<rparr>"

definition RequiredCount :: "int \<Rightarrow> nat" where
  "RequiredCount mode = (if mode = 3 then 3 else if mode = 4 then 4 else 0)"

text \<open>\<^verbatim>\<open>QueueByMode\<close> returns a pointer to one of the two queues, or null.\<close>

definition QueueByMode :: "match_manager \<Rightarrow> int \<Rightarrow> match_player list option" where
  "QueueByMode m mode =
     (if mode = 3 then Some (mm_three m) else if mode = 4 then Some (mm_four m) else None)"

definition set_queue :: "match_manager \<Rightarrow> int \<Rightarrow> match_player list \<Rightarrow> match_manager" where
  "set_queue m mode q =
     (if mode = 3 then m\<lparr>mm_three := q\<rparr> else if mode = 4 then m\<lparr>mm_four := q\<rparr> else m)"

definition Join :: "match_manager \<Rightarrow> match_player \<Rightarrow> match_manager \<times> bool" where
  "Join m pl =
     (if mm_index m (mp_player pl) \<noteq> None then (m, False)
      else case QueueByMode m (mp_mode pl) of
             None \<Rightarrow> (m, False)
           | Some q \<Rightarrow>
               ((set_queue m (mp_mode pl) (q @ [pl]))
                  \<lparr>mm_index := (mm_index m)(mp_player pl \<mapsto> mp_mode pl)\<rparr>, True))"

definition Cancel :: "match_manager \<Rightarrow> player_id \<Rightarrow> match_manager \<times> bool" where
  "Cancel m p =
     (case mm_index m p of
        None \<Rightarrow> (m, False)
      | Some mode \<Rightarrow>
          (case QueueByMode m mode of
             None \<Rightarrow> (m\<lparr>mm_index := (mm_index m)(p := None)\<rparr>, False)
           | Some q \<Rightarrow>
               ((set_queue m mode (filter (\<lambda>x. mp_player x \<noteq> p) q))
                  \<lparr>mm_index := (mm_index m)(p := None)\<rparr>, True)))"

definition IsMatching :: "match_manager \<Rightarrow> player_id \<Rightarrow> bool" where
  "IsMatching m p = (mm_index m p \<noteq> None)"

text \<open>The loop that takes \<open>need\<close> players off the front.\<close>

fun pop_front ::
    "nat \<Rightarrow> match_player list \<Rightarrow> (player_id \<rightharpoonup> int) \<Rightarrow> player_id list
     \<Rightarrow> match_player list \<times> (player_id \<rightharpoonup> int) \<times> player_id list" where
  "pop_front 0 q ix out = (q, ix, out)"
| "pop_front (Suc n) [] ix out = ([], ix, out)"
| "pop_front (Suc n) (x # q) ix out =
     pop_front n q (ix(mp_player x := None)) (out @ [mp_player x])"

definition TryPopMatchedPlayers :: "match_manager \<Rightarrow> int \<Rightarrow> match_manager \<times> player_id list option" where
  "TryPopMatchedPlayers m mode =
     (case QueueByMode m mode of
        None \<Rightarrow> (m, None)
      | Some q \<Rightarrow>
          let need = RequiredCount mode in
          if need = 0 \<or> length q < need then (m, None)
          else case pop_front need q (mm_index m) [] of
                 (q', ix, players) \<Rightarrow> ((set_queue m mode q')\<lparr>mm_index := ix\<rparr>, Some players))"

fun pop_timeouts ::
    "millis \<Rightarrow> millis \<Rightarrow> match_player list \<Rightarrow> (player_id \<rightharpoonup> int)
     \<Rightarrow> match_player list \<times> (player_id \<rightharpoonup> int) \<times> match_player list" where
  "pop_timeouts now timeout [] ix = ([], ix, [])"
| "pop_timeouts now timeout (x # q) ix =
     (if now - mp_join_time x \<ge> timeout then
        (case pop_timeouts now timeout q (ix(mp_player x := None)) of
           (kept, ix', out) \<Rightarrow> (kept, ix', x # out))
      else
        (case pop_timeouts now timeout q ix of (kept, ix', out) \<Rightarrow> (x # kept, ix', out)))"

definition PopTimeoutPlayers ::
    "match_manager \<Rightarrow> millis \<Rightarrow> millis \<Rightarrow> match_manager \<times> match_player list" where
  "PopTimeoutPlayers m now timeout =
     (if timeout \<le> 0 then (m, [])
      else case pop_timeouts now timeout (mm_three m) (mm_index m) of
        (q3, ix3, out3) \<Rightarrow>
          (case pop_timeouts now timeout (mm_four m) ix3 of
             (q4, ix4, out4) \<Rightarrow> (\<lparr>mm_three = q3, mm_four = q4, mm_index = ix4\<rparr>, out3 @ out4)))"

subsection \<open>The pool as an interface\<close>

locale fifo_pool =
  fixes inv :: "'s \<Rightarrow> bool" and waiting :: "'s \<Rightarrow> int \<Rightarrow> player_id list"
    and modes :: "int set" and need :: "int \<Rightarrow> nat"
    and enq :: "'s \<Rightarrow> player_id \<Rightarrow> int \<Rightarrow> 's \<times> bool"
    and leave :: "'s \<Rightarrow> player_id \<Rightarrow> 's"
    and pop :: "'s \<Rightarrow> int \<Rightarrow> 's \<times> player_id list option"
  assumes once: "inv s \<Longrightarrow> distinct (waiting s md)"
    and apart: "inv s \<Longrightarrow> md \<noteq> md' \<Longrightarrow> set (waiting s md) \<inter> set (waiting s md') = {}"
    and enq_inv: "inv s \<Longrightarrow> inv (fst (enq s p md))"
    and enq_refuse: "inv s \<Longrightarrow> (\<exists>md'. p \<in> set (waiting s md')) \<or> md \<notin> modes \<Longrightarrow> enq s p md = (s, False)"
    and enq_last: "inv s \<Longrightarrow> \<forall>md'. p \<notin> set (waiting s md') \<Longrightarrow> md \<in> modes \<Longrightarrow>
      snd (enq s p md) \<and> waiting (fst (enq s p md)) = (waiting s)(md := waiting s md @ [p])"
    and leave_inv: "inv s \<Longrightarrow> inv (leave s p)"
    and leave_only: "inv s \<Longrightarrow> waiting (leave s p) md = filter (\<lambda>q. q \<noteq> p) (waiting s md)"
    and pop_inv: "inv s \<Longrightarrow> inv (fst (pop s md))"
    and pop_none: "inv s \<Longrightarrow> md \<notin> modes \<or> length (waiting s md) < need md \<Longrightarrow> pop s md = (s, None)"
    and pop_some: "inv s \<Longrightarrow> md \<in> modes \<Longrightarrow> need md \<le> length (waiting s md) \<Longrightarrow>
      snd (pop s md) = Some (take (need md) (waiting s md)) \<and>
      waiting (fst (pop s md)) = (waiting s)(md := drop (need md) (waiting s md))"
begin

lemma popped_distinct:
  assumes "inv s" "snd (pop s md) = Some ps"
  shows "distinct ps \<and> length ps = need md \<and> set ps \<subseteq> set (waiting s md) \<and>
    (\<forall>md'. set ps \<inter> set (waiting (fst (pop s md)) md') = {})"
proof -
  have c: "md \<in> modes" "need md \<le> length (waiting s md)"
    using assms pop_none [of s md] by force+
  have ps: "ps = take (need md) (waiting s md)"
    and w: "waiting (fst (pop s md)) = (waiting s)(md := drop (need md) (waiting s md))"
    using pop_some [OF assms(1) c] assms(2) by auto
  have d: "distinct (waiting s md)" by (rule once [OF assms(1)])
  have "set ps \<inter> set (waiting (fst (pop s md)) md') = {}" for md'
  proof (cases "md' = md")
    case True
    then show ?thesis using d ps w by (simp add: set_take_disj_set_drop_if_distinct)
  next
    case False
    then show ?thesis using apart [OF assms(1), of md md'] ps w set_take_subset
      by fastforce
  qed
  then show ?thesis using ps d c by (auto dest: in_set_takeD)
qed

text \<open>First come, first served: who waits in front of a popped player is popped as well.\<close>

lemma pop_fair:
  assumes "inv s" "snd (pop s md) = Some ps" "waiting s md = xs @ p # ys @ q # zs" "q \<in> set ps"
  shows "p \<in> set ps"
proof -
  have c: "md \<in> modes" "need md \<le> length (waiting s md)"
    using assms(1,2) pop_none [of s md] by force+
  have ps: "ps = take (need md) (waiting s md)" using pop_some [OF assms(1) c] assms(2) by auto
  have d: "distinct (waiting s md)" by (rule once [OF assms(1)])
  show ?thesis
  proof (rule ccontr)
    assume "p \<notin> set ps"
    then have "need md \<le> length xs"
      using ps assms(3) by (cases "need md \<le> length xs") (auto simp: take_Cons' split: if_splits)
    then have "set ps \<subseteq> set xs" using ps assms(3) by (auto dest: in_set_takeD)
    then show False using assms(3,4) d by auto
  qed
qed

end

definition waiting_players :: "match_manager \<Rightarrow> int \<Rightarrow> player_id list" where
  "waiting_players m mode =
     (if mode = 3 then map mp_player (mm_three m)
      else if mode = 4 then map mp_player (mm_four m) else [])"

definition match_ok :: "match_manager \<Rightarrow> bool" where
  "match_ok m \<longleftrightarrow>
     (\<forall>p mode. mm_index m p = Some mode \<longleftrightarrow> p \<in> set (waiting_players m mode)) \<and>
     distinct (waiting_players m 3) \<and> distinct (waiting_players m 4)"

lemma match_okD:
  assumes "match_ok m"
  shows "mm_index m p = Some mode \<longleftrightarrow> p \<in> set (waiting_players m mode)"
    "distinct (waiting_players m mode)"
    "mode \<noteq> mode' \<Longrightarrow> set (waiting_players m mode) \<inter> set (waiting_players m mode') = {}"
proof -
  show i: "mm_index m p = Some mode \<longleftrightarrow> p \<in> set (waiting_players m mode)" for p mode
    using assms by (simp add: match_ok_def)
  show "distinct (waiting_players m mode)"
    using assms by (auto simp: match_ok_def waiting_players_def)
  show "mode \<noteq> mode' \<Longrightarrow> set (waiting_players m mode) \<inter> set (waiting_players m mode') = {}"
    using i by (metis disjoint_iff option.inject)
qed

lemma waiting_set_queue:
  "QueueByMode m mode = Some q0 \<Longrightarrow>
     waiting_players (set_queue m mode q\<lparr>mm_index := ix\<rparr>) = (waiting_players m)(mode := map mp_player q)"
  by (auto simp: waiting_players_def set_queue_def QueueByMode_def fun_eq_iff split: if_splits)

lemma waiting_QueueByMode: "QueueByMode m mode = Some q \<Longrightarrow> waiting_players m mode = map mp_player q"
  by (auto simp: waiting_players_def QueueByMode_def split: if_splits)

lemma QueueByMode_iff: "(\<exists>q. QueueByMode m mode = Some q) \<longleftrightarrow> mode \<in> {3, 4}"
  by (auto simp: QueueByMode_def)

lemma match_ok_update:
  assumes "match_ok m" "waiting_players m' = (waiting_players m)(mode := ps)" "distinct ps"
    "\<And>p md. mm_index m' p = Some md \<longleftrightarrow> p \<in> set (((waiting_players m)(mode := ps)) md)"
  shows "match_ok m'"
  using assms match_okD(2) [OF assms(1)] by (simp add: match_ok_def)

lemma Join_cases:
  assumes "match_ok m"
  shows "if (\<exists>md. mp_player pl \<in> set (waiting_players m md)) \<or> mp_mode pl \<notin> {3, 4}
    then Join m pl = (m, False)
    else snd (Join m pl) \<and> match_ok (fst (Join m pl)) \<and>
      waiting_players (fst (Join m pl)) =
        (waiting_players m)(mp_mode pl := waiting_players m (mp_mode pl) @ [mp_player pl])"
proof (cases "(\<exists>md. mp_player pl \<in> set (waiting_players m md)) \<or> mp_mode pl \<notin> {3, 4}")
  case True
  then show ?thesis
    using match_okD(1) [OF assms, of "mp_player pl"] QueueByMode_iff [of m "mp_mode pl"]
    by (auto simp: Join_def split: option.split)
next
  case False
  then obtain q where q: "QueueByMode m (mp_mode pl) = Some q" using QueueByMode_iff by blast
  have new: "mm_index m (mp_player pl) = None"
    using False match_okD(1) [OF assms, of "mp_player pl"] by (cases "mm_index m (mp_player pl)") auto
  have J: "Join m pl = ((set_queue m (mp_mode pl) (q @ [pl]))
      \<lparr>mm_index := (mm_index m)(mp_player pl \<mapsto> mp_mode pl)\<rparr>, True)"
    by (simp add: Join_def new q)
  have w: "waiting_players (fst (Join m pl)) =
      (waiting_players m)(mp_mode pl := waiting_players m (mp_mode pl) @ [mp_player pl])"
    by (simp add: J waiting_set_queue [OF q] waiting_QueueByMode [OF q])
  have "match_ok (fst (Join m pl))"
  proof (rule match_ok_update [OF assms w])
    show "distinct (waiting_players m (mp_mode pl) @ [mp_player pl])"
      using False match_okD(2) [OF assms] by simp
    show "mm_index (fst (Join m pl)) p = Some md \<longleftrightarrow>
        p \<in> set (((waiting_players m)(mp_mode pl := waiting_players m (mp_mode pl) @ [mp_player pl])) md)"
      for p md
      using match_okD(1) [OF assms, of p md] False by (auto simp: J)
  qed
  then show ?thesis using False w J by simp
qed

lemma Cancel_ok:
  assumes "match_ok m"
  shows "match_ok (fst (Cancel m p)) \<and>
    waiting_players (fst (Cancel m p)) md = filter (\<lambda>q. q \<noteq> p) (waiting_players m md) \<and>
    (snd (Cancel m p) \<longleftrightarrow> mm_index m p \<noteq> None)"
proof (cases "mm_index m p")
  case None
  then have "p \<notin> set (waiting_players m md)" using match_okD(1) [OF assms, of p md] by simp
  then have "filter (\<lambda>q. q \<noteq> p) (waiting_players m md) = waiting_players m md"
    by (induction "waiting_players m md") (auto simp: filter_id_conv)
  then show ?thesis using assms None by (simp add: Cancel_def)
next
  case (Some mode)
  then have "p \<in> set (waiting_players m mode)" using match_okD(1) [OF assms] by simp
  then have "mode \<in> {3, 4}" by (auto simp: waiting_players_def split: if_splits)
  then obtain q where q: "QueueByMode m mode = Some q" using QueueByMode_iff by blast
  let ?q = "filter (\<lambda>x. mp_player x \<noteq> p) q"
  have C: "Cancel m p = ((set_queue m mode ?q)\<lparr>mm_index := (mm_index m)(p := None)\<rparr>, True)"
    by (simp add: Cancel_def Some q)
  have mq: "map mp_player ?q = filter (\<lambda>x. x \<noteq> p) (waiting_players m mode)"
    by (simp add: waiting_QueueByMode [OF q] filter_map o_def)
  have w: "waiting_players (fst (Cancel m p)) =
      (waiting_players m)(mode := filter (\<lambda>x. x \<noteq> p) (waiting_players m mode))"
    by (simp add: C waiting_set_queue [OF q] mq)
  have "match_ok (fst (Cancel m p))"
  proof (rule match_ok_update [OF assms w])
    show "distinct (filter (\<lambda>x. x \<noteq> p) (waiting_players m mode))" using match_okD(2) [OF assms] by simp
    show "mm_index (fst (Cancel m p)) x = Some md \<longleftrightarrow>
        x \<in> set (((waiting_players m)(mode := filter (\<lambda>x. x \<noteq> p) (waiting_players m mode))) md)" for x md
      using match_okD(1) [OF assms, of x md] match_okD(1) [OF assms, of p md] Some
      by (auto simp: C)
  qed
  moreover have "filter (\<lambda>q. q \<noteq> p) (waiting_players m md) = waiting_players m md" if "md \<noteq> mode"
    using that match_okD(1) [OF assms, of p md] Some by (auto simp: filter_id_conv)
  ultimately show ?thesis using w Some C by auto
qed

lemma pop_front_eq:
  "n \<le> length q \<Longrightarrow> pop_front n q ix out =
     (drop n q, (\<lambda>p. if p \<in> set (map mp_player (take n q)) then None else ix p),
      out @ map mp_player (take n q))"
proof (induction n q ix out rule: pop_front.induct)
  case (3 n x q ix out)
  have "pop_front n q (ix(mp_player x := None)) (out @ [mp_player x]) =
     (drop n q, (\<lambda>p. if p \<in> set (map mp_player (take n q)) then None else (ix(mp_player x := None)) p),
      (out @ [mp_player x]) @ map mp_player (take n q))"
    by (rule 3(1)) (use 3(2) in simp)
  then show ?case by (simp del: fun_upd_apply) (auto simp: fun_eq_iff)
qed auto

lemma TryPop_ok:
  assumes "match_ok m"
  shows "if mode \<notin> {3, 4} \<or> length (waiting_players m mode) < RequiredCount mode
    then TryPopMatchedPlayers m mode = (m, None)
    else match_ok (fst (TryPopMatchedPlayers m mode)) \<and>
      snd (TryPopMatchedPlayers m mode) = Some (take (RequiredCount mode) (waiting_players m mode)) \<and>
      waiting_players (fst (TryPopMatchedPlayers m mode)) =
        (waiting_players m)(mode := drop (RequiredCount mode) (waiting_players m mode))"
proof (cases "mode \<notin> {3, 4} \<or> length (waiting_players m mode) < RequiredCount mode")
  case True
  then show ?thesis
    using QueueByMode_iff [of m mode] waiting_QueueByMode [of m mode]
    by (auto simp: TryPopMatchedPlayers_def Let_def split: option.split)
next
  case False
  then obtain q where q: "QueueByMode m mode = Some q" using QueueByMode_iff by blast
  let ?n = "RequiredCount mode"
  have n: "?n \<noteq> 0" "?n \<le> length q" using False waiting_QueueByMode [OF q] by (auto simp: RequiredCount_def)
  have T: "TryPopMatchedPlayers m mode =
      ((set_queue m mode (drop ?n q))\<lparr>mm_index :=
         (\<lambda>p. if p \<in> set (map mp_player (take ?n q)) then None else mm_index m p)\<rparr>,
       Some (map mp_player (take ?n q)))"
    using n by (simp add: TryPopMatchedPlayers_def q Let_def pop_front_eq [OF n(2)])
  have mq: "map mp_player (drop ?n q) = drop ?n (waiting_players m mode)"
    "map mp_player (take ?n q) = take ?n (waiting_players m mode)"
    by (simp_all add: waiting_QueueByMode [OF q] drop_map take_map)
  have w: "waiting_players (fst (TryPopMatchedPlayers m mode)) =
      (waiting_players m)(mode := drop ?n (waiting_players m mode))"
    by (simp add: T waiting_set_queue [OF q] mq)
  have d: "distinct (waiting_players m mode)" by (rule match_okD(2) [OF assms])
  then have td: "set (take ?n (waiting_players m mode)) \<inter> set (drop ?n (waiting_players m mode)) = {}"
    by (simp add: set_take_disj_set_drop_if_distinct)
  have un: "set (waiting_players m mode) = set (take ?n (waiting_players m mode)) \<union> set (drop ?n (waiting_players m mode))"
    by (metis append_take_drop_id set_append)
  have "match_ok (fst (TryPopMatchedPlayers m mode))"
  proof (rule match_ok_update [OF assms w])
    show "distinct (drop ?n (waiting_players m mode))" using d by simp
    show "mm_index (fst (TryPopMatchedPlayers m mode)) x = Some md \<longleftrightarrow>
        x \<in> set (((waiting_players m)(mode := drop ?n (waiting_players m mode))) md)" for x md
    proof (cases "md = mode")
      case True
      have "mm_index (fst (TryPopMatchedPlayers m mode)) x =
          (if x \<in> set (take ?n (waiting_players m mode)) then None else mm_index m x)"
        unfolding T mq by simp
      then show ?thesis
        using True match_okD(1) [OF assms, of x md] td un by auto
    next
      case False
      have "mm_index (fst (TryPopMatchedPlayers m mode)) x =
          (if x \<in> set (take ?n (waiting_players m mode)) then None else mm_index m x)"
        unfolding T mq by simp
      then show ?thesis
        using False match_okD(1) [OF assms, of x md] match_okD(3) [OF assms, of md mode] un by auto
    qed
  qed
  then show ?thesis using False w T mq by simp
qed

interpretation pool: fifo_pool match_ok waiting_players "{3, 4}" RequiredCount
    "\<lambda>m p md. Join m \<lparr>mp_player = p, mp_join_time = now, mp_coin = coin, mp_mode = md\<rparr>"
    "\<lambda>m p. fst (Cancel m p)" TryPopMatchedPlayers for now coin
proof (unfold_locales, goal_cases)
  case (3 s p md)
  then show ?case
    using Join_cases [OF 3, of "\<lparr>mp_player = p, mp_join_time = now, mp_coin = coin, mp_mode = md\<rparr>"]
    by (auto split: if_splits)
next
  case (4 s p md)
  then show ?case
    using Join_cases [OF 4(1), of "\<lparr>mp_player = p, mp_join_time = now, mp_coin = coin, mp_mode = md\<rparr>"]
    by simp
next
  case (5 s p md)
  then show ?case
    using Join_cases [OF 5(1), of "\<lparr>mp_player = p, mp_join_time = now, mp_coin = coin, mp_mode = md\<rparr>"]
    by (simp del: insert_iff)
next
  case (8 s md)
  then show ?case using TryPop_ok [OF 8, of md] by (auto split: if_splits)
next
  case (9 s md)
  then show ?case using TryPop_ok [OF 9(1), of md] by (auto split: if_splits)
next
  case (10 s md)
  then show ?case using TryPop_ok [OF 10(1), of md] by (auto split: if_splits)
qed (use match_okD Cancel_ok in blast)+

subsection \<open>Timeouts\<close>

lemma pop_timeouts_eq:
  "pop_timeouts now timeout q ix =
     (filter (\<lambda>x. \<not> now - mp_join_time x \<ge> timeout) q,
      (\<lambda>p. if p \<in> mp_player ` set (filter (\<lambda>x. now - mp_join_time x \<ge> timeout) q) then None else ix p),
      filter (\<lambda>x. now - mp_join_time x \<ge> timeout) q)"
proof (induction now timeout q ix rule: pop_timeouts.induct)
  case (2 now timeout x q ix)
  show ?case
  proof (cases "now - mp_join_time x \<ge> timeout")
    case True
    then show ?thesis using 2(1) [OF True] by (simp del: fun_upd_apply) (auto simp: fun_eq_iff)
  next
    case False
    then show ?thesis using 2(2) [OF False] by simp
  qed
qed simp

lemma PopTimeout_eq:
  assumes "0 < timeout"
  shows "PopTimeoutPlayers m now timeout =
    (let late = (\<lambda>x. now - mp_join_time x \<ge> timeout);
         out = filter late (mm_three m) @ filter late (mm_four m)
     in (\<lparr>mm_three = filter (\<lambda>x. \<not> late x) (mm_three m), mm_four = filter (\<lambda>x. \<not> late x) (mm_four m),
          mm_index = (\<lambda>p. if p \<in> mp_player ` set out then None else mm_index m p)\<rparr>, out))"
  using assms by (auto simp: PopTimeoutPlayers_def pop_timeouts_eq Let_def fun_eq_iff)

lemma distinct_map_disjoint:
  "distinct (map f xs) \<Longrightarrow> x \<in> set xs \<Longrightarrow> y \<in> set xs \<Longrightarrow> f x = f y \<Longrightarrow> x = y"
  by (auto simp: distinct_map inj_on_def)

lemma PopTimeout_ok:
  assumes "match_ok m"
  shows "match_ok (fst (PopTimeoutPlayers m now timeout))"
proof (cases "0 < timeout")
  case False
  then show ?thesis using assms by (simp add: PopTimeoutPlayers_def)
next
  case True
  let ?late = "\<lambda>x. now - mp_join_time x \<ge> timeout"
  let ?m = "fst (PopTimeoutPlayers m now timeout)"
  have w: "waiting_players ?m 3 = map mp_player (filter (\<lambda>x. \<not> ?late x) (mm_three m))"
    "waiting_players ?m 4 = map mp_player (filter (\<lambda>x. \<not> ?late x) (mm_four m))"
    "\<And>md. md \<notin> {3, 4} \<Longrightarrow> waiting_players ?m md = []"
    by (simp_all add: PopTimeout_eq [OF True] Let_def waiting_players_def)
  have d3: "distinct (map mp_player (mm_three m))" and d4: "distinct (map mp_player (mm_four m))"
    using assms by (simp_all add: match_ok_def waiting_players_def)
  have ap: "mp_player x \<noteq> mp_player y" if "x \<in> set (mm_three m)" "y \<in> set (mm_four m)" for x y
    using match_okD(3) [OF assms, of 3 4] that by (fastforce simp: waiting_players_def)
  have ix: "mm_index ?m p = (if p \<in> mp_player ` set (filter ?late (mm_three m) @ filter ?late (mm_four m))
      then None else mm_index m p)" for p
    by (simp add: PopTimeout_eq [OF True] Let_def)
  have wm: "waiting_players m 3 = map mp_player (mm_three m)"
    "waiting_players m 4 = map mp_player (mm_four m)" "\<And>md. md \<notin> {3, 4} \<Longrightarrow> waiting_players m md = []"
    by (simp_all add: waiting_players_def)
  have iff: "mm_index m p = Some md \<longleftrightarrow> p \<in> set (waiting_players m md)" for p md
    by (rule match_okD(1) [OF assms])
  have "mm_index ?m p = Some md \<longleftrightarrow> p \<in> set (waiting_players ?m md)" for p md
  proof -
    consider "md = 3" | "md = 4" | "md \<notin> {3, 4}" by blast
    then show ?thesis
    proof cases
      case 1
      then show ?thesis unfolding ix using iff [of p md] ap distinct_map_disjoint [OF d3]
        by (auto simp: w wm image_iff) metis+
    next
      case 2
      then show ?thesis unfolding ix using iff [of p md] ap distinct_map_disjoint [OF d4]
        by (auto simp: w wm image_iff) metis+
    next
      case 3
      then show ?thesis unfolding ix using iff [of p md] by (auto simp: w wm)
    qed
  qed
  moreover have "distinct (waiting_players ?m 3)" "distinct (waiting_players ?m 4)"
    using d3 d4 by (simp_all add: w distinct_map_filter)
  ultimately show ?thesis by (simp add: match_ok_def)
qed


subsection \<open>Every history of the queues\<close>

inductive match_step :: "match_manager \<Rightarrow> match_manager \<Rightarrow> bool" where
  join: "match_step m (fst (Join m pl))"
| cancel: "match_step m (fst (Cancel m p))"
| pop: "match_step m (fst (TryPopMatchedPlayers m md))"
| sweep: "match_step m (fst (PopTimeoutPlayers m now timeout))"

lemma match_step_ok: "match_step m m' \<Longrightarrow> match_ok m \<Longrightarrow> match_ok m'"
proof (induction rule: match_step.induct)
  case (join m pl)
  then show ?case using Join_cases [OF join, of pl] by (auto split: if_splits)
next
  case (cancel m p)
  then show ?case using Cancel_ok by blast
next
  case (pop m md)
  then show ?case using TryPop_ok [OF pop, of md] by (auto split: if_splits)
next
  case (sweep m now timeout)
  then show ?case by (rule PopTimeout_ok)
qed

lemma empty_match_ok: "match_ok empty_match"
  by (simp add: match_ok_def waiting_players_def empty_match_def)

lemma match_reachable: "match_step\<^sup>*\<^sup>* empty_match m \<Longrightarrow> match_ok m"
  by (induction rule: rtranclp_induct) (auto intro: empty_match_ok match_step_ok)

text \<open>C35: in every history of the queues a player waits at most once, in one queue only, and the
  index knows exactly the players that wait; whoever is taken out for a room is a full table of
  different players, the longest waiting ones, and the others keep their order.\<close>

theorem match_first_come:
  assumes "match_step\<^sup>*\<^sup>* empty_match m"
  shows "distinct (waiting_players m md) \<and>
    (IsMatching m p \<longleftrightarrow> p \<in> set (waiting_players m 3) \<union> set (waiting_players m 4)) \<and>
    set (waiting_players m 3) \<inter> set (waiting_players m 4) = {} \<and>
    (case TryPopMatchedPlayers m md of
       (m', None) \<Rightarrow> m' = m \<and> (md \<notin> {3, 4} \<or> length (waiting_players m md) < RequiredCount md)
     | (m', Some ps) \<Rightarrow> length ps = RequiredCount md \<and> distinct ps \<and>
         waiting_players m md = ps @ waiting_players m' md \<and>
         (\<forall>q \<in> set ps. \<not> IsMatching m' q))"
proof -
  have i: "match_ok m" by (rule match_reachable [OF assms])
  have w: "IsMatching m' q \<longleftrightarrow> (\<exists>md. q \<in> set (waiting_players m' md))" if "match_ok m'" for m' q
    using match_okD(1) [OF that, of q] by (auto simp: IsMatching_def)
  have e: "md \<notin> {3, 4} \<Longrightarrow> waiting_players m md = []" for md by (simp add: waiting_players_def)
  have "(\<exists>md. p \<in> set (waiting_players m md)) \<longleftrightarrow> p \<in> set (waiting_players m 3) \<union> set (waiting_players m 4)"
    using e by (metis Un_iff empty_iff insertE list.set(1))
  moreover have "case TryPopMatchedPlayers m md of
       (m', None) \<Rightarrow> m' = m \<and> (md \<notin> {3, 4} \<or> length (waiting_players m md) < RequiredCount md)
     | (m', Some ps) \<Rightarrow> length ps = RequiredCount md \<and> distinct ps \<and>
         waiting_players m md = ps @ waiting_players m' md \<and> (\<forall>q \<in> set ps. \<not> IsMatching m' q)"
  proof (cases "md \<notin> {3, 4} \<or> length (waiting_players m md) < RequiredCount md")
    case True
    then show ?thesis using pool.pop_none [OF i True] by simp
  next
    case False
    then have c: "md \<in> {3, 4}" "RequiredCount md \<le> length (waiting_players m md)" by auto
    obtain m' ps where T: "TryPopMatchedPlayers m md = (m', Some ps)"
      using pool.pop_some [OF i c] by (cases "TryPopMatchedPlayers m md") auto
    have "waiting_players m md = ps @ waiting_players m' md"
      using pool.pop_some [OF i c] T by simp
    then show ?thesis
      using T pool.popped_distinct [OF i, of md ps] pool.pop_inv [OF i, of md] w [of m'] by auto
  qed
  ultimately show ?thesis
    using w [OF i] pool.once [OF i] pool.apart [OF i, of 3 4] by simp
qed

theorem match_first_come_witness:
  "\<not> IsMatching (fst (Join empty_match \<lparr>mp_player = 7, mp_join_time = 0, mp_coin = 0, mp_mode = 3\<rparr>)) 8"
proof -
  have "match_step\<^sup>*\<^sup>* empty_match
      (fst (Join empty_match \<lparr>mp_player = 7, mp_join_time = 0, mp_coin = 0, mp_mode = 3\<rparr>))"
    by (rule r_into_rtranclp) (rule match_step.join)
  from match_first_come [OF this, of 3 8] show ?thesis
    by (simp add: Join_def empty_match_def QueueByMode_def set_queue_def waiting_players_def)
qed

end
