(* ===== verification/DdzLobby.thy ===== *)
theory DdzLobby
  imports DdzMatch
begin

text \<open>
  The match service, \<^verbatim>\<open>service/match/match_service.cpp\<close>, over the four managers it shares with
  the other services (\<open>core\<close>), and the invariant that ties the managers together: a player who
  waits for a match sits in no room, and a player who sits in a room has a session that says so.
\<close>

text \<open>The managers that \<^verbatim>\<open>GameServer\<close> owns and hands to its services by reference.\<close>

record core =
  co_sessions :: session_manager
  co_players :: player_manager
  co_match :: match_manager
  co_rooms :: room_manager

definition empty_core :: core where
  "empty_core = \<lparr>co_sessions = empty_sessions, co_players = Map.empty, co_match = empty_match,
     co_rooms = empty_manager\<rparr>"

subsection \<open>The handlers\<close>

record match_result =
  mr_code :: error_code
  mr_player :: player_id
  mr_matched :: bool
  mr_room :: room_id
  mr_mode :: int
  mr_players :: "player_id list"

definition match_result0 :: match_result where
  "match_result0 = \<lparr>mr_code = UNKNOWN_ERROR, mr_player = 0, mr_matched = False, mr_room = 0,
     mr_mode = 0, mr_players = []\<rparr>"

text \<open>\<^verbatim>\<open>std::stoi\<close> without a check of \<^verbatim>\<open>idx\<close>: characters after the number are ignored.\<close>

definition ParseMode :: "string \<Rightarrow> int option" where
  "ParseMode body =
     (case ParseKvBody body ''mode'' of
        None \<Rightarrow> None
      | Some text \<Rightarrow>
          (case stoi text of
             None \<Rightarrow> None
           | Some (mode, _) \<Rightarrow> if mode = 3 then Some mode else None))"

text \<open>The loop after \<^verbatim>\<open>CreateRoom\<close>.\<close>

definition seat_players :: "core \<Rightarrow> room_id \<Rightarrow> player_id list \<Rightarrow> core" where
  "seat_players c rid ps =
     foldl (\<lambda>c pid. c\<lparr>co_sessions := fst (SetRoomId (co_sessions c) pid rid),
                      co_players := ForceState (co_players c) pid InRoom\<rparr>) c ps"

definition HandleMatch :: "core \<Rightarrow> conn_id \<Rightarrow> string \<Rightarrow> millis \<Rightarrow> core \<times> match_result" where
  "HandleMatch c conn body now =
     (case GetPlayerIdByConnection (co_sessions c) conn of
        None \<Rightarrow> (c, match_result0\<lparr>mr_code := NOT_LOGIN\<rparr>)
      | Some p \<Rightarrow>
          let r0 = match_result0\<lparr>mr_player := p\<rparr> in
          (case ParseMode body of
             None \<Rightarrow> (c, r0\<lparr>mr_code := MATCH_MODE_INVALID\<rparr>)
           | Some mode \<Rightarrow>
               let r1 = r0\<lparr>mr_mode := mode\<rparr>; st = GetState (co_players c) p in
               if st \<noteq> Lobby then
                 (if st = InRoom \<or> st = PlayingP \<or> st = Settlement
                  then (c, r1\<lparr>mr_code := PLAYER_ALREADY_IN_ROOM\<rparr>)
                  else (c, r1\<lparr>mr_code := INVALID_PLAYER_STATE\<rparr>))
               else
                 let coin = (case GetPlayer (co_players c) p of Some d \<Rightarrow> pl_coin d | None \<Rightarrow> 0);
                     (mm, joined) = Join (co_match c) \<lparr>mp_player = p, mp_join_time = now,
                                       mp_coin = coin, mp_mode = mode\<rparr>
                 in if \<not> joined then (c, r1\<lparr>mr_code := PLAYER_ALREADY_MATCHING\<rparr>)
                    else
                      (case SetState (co_players c) p Matching of
                         (_, False) \<Rightarrow>
                           (c\<lparr>co_match := fst (Cancel mm p)\<rparr>, r1\<lparr>mr_code := INVALID_PLAYER_STATE\<rparr>)
                       | (pm, True) \<Rightarrow>
                           (case TryPopMatchedPlayers mm mode of
                              (mm2, None) \<Rightarrow>
                                (c\<lparr>co_players := pm, co_match := mm2\<rparr>, r1\<lparr>mr_code := OK\<rparr>)
                            | (mm2, Some ps) \<Rightarrow>
                                (case CreateRoom (co_rooms c) mode ps of
                                   (rooms, rid) \<Rightarrow>
                                     (seat_players (c\<lparr>co_players := pm, co_match := mm2,
                                                      co_rooms := rooms\<rparr>) rid ps,
                                      r1\<lparr>mr_code := OK, mr_matched := True, mr_room := rid,
                                         mr_players := ps\<rparr>))))))"

definition HandleCancelMatch :: "core \<Rightarrow> conn_id \<Rightarrow> core \<times> error_code \<times> player_id" where
  "HandleCancelMatch c conn =
     (case GetPlayerIdByConnection (co_sessions c) conn of
        None \<Rightarrow> (c, NOT_LOGIN, 0)
      | Some p \<Rightarrow>
          if GetState (co_players c) p \<noteq> Matching then (c, INVALID_PLAYER_STATE, p)
          else
            (case Cancel (co_match c) p of
               (mm, False) \<Rightarrow> (c\<lparr>co_match := mm\<rparr>, MATCH_CANCEL_FAILED, p)
             | (mm, True) \<Rightarrow>
                 (c\<lparr>co_match := mm, co_players := ForceState (co_players c) p Lobby\<rparr>, OK, p)))"

definition HandleMatchTimeout :: "core \<Rightarrow> millis \<Rightarrow> millis \<Rightarrow> core \<times> (player_id \<times> int) list" where
  "HandleMatchTimeout c now timeout =
     (case PopTimeoutPlayers (co_match c) now timeout of
        (mm, late) \<Rightarrow>
          (c\<lparr>co_players := foldl (\<lambda>pm x. if GetState pm (mp_player x) = Matching
                                          then ForceState pm (mp_player x) Lobby else pm)
                             (co_players c) late,
             co_match := mm\<rparr>,
           map (\<lambda>x. (mp_player x, mp_mode x)) late))"

subsection \<open>The invariant across the managers\<close>

definition waits :: "core \<Rightarrow> player_id \<Rightarrow> bool" where
  "waits c p = IsMatching (co_match c) p"

definition in_room :: "core \<Rightarrow> player_id \<Rightarrow> bool" where
  "in_room c p = (GetRoomIdByPlayer (co_rooms c) p \<noteq> None)"

text \<open>Who waits has logged in and is not in a room; who is in a room has a session with that
  room; the states \<open>Lobby\<close> and \<open>Matching\<close> are told apart by the queue.\<close>

definition core_ok :: "core \<Rightarrow> bool" where
  "core_ok c \<longleftrightarrow>
     manager_ok (co_rooms c) \<and> match_ok (co_match c) \<and> 0 < mg_next_id (co_rooms c) \<and>
     (\<forall>p. waits c p \<longrightarrow> \<not> in_room c p \<and> sm_sessions (co_sessions c) p \<noteq> None) \<and>
     (\<forall>p rid. GetRoomIdByPlayer (co_rooms c) p = Some rid \<longrightarrow>
        0 < rid \<and> (\<exists>s. sm_sessions (co_sessions c) p = Some s \<and> ss_room s = rid)) \<and>
     (\<forall>p. GetState (co_players c) p = Matching \<longrightarrow> waits c p) \<and>
     (\<forall>p. GetState (co_players c) p = Lobby \<longrightarrow> \<not> in_room c p) \<and>
     (\<forall>conn p. sm_conn (co_sessions c) conn = Some p \<longrightarrow> sm_sessions (co_sessions c) p \<noteq> None) \<and>
     (\<forall>p. sm_sessions (co_sessions c) p \<noteq> None \<longrightarrow> 0 < p)"

lemma empty_core_ok: "core_ok empty_core"
  by (auto simp: core_ok_def empty_core_def empty_manager_ok match_ok_def waiting_players_def
      empty_match_def waits_def IsMatching_def in_room_def GetRoomIdByPlayer_def empty_manager_def
      empty_sessions_def GetState_def)
    (simp_all add: empty_manager_ok [unfolded empty_manager_def])

lemma core_okD:
  assumes "core_ok c"
  shows "manager_ok (co_rooms c)" "match_ok (co_match c)" "0 < mg_next_id (co_rooms c)"
    "waits c p \<Longrightarrow> \<not> in_room c p" "waits c p \<Longrightarrow> sm_sessions (co_sessions c) p \<noteq> None"
    "mg_player_room (co_rooms c) p = Some rid \<Longrightarrow>
       0 < rid \<and> (\<exists>s. sm_sessions (co_sessions c) p = Some s \<and> ss_room s = rid)"
    "GetState (co_players c) p = Matching \<Longrightarrow> waits c p"
    "GetState (co_players c) p = Lobby \<Longrightarrow> \<not> in_room c p"
    "sm_conn (co_sessions c) conn = Some p \<Longrightarrow> sm_sessions (co_sessions c) p \<noteq> None"
    "sm_sessions (co_sessions c) p \<noteq> None \<Longrightarrow> 0 < p"
  using assms by (auto simp: core_ok_def GetRoomIdByPlayer_def)

lemma waits_iff: "match_ok (co_match c) \<Longrightarrow> waits c p \<longleftrightarrow> (\<exists>md. p \<in> set (waiting_players (co_match c) md))"
  using match_okD(1) [of "co_match c" p] by (auto simp: waits_def IsMatching_def)

lemma SetRoomId_sel:
  "sm_conn (fst (SetRoomId m q rid)) = sm_conn m"
  "sm_sessions (fst (SetRoomId m q rid)) p =
     (if p = q then map_option (\<lambda>s. s\<lparr>ss_room := rid\<rparr>) (sm_sessions m p) else sm_sessions m p)"
  by (auto simp: SetRoomId_def split: option.split)

lemma seat_players_snoc:
  "seat_players c rid (ps @ [q]) =
     (let c' = seat_players c rid ps in
      c'\<lparr>co_sessions := fst (SetRoomId (co_sessions c') q rid),
         co_players := ForceState (co_players c') q InRoom\<rparr>)"
  by (simp add: seat_players_def Let_def)

lemma seat_players_sel:
  "co_match (seat_players c rid ps) = co_match c"
  "co_rooms (seat_players c rid ps) = co_rooms c"
  "sm_conn (co_sessions (seat_players c rid ps)) = sm_conn (co_sessions c)"
  "GetState (co_players (seat_players c rid ps)) p =
     (if p \<in> set ps then InRoom else GetState (co_players c) p)"
  "sm_sessions (co_sessions (seat_players c rid ps)) p =
     (if p \<in> set ps then map_option (\<lambda>s. s\<lparr>ss_room := rid\<rparr>) (sm_sessions (co_sessions c) p)
      else sm_sessions (co_sessions c) p)"
proof (atomize (full), induction ps rule: rev_induct)
  case Nil
  then show ?case by (simp add: seat_players_def)
next
  case (snoc q ps)
  then show ?case
    by (auto simp: seat_players_snoc Let_def SetRoomId_sel option.map_comp o_def)
qed


text \<open>Who waits for a match is a seated player's candidate: registered once, known, not playing.\<close>

lemma CreateRoom_sel:
  "mg_player_room (fst (CreateRoom m mode ps)) p = (if p \<in> set ps then Some (mg_next_id m) else mg_player_room m p)"
  "mg_next_id (fst (CreateRoom m mode ps)) = mg_next_id m + 1"
  "snd (CreateRoom m mode ps) = mg_next_id m"
  by (simp_all add: CreateRoom_def Let_def foldl_upd)

lemma core_match_only:
  assumes "core_ok c" "match_ok mm"
    "\<And>p. IsMatching mm p \<Longrightarrow> \<not> in_room c p \<and> sm_sessions (co_sessions c) p \<noteq> None"
    "\<And>p. GetState pm p = Matching \<Longrightarrow> IsMatching mm p"
    "\<And>p. GetState pm p = Lobby \<Longrightarrow> \<not> in_room c p"
  shows "core_ok (c\<lparr>co_players := pm, co_match := mm\<rparr>)"
  using assms core_okD [OF assms(1)]
  by (simp add: core_ok_def waits_def in_room_def)

lemma SetState_known:
  assumes "GetState m p = st" "st \<noteq> Offline" "IsTransitionAllowed st st'"
  shows "snd (SetState m p st')"
    "GetState (fst (SetState m p st')) q = (if q = p then st' else GetState m q)"
  using assms by (auto simp: SetState_def GetState_def split: option.splits)

lemma ParseMode_3: "ParseMode body = Some mode \<Longrightarrow> mode = 3"
  by (auto simp: ParseMode_def split: option.splits if_splits)

lemma TryPop_three:
  assumes "match_ok mm" "waiting_players mm 3 = ws"
  shows "length ws < 3 \<Longrightarrow> TryPopMatchedPlayers mm 3 = (mm, None)"
    "3 \<le> length ws \<Longrightarrow> \<exists>mm2. TryPopMatchedPlayers mm 3 = (mm2, Some (take 3 ws)) \<and> match_ok mm2 \<and>
       waiting_players mm2 = (waiting_players mm)(3 := drop 3 ws)"
proof -
  have R: "RequiredCount 3 = 3" by (simp add: RequiredCount_def)
  show "length ws < 3 \<Longrightarrow> TryPopMatchedPlayers mm 3 = (mm, None)"
    using TryPop_ok [OF assms(1), of 3] assms(2) R by simp
  show "3 \<le> length ws \<Longrightarrow> \<exists>mm2. TryPopMatchedPlayers mm 3 = (mm2, Some (take 3 ws)) \<and> match_ok mm2 \<and>
       waiting_players mm2 = (waiting_players mm)(3 := drop 3 ws)"
    using TryPop_ok [OF assms(1), of 3] assms(2) R
    by (cases "TryPopMatchedPlayers mm 3") auto
qed

text \<open>The accepted request: the caller is appended to the queue and the queue is popped once.\<close>

lemma HandleMatch_joined:
  assumes c: "core_ok c" and conn: "GetPlayerIdByConnection (co_sessions c) conn = Some p"
    and mode: "ParseMode body = Some 3" and st: "GetState (co_players c) p = Lobby" and w: "\<not> waits c p"
  obtains mm where "match_ok mm"
    "waiting_players mm = (waiting_players (co_match c))(3 := waiting_players (co_match c) 3 @ [p])"
    "HandleMatch c conn body now =
       (let c1 = c\<lparr>co_players := fst (SetState (co_players c) p Matching)\<rparr>;
            r1 = match_result0\<lparr>mr_player := p, mr_mode := 3\<rparr> in
        case TryPopMatchedPlayers mm 3 of
          (mm2, None) \<Rightarrow> (c1\<lparr>co_match := mm2\<rparr>, r1\<lparr>mr_code := OK\<rparr>)
        | (mm2, Some ps) \<Rightarrow>
            (seat_players (c1\<lparr>co_match := mm2, co_rooms := fst (CreateRoom (co_rooms c) 3 ps)\<rparr>)
               (mg_next_id (co_rooms c)) ps,
             r1\<lparr>mr_code := OK, mr_matched := True, mr_room := mg_next_id (co_rooms c), mr_players := ps\<rparr>))"
proof -
  let ?pl = "\<lparr>mp_player = p, mp_join_time = now,
    mp_coin = (case GetPlayer (co_players c) p of Some d \<Rightarrow> pl_coin d | None \<Rightarrow> 0), mp_mode = 3\<rparr>"
  have m: "match_ok (co_match c)" by (rule core_okD(2) [OF c])
  have "\<not> (\<exists>md. mp_player ?pl \<in> set (waiting_players (co_match c) md))" using w waits_iff [OF m] by simp
  then have J: "snd (Join (co_match c) ?pl)" "match_ok (fst (Join (co_match c) ?pl))"
    "waiting_players (fst (Join (co_match c) ?pl)) =
       (waiting_players (co_match c))(3 := waiting_players (co_match c) 3 @ [p])"
    using Join_cases [OF m, of ?pl] by auto
  obtain pm where pm: "SetState (co_players c) p Matching = (pm, True)"
    using SetState_known(1) [OF st, of Matching] by (cases "SetState (co_players c) p Matching") auto
  show thesis
  proof (rule that [OF J(2,3)])
    show "HandleMatch c conn body now =
       (let c1 = c\<lparr>co_players := fst (SetState (co_players c) p Matching)\<rparr>;
            r1 = match_result0\<lparr>mr_player := p, mr_mode := 3\<rparr> in
        case TryPopMatchedPlayers (fst (Join (co_match c) ?pl)) 3 of
          (mm2, None) \<Rightarrow> (c1\<lparr>co_match := mm2\<rparr>, r1\<lparr>mr_code := OK\<rparr>)
        | (mm2, Some ps) \<Rightarrow>
            (seat_players (c1\<lparr>co_match := mm2, co_rooms := fst (CreateRoom (co_rooms c) 3 ps)\<rparr>)
               (mg_next_id (co_rooms c)) ps,
             r1\<lparr>mr_code := OK, mr_matched := True, mr_room := mg_next_id (co_rooms c), mr_players := ps\<rparr>))"
      using J(1) by (simp add: HandleMatch_def conn mode st pm Let_def split_beta CreateRoom_sel(3)
          split: option.split prod.split)
  qed
qed

lemma HandleMatch_refused:
  assumes "core_ok c"
  shows "GetPlayerIdByConnection (co_sessions c) conn = None \<Longrightarrow>
      HandleMatch c conn body now = (c, match_result0\<lparr>mr_code := NOT_LOGIN\<rparr>)"
    "GetPlayerIdByConnection (co_sessions c) conn = Some p \<Longrightarrow> ParseMode body = None \<Longrightarrow>
      HandleMatch c conn body now = (c, match_result0\<lparr>mr_player := p, mr_code := MATCH_MODE_INVALID\<rparr>)"
    "GetPlayerIdByConnection (co_sessions c) conn = Some p \<Longrightarrow> ParseMode body = Some 3 \<Longrightarrow>
      GetState (co_players c) p \<noteq> Lobby \<Longrightarrow>
      HandleMatch c conn body now = (c, match_result0\<lparr>mr_player := p, mr_mode := 3,
        mr_code := (if GetState (co_players c) p \<in> {InRoom, PlayingP, Settlement}
                    then PLAYER_ALREADY_IN_ROOM else INVALID_PLAYER_STATE)\<rparr>)"
    "GetPlayerIdByConnection (co_sessions c) conn = Some p \<Longrightarrow> ParseMode body = Some 3 \<Longrightarrow>
      GetState (co_players c) p = Lobby \<Longrightarrow> waits c p \<Longrightarrow>
      HandleMatch c conn body now =
        (c, match_result0\<lparr>mr_player := p, mr_mode := 3, mr_code := PLAYER_ALREADY_MATCHING\<rparr>)"
proof -
  show "GetPlayerIdByConnection (co_sessions c) conn = Some p \<Longrightarrow> ParseMode body = Some 3 \<Longrightarrow>
      GetState (co_players c) p = Lobby \<Longrightarrow> waits c p \<Longrightarrow>
      HandleMatch c conn body now =
        (c, match_result0\<lparr>mr_player := p, mr_mode := 3, mr_code := PLAYER_ALREADY_MATCHING\<rparr>)"
    by (simp add: HandleMatch_def Join_def waits_def IsMatching_def Let_def)
qed (auto simp: HandleMatch_def Let_def)


lemma waits_queue: "match_ok mm \<Longrightarrow> IsMatching mm p \<longleftrightarrow> (\<exists>md. p \<in> set (waiting_players mm md))"
  using match_okD(1) [of mm p] by (auto simp: IsMatching_def)

lemma seat_players_ok:
  assumes c: "core_ok c" and mm: "match_ok mm"
    and ps: "seated ps" "\<forall>p \<in> set ps. sm_sessions (co_sessions c) p \<noteq> None \<and> \<not> in_room c p"
    and w: "\<And>q. IsMatching mm q \<Longrightarrow> q \<notin> set ps \<and> \<not> in_room c q \<and> sm_sessions (co_sessions c) q \<noteq> None"
    and st: "\<And>q. GetState pm q = Matching \<Longrightarrow> q \<notin> set ps \<Longrightarrow> IsMatching mm q"
      "\<And>q. GetState pm q = Lobby \<Longrightarrow> q \<notin> set ps \<Longrightarrow> \<not> in_room c q"
  shows "core_ok (seat_players (c\<lparr>co_players := pm, co_match := mm,
      co_rooms := fst (CreateRoom (co_rooms c) mode ps)\<rparr>) (mg_next_id (co_rooms c)) ps)"
    (is "core_ok (seat_players ?c ?rid ps)")
proof -
  note D = core_okD [OF c]
  have rooms: "manager_ok (fst (CreateRoom (co_rooms c) mode ps))"
    using CreateRoom_ok [OF D(1) ps(1)] ps(2) by (simp add: in_room_def GetRoomIdByPlayer_def)
  have a: "waits (seat_players ?c ?rid ps) q \<longrightarrow> \<not> in_room (seat_players ?c ?rid ps) q \<and>
      sm_sessions (co_sessions (seat_players ?c ?rid ps)) q \<noteq> None" for q
    using w [of q] by (simp add: waits_def in_room_def seat_players_sel GetRoomIdByPlayer_def CreateRoom_sel)
  have b: "GetRoomIdByPlayer (co_rooms (seat_players ?c ?rid ps)) q = Some r \<longrightarrow>
      0 < r \<and> (\<exists>s. sm_sessions (co_sessions (seat_players ?c ?rid ps)) q = Some s \<and> ss_room s = r)" for q r
    using ps(2) D(3) D(6) [of q r]
    by (auto simp: seat_players_sel GetRoomIdByPlayer_def CreateRoom_sel)
  have d: "GetState (co_players (seat_players ?c ?rid ps)) q = Matching \<longrightarrow> waits (seat_players ?c ?rid ps) q" for q
    using st(1) [of q] by (simp add: waits_def seat_players_sel)
  have e: "GetState (co_players (seat_players ?c ?rid ps)) q = Lobby \<longrightarrow> \<not> in_room (seat_players ?c ?rid ps) q" for q
    using st(2) [of q] by (simp add: in_room_def seat_players_sel GetRoomIdByPlayer_def CreateRoom_sel)
  have f: "sm_conn (co_sessions (seat_players ?c ?rid ps)) cn = Some q \<longrightarrow>
      sm_sessions (co_sessions (seat_players ?c ?rid ps)) q \<noteq> None" for cn q
    using D(9) [of cn q] by (simp add: seat_players_sel)
  have g: "sm_sessions (co_sessions (seat_players ?c ?rid ps)) q \<noteq> None \<longrightarrow> 0 < q" for q
    using D(10) [of q] by (simp add: seat_players_sel)
  show ?thesis unfolding core_ok_def
    using rooms mm D(3) a b d e f g by (simp add: seat_players_sel CreateRoom_sel(2))
qed

lemma pop_waits:
  assumes "match_ok mm" "match_ok mm2"
    "waiting_players mm2 = (waiting_players mm)(3 := drop n ws)" "waiting_players mm 3 = ws"
  shows "IsMatching mm2 q \<longleftrightarrow> IsMatching mm q \<and> q \<notin> set (take n ws)"
proof -
  have un: "set ws = set (take n ws) \<union> set (drop n ws)" by (metis append_take_drop_id set_append)
  have di: "set (take n ws) \<inter> set (drop n ws) = {}"
    using match_okD(2) [OF assms(1), of 3] assms(4) by (simp add: set_take_disj_set_drop_if_distinct)
  have ap: "md \<noteq> 3 \<Longrightarrow> set ws \<inter> set (waiting_players mm md) = {}" for md
    using match_okD(3) [OF assms(1), of 3 md] assms(4) by simp
  show ?thesis
  proof (cases "q \<in> set ws")
    case True
    then have "IsMatching mm q" unfolding waits_queue [OF assms(1)] using assms(4) by blast
    moreover have "IsMatching mm2 q \<longleftrightarrow> q \<in> set (drop n ws)"
    proof
      assume "IsMatching mm2 q"
      then obtain md where "q \<in> set (waiting_players mm2 md)" unfolding waits_queue [OF assms(2)] by blast
      then show "q \<in> set (drop n ws)" using ap [of md] True assms(3) by (cases "md = 3") auto
    next
      assume "q \<in> set (drop n ws)"
      then have "q \<in> set (waiting_players mm2 3)" using assms(3) by simp
      then show "IsMatching mm2 q" unfolding waits_queue [OF assms(2)] by blast
    qed
    ultimately show ?thesis using True un di by auto
  next
    case False
    then have "q \<notin> set (drop n ws)" "q \<notin> set (take n ws)" using un by auto
    moreover have "q \<in> set (waiting_players mm2 md) \<longleftrightarrow> q \<in> set (waiting_players mm md)" for md
      using False calculation(1) assms(3,4) by (cases "md = 3") auto
    ultimately show ?thesis unfolding waits_queue [OF assms(2)] waits_queue [OF assms(1)] by simp
  qed
qed

text \<open>What a match does when enough players wait: the first three of the queue, the caller
  included when it is among them, get a room.\<close>

lemma HandleMatch_full:
  assumes c: "core_ok c" and conn: "GetPlayerIdByConnection (co_sessions c) conn = Some p"
    and mode: "ParseMode body = Some 3" and st: "GetState (co_players c) p = Lobby" and w: "\<not> waits c p"
    and ws: "ws = waiting_players (co_match c) 3 @ [p]"
    and H: "HandleMatch c conn body now = (c', r)"
  shows "core_ok c' \<and> mr_code r = OK \<and> mr_player r = p \<and>
    (mr_matched r \<longleftrightarrow> 3 \<le> length ws) \<and>
    (length ws < 3 \<longrightarrow> waiting_players (co_match c') 3 = ws \<and> co_rooms c' = co_rooms c \<and>
       GetState (co_players c') p = Matching) \<and>
    (3 \<le> length ws \<longrightarrow>
       mr_players r = take 3 ws \<and> mr_room r = mg_next_id (co_rooms c) \<and>
       waiting_players (co_match c') 3 = drop 3 ws \<and>
       mg_rooms (co_rooms c') (mr_room r) = Some (new_room (mr_room r) 3 (take 3 ws)) \<and>
       (\<forall>q \<in> set (take 3 ws). GetState (co_players c') q = InRoom \<and>
          GetRoomIdByPlayer (co_rooms c') q = Some (mr_room r) \<and>
          map_option ss_room (sm_sessions (co_sessions c') q) = Some (mr_room r))) \<and>
    (\<forall>q. (waits c' q \<longleftrightarrow> (waits c q \<or> q = p) \<and> (3 \<le> length ws \<longrightarrow> q \<notin> set (take 3 ws))) \<and>
       (length ws < 3 \<or> q \<notin> set (take 3 ws) \<longrightarrow>
          GetRoomIdByPlayer (co_rooms c') q = GetRoomIdByPlayer (co_rooms c) q) \<and>
       GetConnectionIdByPlayer (co_sessions c') q = GetConnectionIdByPlayer (co_sessions c) q)"
proof -
  note D = core_okD [OF c]
  let ?pm = "fst (SetState (co_players c) p Matching)"
  obtain mm where mm: "match_ok mm" "waiting_players mm = (waiting_players (co_match c))(3 := ws)"
    and E: "HandleMatch c conn body now =
       (let c1 = c\<lparr>co_players := ?pm\<rparr>; r1 = match_result0\<lparr>mr_player := p, mr_mode := 3\<rparr> in
        case TryPopMatchedPlayers mm 3 of
          (mm2, None) \<Rightarrow> (c1\<lparr>co_match := mm2\<rparr>, r1\<lparr>mr_code := OK\<rparr>)
        | (mm2, Some ps) \<Rightarrow>
            (seat_players (c1\<lparr>co_match := mm2, co_rooms := fst (CreateRoom (co_rooms c) 3 ps)\<rparr>)
               (mg_next_id (co_rooms c)) ps,
             r1\<lparr>mr_code := OK, mr_matched := True, mr_room := mg_next_id (co_rooms c), mr_players := ps\<rparr>))"
    using HandleMatch_joined [OF c conn mode st w] ws by blast
  have pm: "GetState ?pm q = (if q = p then Matching else GetState (co_players c) q)" for q
    using SetState_known(2) [OF st, of Matching] by simp
  have known: "sm_sessions (co_sessions c) p \<noteq> None"
    using D(9) [of conn p] conn by (simp add: GetPlayerIdByConnection_def)
  have inws: "q \<in> set ws \<Longrightarrow> waits c q \<or> q = p" for q
    using ws waits_iff [OF D(2), of q] by auto
  have free: "q \<in> set ws \<Longrightarrow> sm_sessions (co_sessions c) q \<noteq> None \<and> \<not> in_room c q" for q
    using inws D(4) [of q] D(5) [of q] D(8) [OF st] known by blast
  have wmm: "IsMatching mm q \<longleftrightarrow> waits c q \<or> q = p" for q
    unfolding waits_queue [OF mm(1)] waits_iff [OF D(2)] mm(2) ws by (auto, metis)
  have pin: "p \<in> set ws" by (simp add: ws)
  have d: "distinct ws" using match_okD(2) [OF mm(1), of 3] mm(2) by simp
  show ?thesis
  proof (cases "3 \<le> length ws")
    case False
    then have "TryPopMatchedPlayers mm 3 = (mm, None)" using TryPop_three(1) [OF mm(1), of ws] mm(2) by simp
    then have c': "c' = c\<lparr>co_players := ?pm, co_match := mm\<rparr>"
      and r: "r = match_result0\<lparr>mr_player := p, mr_mode := 3, mr_code := OK\<rparr>"
      using E H by (simp_all add: Let_def)
    have "core_ok (c\<lparr>co_players := ?pm, co_match := mm\<rparr>)"
    proof (rule core_match_only [OF c mm(1)])
      show "IsMatching mm q \<Longrightarrow> \<not> in_room c q \<and> sm_sessions (co_sessions c) q \<noteq> None" for q
        using wmm D(4) [of q] D(5) [of q] free [of p] ws by auto
      show "GetState ?pm q = Matching \<Longrightarrow> IsMatching mm q" for q
        using wmm pm D(7) [of q] by (simp split: if_splits)
      show "GetState ?pm q = Lobby \<Longrightarrow> \<not> in_room c q" for q
        using pm D(8) [of q] by (simp split: if_splits)
    qed
    moreover have "waits c' q \<longleftrightarrow> waits c q \<or> q = p" for q using wmm [of q] by (simp add: c' waits_def)
    ultimately show ?thesis using False c' r mm(2) pm by (simp add: match_result0_def)
  next
    case True
    then obtain mm2 where T: "TryPopMatchedPlayers mm 3 = (mm2, Some (take 3 ws))" and mm2: "match_ok mm2"
      "waiting_players mm2 = (waiting_players mm)(3 := drop 3 ws)"
      using TryPop_three(2) [OF mm(1), of ws] mm(2) by auto
    let ?c = "c\<lparr>co_players := ?pm, co_match := mm2, co_rooms := fst (CreateRoom (co_rooms c) 3 (take 3 ws))\<rparr>"
    have c': "c' = seat_players ?c (mg_next_id (co_rooms c)) (take 3 ws)"
      and r: "r = match_result0\<lparr>mr_player := p, mr_mode := 3, mr_code := OK, mr_matched := True,
        mr_room := mg_next_id (co_rooms c), mr_players := take 3 ws\<rparr>"
      using E H T by (simp_all add: Let_def)
    have wmm2: "IsMatching mm2 q \<longleftrightarrow> IsMatching mm q \<and> q \<notin> set (take 3 ws)" for q
      by (rule pop_waits [OF mm(1) mm2(1) mm2(2)]) (simp add: mm(2))
    have st2: "seated (take 3 ws)"
    proof -
      have "0 < q" if "q \<in> set (take 3 ws)" for q
        using free [of q] in_set_takeD [OF that] D(10) [of q] by blast
      then show ?thesis using d True by (auto simp: seated_def)
    qed
    have ok: "core_ok c'" unfolding c'
    proof (rule seat_players_ok [OF c mm2(1) st2])
      show "\<forall>q \<in> set (take 3 ws). sm_sessions (co_sessions c) q \<noteq> None \<and> \<not> in_room c q"
        by (intro ballI) (rule free, erule in_set_takeD)
      show "IsMatching mm2 q \<Longrightarrow> q \<notin> set (take 3 ws) \<and> \<not> in_room c q \<and> sm_sessions (co_sessions c) q \<noteq> None" for q
        using wmm [of q] wmm2 [of q] D(4) [of q] D(5) [of q] free [OF pin] by blast
      show "GetState ?pm q = Matching \<Longrightarrow> q \<notin> set (take 3 ws) \<Longrightarrow> IsMatching mm2 q" for q
        using wmm [of q] wmm2 [of q] pm [of q] D(7) [of q] by (simp split: if_splits)
      show "GetState ?pm q = Lobby \<Longrightarrow> q \<notin> set (take 3 ws) \<Longrightarrow> \<not> in_room c q" for q
        using pm D(8) [of q] by (simp split: if_splits)
    qed
    define ps where "ps = take 3 ws"
    have room: "mg_rooms (fst (CreateRoom (co_rooms c) 3 ps)) (mg_next_id (co_rooms c)) =
        Some (new_room (mg_next_id (co_rooms c)) 3 ps)"
      by (simp add: CreateRoom_def Let_def)
    have seat: "q \<in> set ps \<Longrightarrow> GetState (co_players c') q = InRoom \<and>
        GetRoomIdByPlayer (co_rooms c') q = Some (mg_next_id (co_rooms c)) \<and>
        map_option ss_room (sm_sessions (co_sessions c') q) = Some (mg_next_id (co_rooms c))" for q
    proof -
      assume q: "q \<in> set ps"
      then obtain s where "sm_sessions (co_sessions c) q = Some s"
        using free [of q] in_set_takeD [of q 3 ws] ps_def by blast
      then show ?thesis
        using q by (simp add: c' ps_def [symmetric] seat_players_sel GetRoomIdByPlayer_def CreateRoom_sel)
    qed
    have q: "waiting_players (co_match c') 3 = drop 3 ws"
      unfolding c' by (simp add: seat_players_sel mm2(2))
    have room': "mg_rooms (co_rooms c') (mg_next_id (co_rooms c)) = Some (new_room (mg_next_id (co_rooms c)) 3 ps)"
      unfolding c' ps_def [symmetric] by (simp add: seat_players_sel room)
    have moves: "\<forall>q. (waits c' q \<longleftrightarrow> (waits c q \<or> q = p) \<and> q \<notin> set ps) \<and>
        (q \<notin> set ps \<longrightarrow> GetRoomIdByPlayer (co_rooms c') q = GetRoomIdByPlayer (co_rooms c) q) \<and>
        GetConnectionIdByPlayer (co_sessions c') q = GetConnectionIdByPlayer (co_sessions c) q"
      using wmm wmm2 unfolding c' ps_def [symmetric]
      by (auto simp: waits_def seat_players_sel GetRoomIdByPlayer_def CreateRoom_sel GetConnectionIdByPlayer_def
          split: option.split)
    show ?thesis unfolding ps_def [symmetric]
      using True ok q seat room' r moves by (simp add: ps_def [symmetric])
  qed
qed


lemma HandleMatch_accepted:
  assumes "core_ok c" "GetPlayerIdByConnection (co_sessions c) conn = Some p"
    "ParseMode body = Some 3" "GetState (co_players c) p = Lobby" "\<not> waits c p"
    "ws = waiting_players (co_match c) 3 @ [p]" "HandleMatch c conn body now = (c', r)"
  shows "core_ok c' \<and> mr_code r = OK \<and> mr_player r = p \<and>
    (mr_matched r \<longleftrightarrow> 3 \<le> length ws) \<and>
    (length ws < 3 \<longrightarrow> waiting_players (co_match c') 3 = ws \<and> co_rooms c' = co_rooms c \<and>
       GetState (co_players c') p = Matching) \<and>
    (3 \<le> length ws \<longrightarrow>
       mr_players r = take 3 ws \<and> mr_room r = mg_next_id (co_rooms c) \<and>
       waiting_players (co_match c') 3 = drop 3 ws \<and>
       mg_rooms (co_rooms c') (mr_room r) = Some (new_room (mr_room r) 3 (take 3 ws)) \<and>
       (\<forall>q \<in> set (take 3 ws). GetState (co_players c') q = InRoom \<and>
          GetRoomIdByPlayer (co_rooms c') q = Some (mr_room r) \<and>
          map_option ss_room (sm_sessions (co_sessions c') q) = Some (mr_room r)))"
  using HandleMatch_full [OF assms] by blast

text \<open>Who waits and who sits where afterwards.\<close>

lemma HandleMatch_moves:
  assumes "core_ok c" "GetPlayerIdByConnection (co_sessions c) conn = Some p"
    "ParseMode body = Some 3" "GetState (co_players c) p = Lobby" "\<not> waits c p"
    "ws = waiting_players (co_match c) 3 @ [p]" "HandleMatch c conn body now = (c', r)"
  shows "waits c' q \<longleftrightarrow> (waits c q \<or> q = p) \<and> (3 \<le> length ws \<longrightarrow> q \<notin> set (take 3 ws))"
    "length ws < 3 \<or> q \<notin> set (take 3 ws) \<Longrightarrow>
       GetRoomIdByPlayer (co_rooms c') q = GetRoomIdByPlayer (co_rooms c) q"
    "GetConnectionIdByPlayer (co_sessions c') q = GetConnectionIdByPlayer (co_sessions c) q"
  using HandleMatch_full [OF assms] by blast+

lemma HandleMatch_ok:
  assumes c: "core_ok c"
  shows "core_ok (fst (HandleMatch c conn body now))"
proof (cases "GetPlayerIdByConnection (co_sessions c) conn")
  case None
  then show ?thesis using c HandleMatch_refused(1) [OF c] by simp
next
  case (Some p)
  note conn = this
  show ?thesis
  proof (cases "ParseMode body")
    case None
    then show ?thesis using c HandleMatch_refused(2) [OF c conn] by simp
  next
    case (Some mode)
    then have m3: "ParseMode body = Some 3" using ParseMode_3 by blast
    show ?thesis
    proof (cases "GetState (co_players c) p = Lobby \<and> \<not> waits c p")
      case True
      then show ?thesis
        using HandleMatch_accepted [OF c conn m3 _ _ refl] by (metis prod.collapse)
    next
      case False
      then show ?thesis
        using c HandleMatch_refused(3,4) [OF c conn m3] by (cases "GetState (co_players c) p = Lobby") simp_all
    qed
  qed
qed

lemma waits_Cancel:
  assumes "match_ok mm"
  shows "IsMatching (fst (Cancel mm p)) q \<longleftrightarrow> IsMatching mm q \<and> q \<noteq> p"
  using Cancel_ok [OF assms, of p] waits_queue [OF assms] waits_queue [of "fst (Cancel mm p)" q] by auto

lemma HandleCancelMatch_cases:
  assumes c: "core_ok c"
  shows "HandleCancelMatch c conn =
    (case GetPlayerIdByConnection (co_sessions c) conn of
       None \<Rightarrow> (c, NOT_LOGIN, 0)
     | Some p \<Rightarrow>
         if GetState (co_players c) p \<noteq> Matching then (c, INVALID_PLAYER_STATE, p)
         else (c\<lparr>co_players := ForceState (co_players c) p Lobby, co_match := fst (Cancel (co_match c) p)\<rparr>, OK, p))"
proof (cases "GetPlayerIdByConnection (co_sessions c) conn")
  case (Some p)
  show ?thesis
  proof (cases "GetState (co_players c) p = Matching")
    case True
    then have "snd (Cancel (co_match c) p)"
      using core_okD(7) [OF c] Cancel_ok [OF core_okD(2) [OF c]] by (simp add: waits_def IsMatching_def)
    then obtain mm where "Cancel (co_match c) p = (mm, True)" by (cases "Cancel (co_match c) p") auto
    then show ?thesis using True by (simp add: HandleCancelMatch_def Some)
  qed (simp add: HandleCancelMatch_def Some)
qed (simp add: HandleCancelMatch_def)

lemma HandleCancelMatch_ok:
  assumes c: "core_ok c"
  shows "core_ok (fst (HandleCancelMatch c conn))"
proof -
  note D = core_okD [OF c]
  have "core_ok (c\<lparr>co_players := ForceState (co_players c) p Lobby, co_match := fst (Cancel (co_match c) p)\<rparr>)"
    if "GetState (co_players c) p = Matching" for p
  proof (rule core_match_only [OF c])
    show "match_ok (fst (Cancel (co_match c) p))" using Cancel_ok [OF D(2)] by blast
    show "IsMatching (fst (Cancel (co_match c) p)) q \<Longrightarrow> \<not> in_room c q \<and> sm_sessions (co_sessions c) q \<noteq> None" for q
      using D(4) [of q] D(5) [of q] by (simp add: waits_Cancel [OF D(2)] waits_def)
    show "GetState (ForceState (co_players c) p Lobby) q = Matching \<Longrightarrow> IsMatching (fst (Cancel (co_match c) p)) q" for q
      using D(7) [of q] by (simp add: waits_Cancel [OF D(2)] waits_def split: if_splits)
    show "GetState (ForceState (co_players c) p Lobby) q = Lobby \<Longrightarrow> \<not> in_room c q" for q
      using D(8) [of q] D(7) [OF that] D(4) [of p] by (simp split: if_splits)
  qed
  then show ?thesis using c by (simp add: HandleCancelMatch_cases [OF c] split: option.split)
qed

text \<open>The sweep takes off the queue everyone who waited at least \<open>timeout\<close>, and puts those that
  are still in the state \<open>Matching\<close> back into the lobby.\<close>

lemma lobby_loop:
  "GetState (foldl (\<lambda>pm x. if GetState pm (mp_player x) = Matching then ForceState pm (mp_player x) Lobby else pm) pm late) q =
     (if q \<in> mp_player ` set late \<and> GetState pm q = Matching then Lobby else GetState pm q)"
  by (induction late arbitrary: pm) auto

lemma PopTimeout_waits:
  assumes "match_ok m"
  shows "IsMatching (fst (PopTimeoutPlayers m now timeout)) p \<longleftrightarrow>
    IsMatching m p \<and> p \<notin> mp_player ` set (snd (PopTimeoutPlayers m now timeout))"
proof (cases "0 < timeout")
  case True
  then show ?thesis by (auto simp: PopTimeout_eq Let_def IsMatching_def)
qed (simp add: PopTimeoutPlayers_def)

lemma PopTimeout_late:
  "0 < timeout \<Longrightarrow> snd (PopTimeoutPlayers m now timeout) =
     filter (\<lambda>x. now - mp_join_time x \<ge> timeout) (mm_three m @ mm_four m)"
  by (simp add: PopTimeout_eq Let_def)

lemma late_waits:
  assumes "match_ok m" "p \<in> mp_player ` set (snd (PopTimeoutPlayers m now timeout))"
  shows "IsMatching m p"
proof -
  have "0 < timeout" using assms(2) by (auto simp: PopTimeoutPlayers_def split: if_splits)
  then have "p \<in> set (waiting_players m 3) \<or> p \<in> set (waiting_players m 4)"
    using assms(2) by (auto simp: PopTimeout_late waiting_players_def)
  then show ?thesis unfolding waits_queue [OF assms(1)] by blast
qed

lemma HandleMatchTimeout_ok:
  assumes c: "core_ok c"
  shows "core_ok (fst (HandleMatchTimeout c now timeout))"
proof -
  note D = core_okD [OF c]
  let ?mm = "fst (PopTimeoutPlayers (co_match c) now timeout)"
  let ?late = "snd (PopTimeoutPlayers (co_match c) now timeout)"
  let ?pm = "foldl (\<lambda>pm x. if GetState pm (mp_player x) = Matching then ForceState pm (mp_player x) Lobby
    else pm) (co_players c) ?late"
  have "core_ok (c\<lparr>co_players := ?pm, co_match := ?mm\<rparr>)"
  proof (rule core_match_only [OF c])
    show "match_ok ?mm" by (rule PopTimeout_ok [OF D(2)])
    show "IsMatching ?mm q \<Longrightarrow> \<not> in_room c q \<and> sm_sessions (co_sessions c) q \<noteq> None" for q
      using D(4) [of q] D(5) [of q] by (simp add: PopTimeout_waits [OF D(2)] waits_def)
    show "GetState ?pm q = Matching \<Longrightarrow> IsMatching ?mm q" for q
      using D(7) [of q] by (simp add: lobby_loop PopTimeout_waits [OF D(2)] waits_def split: if_splits)
    show "GetState ?pm q = Lobby \<Longrightarrow> \<not> in_room c q" for q
      using D(8) [of q] D(7) [of q] D(4) [of q] by (auto simp: lobby_loop split: if_splits)
  qed
  then show ?thesis by (simp add: HandleMatchTimeout_def split_beta)
qed


subsection \<open>A concrete lobby\<close>

text \<open>Players 7, 8 and 9 are logged in on connections 1, 2 and 3; 7 and 8 wait for a match.\<close>

definition demo_session :: "player_id \<Rightarrow> conn_id \<Rightarrow> session" where
  "demo_session p cn = empty_session\<lparr>ss_player := p, ss_conn := cn, ss_online := True\<rparr>"

definition demo_player :: "player_id \<Rightarrow> player_state \<Rightarrow> player_data" where
  "demo_player p st = \<lparr>pl_id = p, pl_nickname = default_nickname p, pl_coin = 1000, pl_state = st\<rparr>"

definition demo_core :: core where
  "demo_core =
     \<lparr>co_sessions = \<lparr>sm_conn = [1 \<mapsto> 7, 2 \<mapsto> 8, 3 \<mapsto> 9],
        sm_sessions = [7 \<mapsto> demo_session 7 1, 8 \<mapsto> demo_session 8 2, 9 \<mapsto> demo_session 9 3]\<rparr>,
      co_players = [7 \<mapsto> demo_player 7 Matching, 8 \<mapsto> demo_player 8 Matching, 9 \<mapsto> demo_player 9 Lobby],
      co_match = \<lparr>mm_three = [\<lparr>mp_player = 7, mp_join_time = 100, mp_coin = 1000, mp_mode = 3\<rparr>,
                              \<lparr>mp_player = 8, mp_join_time = 200, mp_coin = 1000, mp_mode = 3\<rparr>],
                  mm_four = [], mm_index = [7 \<mapsto> 3, 8 \<mapsto> 3]\<rparr>,
      co_rooms = empty_manager\<rparr>"

lemma demo_match_ok: "match_ok (co_match demo_core)"
  by (auto simp: match_ok_def waiting_players_def demo_core_def)

lemma demo_core_ok: "core_ok demo_core"
proof -
  have r: "mg_player_room (co_rooms demo_core) p = None" for p
    by (simp add: demo_core_def empty_manager_def)
  have w: "waits demo_core p \<longleftrightarrow> p = 7 \<or> p = 8" for p
    by (simp add: waits_def IsMatching_def demo_core_def)
  have s: "sm_sessions (co_sessions demo_core) p \<noteq> None \<longleftrightarrow> p = 7 \<or> p = 8 \<or> p = 9" for p
    by (simp add: demo_core_def)
  have g: "GetState (co_players demo_core) p = Matching \<longleftrightarrow> p = 7 \<or> p = 8" for p
    by (simp add: GetState_def demo_core_def demo_player_def)
  have cn: "sm_conn (co_sessions demo_core) c = Some p \<Longrightarrow> p = 7 \<or> p = 8 \<or> p = 9" for c p
    by (auto simp: demo_core_def split: if_splits)
  have m: "manager_ok (co_rooms demo_core)" by (simp add: demo_core_def empty_manager_ok)
  have n: "0 < mg_next_id (co_rooms demo_core)" by (simp add: demo_core_def empty_manager_def)
  show ?thesis unfolding core_ok_def in_room_def GetRoomIdByPlayer_def w g s
    using demo_match_ok m n r cn by auto
qed

lemma demo_lobby_facts:
  "GetPlayerIdByConnection (co_sessions demo_core) 3 = Some 9"
  "GetState (co_players demo_core) 9 = Lobby" "\<not> waits demo_core 9"
  "waiting_players (co_match demo_core) 3 = [7, 8]"
  "mg_next_id (co_rooms demo_core) = mg_next_id empty_manager"
  by (simp_all add: demo_core_def GetPlayerIdByConnection_def GetState_def demo_player_def waits_def
      IsMatching_def waiting_players_def)

lemma demo_mode: "ParseMode ''mode=3'' = Some 3"
  by code_simp

subsection \<open>Properties\<close>

text \<open>C15: an accepted match request puts the player at the end of the queue. With less than three
  waiting it stays there; otherwise the first three of the queue, and nobody else, leave it for
  a new room of exactly these three, and each of them is then in the state \<open>InRoom\<close>, in that
  room, with a session that names it.\<close>

theorem match_opens_room:
  assumes "core_ok c" "GetPlayerIdByConnection (co_sessions c) conn = Some p"
    "ParseMode body = Some 3" "GetState (co_players c) p = Lobby" "\<not> waits c p"
    "ws = waiting_players (co_match c) 3 @ [p]" "HandleMatch c conn body now = (c', r)"
  shows "core_ok c' \<and> mr_code r = OK \<and> mr_player r = p \<and>
    (mr_matched r \<longleftrightarrow> 3 \<le> length ws) \<and>
    (length ws < 3 \<longrightarrow> waiting_players (co_match c') 3 = ws \<and> co_rooms c' = co_rooms c \<and>
       GetState (co_players c') p = Matching) \<and>
    (3 \<le> length ws \<longrightarrow>
       mr_players r = take 3 ws \<and> mr_room r = mg_next_id (co_rooms c) \<and>
       waiting_players (co_match c') 3 = drop 3 ws \<and>
       mg_rooms (co_rooms c') (mr_room r) = Some (new_room (mr_room r) 3 (take 3 ws)) \<and>
       (\<forall>q \<in> set (take 3 ws). GetState (co_players c') q = InRoom \<and>
          GetRoomIdByPlayer (co_rooms c') q = Some (mr_room r) \<and>
          map_option ss_room (sm_sessions (co_sessions c') q) = Some (mr_room r)))"
  by (rule HandleMatch_accepted [OF assms])

theorem match_opens_room_witness:
  "mr_players (snd (HandleMatch demo_core 3 ''mode=3'' 300)) = [7, 8, 9]"
proof -
  obtain c' r where "HandleMatch demo_core 3 ''mode=3'' 300 = (c', r)" by fastforce
  with match_opens_room [OF demo_core_ok demo_lobby_facts(1) demo_mode demo_lobby_facts(2,3) refl this]
  show ?thesis by (simp add: demo_lobby_facts(4))
qed

text \<open>A refused match request changes nothing, and its code tells why: not logged in, an
  unknown mode, already in a room, already waiting, or another state; a request is refused for
  no other reason.\<close>

theorem match_refusals:
  assumes "core_ok c" "HandleMatch c conn body now = (c', r)" "mr_code r \<noteq> OK"
  shows "c' = c \<and> \<not> mr_matched r \<and>
    mr_code r =
      (case GetPlayerIdByConnection (co_sessions c) conn of
         None \<Rightarrow> NOT_LOGIN
       | Some p \<Rightarrow>
           if ParseMode body = None then MATCH_MODE_INVALID
           else if GetState (co_players c) p \<in> {InRoom, PlayingP, Settlement} then PLAYER_ALREADY_IN_ROOM
           else if GetState (co_players c) p \<noteq> Lobby then INVALID_PLAYER_STATE
           else PLAYER_ALREADY_MATCHING)"
proof (cases "GetPlayerIdByConnection (co_sessions c) conn")
  case None
  then show ?thesis using assms HandleMatch_refused(1) [OF assms(1)] by (auto simp: match_result0_def)
next
  case (Some p)
  note conn = this
  show ?thesis
  proof (cases "ParseMode body")
    case None
    then show ?thesis
      using assms HandleMatch_refused(2) [OF assms(1) conn] conn by (auto simp: match_result0_def)
  next
    case (Some mode)
    then have m3: "ParseMode body = Some 3" using ParseMode_3 by blast
    have w: "waits c p" if "GetState (co_players c) p = Lobby"
      using HandleMatch_accepted [OF assms(1) conn m3 that _ refl assms(2)] assms(3) by blast
    show ?thesis
      using assms(2) HandleMatch_refused(3,4) [OF assms(1) conn m3] w conn m3
      by (cases "GetState (co_players c) p = Lobby") (auto simp: match_result0_def)
  qed
qed

theorem match_refusals_witness:
  "mr_code (snd (HandleMatch demo_core 4 ''mode=3'' 300)) = NOT_LOGIN"
proof -
  have "GetPlayerIdByConnection (co_sessions demo_core) 4 = None"
    by (simp add: demo_core_def GetPlayerIdByConnection_def)
  moreover obtain c' r where "HandleMatch demo_core 4 ''mode=3'' 300 = (c', r)" by fastforce
  ultimately show ?thesis
    using match_refusals [OF demo_core_ok, of 4 "''mode=3''" 300 c' r]
    by (cases "mr_code r = OK") (auto simp: HandleMatch_def match_result0_def)
qed

text \<open>The timeout sweep takes exactly the players off the queues that have waited for at
  least the timeout, reports each with its mode, and sends those still \<open>Matching\<close> back to the
  lobby; nobody else's state or place in the queue changes.\<close>

theorem match_timeout_sweep:
  assumes "core_ok c" "0 < timeout" "HandleMatchTimeout c now timeout = (c', out)"
  shows "core_ok c' \<and>
    out = [(mp_player x, mp_mode x). x \<leftarrow> mm_three (co_match c) @ mm_four (co_match c),
             now - mp_join_time x \<ge> timeout] \<and>
    mm_three (co_match c') = filter (\<lambda>x. now - mp_join_time x < timeout) (mm_three (co_match c)) \<and>
    mm_four (co_match c') = filter (\<lambda>x. now - mp_join_time x < timeout) (mm_four (co_match c)) \<and>
    (waits c' p \<longleftrightarrow> waits c p \<and> p \<notin> fst ` set out) \<and>
    GetState (co_players c') p =
      (if p \<in> fst ` set out \<and> GetState (co_players c) p = Matching then Lobby
       else GetState (co_players c) p)"
proof -
  let ?late = "snd (PopTimeoutPlayers (co_match c) now timeout)"
  have out: "out = map (\<lambda>x. (mp_player x, mp_mode x)) ?late"
    and m': "co_match c' = fst (PopTimeoutPlayers (co_match c) now timeout)"
    and st: "GetState (co_players c') p =
      (if p \<in> mp_player ` set ?late \<and> GetState (co_players c) p = Matching then Lobby
       else GetState (co_players c) p)"
    using assms(3) by (auto simp: HandleMatchTimeout_def split_beta lobby_loop)
  have f: "fst ` set out = mp_player ` set ?late" by (simp add: out image_image)
  have q: "map (\<lambda>x. (mp_player x, mp_mode x)) (filter P xs) = [(mp_player x, mp_mode x). x \<leftarrow> xs, P x]" for P xs
    by (induction xs) auto
  have o: "out = [(mp_player x, mp_mode x). x \<leftarrow> mm_three (co_match c) @ mm_four (co_match c),
      now - mp_join_time x \<ge> timeout]"
    unfolding out PopTimeout_late [OF assms(2)] q ..
  show ?thesis
    using HandleMatchTimeout_ok [OF assms(1), of now timeout] assms(3) f st o
      PopTimeout_waits [OF core_okD(2) [OF assms(1)], of now timeout p]
    unfolding waits_def m' by (simp add: PopTimeout_eq [OF assms(2)] Let_def not_le)
qed

theorem match_timeout_sweep_witness:
  "snd (HandleMatchTimeout demo_core 1150 1000) = [(7, 3)]"
proof -
  obtain c' out where H: "HandleMatchTimeout demo_core 1150 1000 = (c', out)" by fastforce
  have "(0::int) < 1000" by simp
  from match_timeout_sweep [OF demo_core_ok this H, of 7] show ?thesis
    using H by (simp add: demo_core_def)
qed

end
