(* ===== verification/DdzStorage.thy ===== *)
theory DdzStorage
  imports DdzPool DdzSession
begin

text \<open>
  Storage: the three data-access objects (\<^verbatim>\<open>service/storage/dao\<close>) and the storage service with
  its settlement transaction (\<^verbatim>\<open>service/storage/storage_service.cpp\<close>). Each operation has the
  code's two forms: SQL through the pool when MySQL is enabled, else the maps in memory. The
  tables with numbered rows are one interface, the locale \<open>row_table\<close>, which the game records
  and the coin log both interpret; undoing a transaction is proved once in it.
\<close>

subsection \<open>The data\<close>

record game_record =
  gr_id :: int
  gr_room :: room_id
  gr_mode :: int
  gr_winner :: player_id
  gr_started :: millis
  gr_ended :: millis
  gr_players :: "player_id list"

record coin_log =
  cl_id :: int
  cl_player :: player_id
  cl_room :: room_id
  cl_change :: int
  cl_before :: int
  cl_after :: int
  cl_created :: millis

datatype tx_failpoint = NoFailpoint | AfterRecordInserted | AfterFirstCoinLogInserted

record coin_change =
  ch_player :: player_id
  ch_room :: room_id
  ch_delta :: int
  ch_before :: int
  ch_after :: int

record persist_request =
  pq_room :: room_id
  pq_mode :: int
  pq_winner :: player_id
  pq_started :: millis
  pq_ended :: millis
  pq_players :: "player_id list"
  pq_changes :: "coin_change list"

text \<open>The service: the world behind the shell, the pool, whether the objects have been bound to it,
  and the fields of the three objects.\<close>

record 'w storage =
  st_world :: 'w
  st_pool :: mysql_pool
  st_bound :: bool
  st_coins :: "player_id \<rightharpoonup> int"
  st_next_record :: int
  st_records :: "int \<rightharpoonup> game_record"
  st_next_log :: int
  st_logs :: "int \<rightharpoonup> coin_log"
  st_failpoint :: tx_failpoint

definition mysql_on :: "'w storage \<Rightarrow> bool" where
  "mysql_on s = (st_bound s \<and> po_enabled (st_pool s))"

text \<open>\<^verbatim>\<open>mysql_pool_->ExecuteSql(sql, &lines, &err)\<close>.\<close>

definition run_sql :: "'w shell \<Rightarrow> 'w storage \<Rightarrow> string \<Rightarrow> 'w storage \<times> string list \<times> string option" where
  "run_sql sh s sql =
     (case ExecuteSql sh (st_pool s) (st_world s) sql of
        (w, lines, err) \<Rightarrow> (s\<lparr>st_world := w\<rparr>, lines, err))"

subsection \<open>Player coins\<close>

definition PlayerDao_UpsertCoin :: "'w shell \<Rightarrow> 'w storage \<Rightarrow> player_id \<Rightarrow> int \<Rightarrow> 'w storage \<times> bool" where
  "PlayerDao_UpsertCoin sh s p coin =
     (if p \<le> 0 then (s, False)
      else if mysql_on s then
        (case run_sql sh s (''INSERT INTO player(player_id, coin, updated_at_ms) VALUES('' @
                int_str p @ '','' @ int_str coin @ '',0)'' @
                '' ON DUPLICATE KEY UPDATE coin=VALUES(coin), updated_at_ms=VALUES(updated_at_ms);'') of
           (s', _, err) \<Rightarrow> (s', err = None))
      else (s\<lparr>st_coins := (st_coins s)(p \<mapsto> coin)\<rparr>, True))"

definition PlayerDao_GetCoin :: "'w shell \<Rightarrow> 'w storage \<Rightarrow> player_id \<Rightarrow> 'w storage \<times> int option" where
  "PlayerDao_GetCoin sh s p =
     (if mysql_on s then
        (case run_sql sh s (''SELECT coin FROM player WHERE player_id='' @ int_str p @ '' LIMIT 1;'') of
           (s', lines, err) \<Rightarrow>
             if err \<noteq> None \<or> lines = [] then (s', None) else (s', stoll_all (hd lines)))
      else (s, st_coins s p))"

definition PlayerDao_Erase :: "'w shell \<Rightarrow> 'w storage \<Rightarrow> player_id \<Rightarrow> 'w storage \<times> bool" where
  "PlayerDao_Erase sh s p =
     (if mysql_on s then
        (case run_sql sh s (''DELETE FROM player WHERE player_id='' @ int_str p @ '';'') of
           (s', _, err) \<Rightarrow> (s', err = None))
      else (s\<lparr>st_coins := (st_coins s)(p := None)\<rparr>, st_coins s p \<noteq> None))"

subsection \<open>Rows as text\<close>

definition SplitByTab :: "string \<Rightarrow> string list" where
  "SplitByTab line = split_pieces CHR 0x09 [] line"

definition JoinPlayers :: "player_id list \<Rightarrow> string" where
  "JoinPlayers ps = join '','' (map int_str ps)"

text \<open>A part that is no number at all, or out of range, empties the result; a part that only
  starts with a number is skipped.\<close>

fun parse_players :: "string list \<Rightarrow> player_id list \<Rightarrow> player_id list" where
  "parse_players [] out = out"
| "parse_players (part # parts) out =
     (case stoll part of
        None \<Rightarrow> []
      | Some (v, k) \<Rightarrow> parse_players parts (if k = length part then out @ [v] else out))"

definition ParsePlayers :: "string \<Rightarrow> player_id list" where
  "ParsePlayers csv = (if csv = [] then [] else parse_players (getlines CHR '','' csv) [])"

text \<open>The identifier that \<^verbatim>\<open>SELECT LAST_INSERT_ID();\<close> printed, else 0.\<close>

definition inserted_id :: "string list \<times> string option \<Rightarrow> int" where
  "inserted_id r =
     (case r of (lines, err) \<Rightarrow>
        if err \<noteq> None \<or> lines = [] then 0
        else case stoll_all (last lines) of None \<Rightarrow> 0 | Some i \<Rightarrow> i)"

subsection \<open>Game records\<close>

definition RecordDao_Insert :: "'w shell \<Rightarrow> 'w storage \<Rightarrow> game_record \<Rightarrow> 'w storage \<times> int" where
  "RecordDao_Insert sh s r =
     (if mysql_on s then
        (case run_sql sh s (''INSERT INTO game_record(room_id, game_mode, winner_player_id, started_at_ms, ended_at_ms, players_csv) VALUES('' @
                int_str (gr_room r) @ '','' @ int_str (gr_mode r) @ '','' @ int_str (gr_winner r) @ '','' @
                int_str (gr_started r) @ '','' @ int_str (gr_ended r) @ '','' @ [CHR 0x27] @
                JoinPlayers (gr_players r) @ [CHR 0x27] @ '');'' @ ''SELECT LAST_INSERT_ID();'') of
           (s', res) \<Rightarrow> (s', inserted_id res))
      else
        let i = st_next_record s in
        (s\<lparr>st_next_record := i + 1, st_records := (st_records s)(i \<mapsto> r\<lparr>gr_id := i\<rparr>)\<rparr>, i))"

definition parse_record :: "string list \<Rightarrow> game_record option" where
  "parse_record fs =
     (if length fs \<noteq> 7 then None
      else case (stoll_all (fs ! 0), stoll_all (fs ! 1), stoll_all (fs ! 2), stoll_all (fs ! 3),
                 stoll_all (fs ! 4), stoll_all (fs ! 5)) of
             (Some i, Some room, Some mode, Some winner, Some started, Some ended) \<Rightarrow>
               Some \<lparr>gr_id = i, gr_room = room, gr_mode = to_i32 mode, gr_winner = winner,
                     gr_started = started, gr_ended = ended, gr_players = ParsePlayers (fs ! 6)\<rparr>
           | _ \<Rightarrow> None)"

definition RecordDao_GetById :: "'w shell \<Rightarrow> 'w storage \<Rightarrow> int \<Rightarrow> 'w storage \<times> game_record option" where
  "RecordDao_GetById sh s i =
     (if mysql_on s then
        (case run_sql sh s (''SELECT record_id,room_id,game_mode,winner_player_id,started_at_ms,ended_at_ms,players_csv '' @
                ''FROM game_record WHERE record_id='' @ int_str i @ '' LIMIT 1;'') of
           (s', lines, err) \<Rightarrow>
             if err \<noteq> None \<or> lines = [] then (s', None) else (s', parse_record (SplitByTab (hd lines))))
      else (s, st_records s i))"

definition RecordDao_DeleteById :: "'w shell \<Rightarrow> 'w storage \<Rightarrow> int \<Rightarrow> 'w storage \<times> bool" where
  "RecordDao_DeleteById sh s i =
     (if mysql_on s then
        (case run_sql sh s (''DELETE FROM game_record WHERE record_id='' @ int_str i @ '';'') of
           (s', _, err) \<Rightarrow> (s', err = None))
      else (s\<lparr>st_records := (st_records s)(i := None)\<rparr>, st_records s i \<noteq> None))"

subsection \<open>The coin log\<close>

definition LogDao_Insert :: "'w shell \<Rightarrow> 'w storage \<Rightarrow> coin_log \<Rightarrow> 'w storage \<times> int" where
  "LogDao_Insert sh s l =
     (if mysql_on s then
        (case run_sql sh s (''INSERT INTO coin_log(player_id, room_id, change_amount, before_coin, after_coin, created_at_ms) VALUES('' @
                int_str (cl_player l) @ '','' @ int_str (cl_room l) @ '','' @ int_str (cl_change l) @ '','' @
                int_str (cl_before l) @ '','' @ int_str (cl_after l) @ '','' @ int_str (cl_created l) @
                '');'' @ ''SELECT LAST_INSERT_ID();'') of
           (s', res) \<Rightarrow> (s', inserted_id res))
      else
        let i = st_next_log s in
        (s\<lparr>st_next_log := i + 1, st_logs := (st_logs s)(i \<mapsto> l\<lparr>cl_id := i\<rparr>)\<rparr>, i))"

definition parse_log :: "string list \<Rightarrow> coin_log option" where
  "parse_log fs =
     (if length fs \<noteq> 7 then None
      else case (stoll_all (fs ! 0), stoll_all (fs ! 1), stoll_all (fs ! 2), stoll_all (fs ! 3),
                 stoll_all (fs ! 4), stoll_all (fs ! 5), stoll_all (fs ! 6)) of
             (Some i, Some p, Some room, Some change, Some before, Some after, Some created) \<Rightarrow>
               Some \<lparr>cl_id = i, cl_player = p, cl_room = room, cl_change = change, cl_before = before,
                     cl_after = after, cl_created = created\<rparr>
           | _ \<Rightarrow> None)"

text \<open>Rows that do not parse are left out. In memory the rows come in the order of the
  \<^verbatim>\<open>unordered_map\<close>, here given by \<open>order\<close>.\<close>

definition LogDao_GetByRoomId ::
    "'w shell \<Rightarrow> int list \<Rightarrow> 'w storage \<Rightarrow> room_id \<Rightarrow> 'w storage \<times> coin_log list" where
  "LogDao_GetByRoomId sh order s rid =
     (if mysql_on s then
        (case run_sql sh s (''SELECT id,player_id,room_id,change_amount,before_coin,after_coin,created_at_ms FROM coin_log '' @
                ''WHERE room_id='' @ int_str rid @ '' ORDER BY id ASC;'') of
           (s', lines, err) \<Rightarrow>
             if err \<noteq> None then (s', [])
             else (s', List.map_filter (\<lambda>line. parse_log (SplitByTab line)) lines))
      else (s, filter (\<lambda>l. cl_room l = rid) (List.map_filter (st_logs s) order)))"

definition LogDao_DeleteById :: "'w shell \<Rightarrow> 'w storage \<Rightarrow> int \<Rightarrow> 'w storage \<times> bool" where
  "LogDao_DeleteById sh s i =
     (if mysql_on s then
        (case run_sql sh s (''DELETE FROM coin_log WHERE id='' @ int_str i @ '';'') of
           (s', _, err) \<Rightarrow> (s', err = None))
      else (s\<lparr>st_logs := (st_logs s)(i := None)\<rparr>, st_logs s i \<noteq> None))"

subsection \<open>The service\<close>

definition StorageInit :: "'w shell \<Rightarrow> 'w storage \<Rightarrow> mysql_config \<Rightarrow> 'w storage \<times> string option" where
  "StorageInit sh s cfg =
     (case PoolInit sh (st_pool s) (st_world s) cfg of
        (w, pool, err) \<Rightarrow>
          (s\<lparr>st_world := w, st_pool := pool, st_bound := (err = None \<or> st_bound s)\<rparr>, err))"

definition SaveGameRecord :: "'w shell \<Rightarrow> 'w storage \<Rightarrow> game_record \<Rightarrow> 'w storage \<times> int" where
  "SaveGameRecord = RecordDao_Insert"

definition SaveCoinLog :: "'w shell \<Rightarrow> 'w storage \<Rightarrow> coin_log \<Rightarrow> 'w storage \<times> int" where
  "SaveCoinLog = LogDao_Insert"

definition SavePlayerCoin :: "'w shell \<Rightarrow> 'w storage \<Rightarrow> player_id \<Rightarrow> int \<Rightarrow> 'w storage" where
  "SavePlayerCoin sh s p coin = fst (PlayerDao_UpsertCoin sh s p coin)"

definition GetGameRecord :: "'w shell \<Rightarrow> 'w storage \<Rightarrow> int \<Rightarrow> 'w storage \<times> game_record option" where
  "GetGameRecord = RecordDao_GetById"

definition GetCoinLogsByRoomId ::
    "'w shell \<Rightarrow> int list \<Rightarrow> 'w storage \<Rightarrow> room_id \<Rightarrow> 'w storage \<times> coin_log list" where
  "GetCoinLogsByRoomId = LogDao_GetByRoomId"

definition GetPlayerCoin :: "'w shell \<Rightarrow> 'w storage \<Rightarrow> player_id \<Rightarrow> 'w storage \<times> int option" where
  "GetPlayerCoin = PlayerDao_GetCoin"

definition SetTxFailpointForTesting :: "'w storage \<Rightarrow> tx_failpoint \<Rightarrow> 'w storage" where
  "SetTxFailpointForTesting s f = s\<lparr>st_failpoint := f\<rparr>"

text \<open>The SQL of one coin change, number \<open>i\<close> of the request.\<close>

definition change_sql :: "tx_failpoint \<Rightarrow> millis \<Rightarrow> nat \<Rightarrow> coin_change \<Rightarrow> string" where
  "change_sql fp ended i c =
     ''INSERT INTO coin_log(player_id, room_id, change_amount, before_coin, after_coin, created_at_ms) VALUES('' @
     int_str (ch_player c) @ '','' @ int_str (ch_room c) @ '','' @ int_str (ch_delta c) @ '','' @
     int_str (ch_before c) @ '','' @ int_str (ch_after c) @ '','' @ int_str ended @ '');'' @
     (if fp = AfterFirstCoinLogInserted \<and> i = 0
      then ''INSERT INTO __ddz_failpoint_after_coin_log__(id) VALUES (1);'' else []) @
     ''INSERT INTO player(player_id, coin, updated_at_ms) VALUES('' @
     int_str (ch_player c) @ '','' @ int_str (ch_after c) @ '','' @ int_str ended @ '') '' @
     ''ON DUPLICATE KEY UPDATE coin=VALUES(coin), updated_at_ms=VALUES(updated_at_ms);''"

definition settlement_sql :: "tx_failpoint \<Rightarrow> persist_request \<Rightarrow> string" where
  "settlement_sql fp q =
     ''START TRANSACTION;'' @
     ''INSERT INTO game_record(room_id, game_mode, winner_player_id, started_at_ms, ended_at_ms, players_csv) VALUES('' @
     int_str (pq_room q) @ '','' @ int_str (pq_mode q) @ '','' @ int_str (pq_winner q) @ '','' @
     int_str (pq_started q) @ '','' @ int_str (pq_ended q) @ '','' @ [CHR 0x27] @
     JoinPlayers (pq_players q) @ [CHR 0x27] @ '');'' @
     ''SET @rid = LAST_INSERT_ID();'' @
     (if fp = AfterRecordInserted
      then ''INSERT INTO __ddz_failpoint_after_record__(id) VALUES (1);'' else []) @
     concat (map (\<lambda>(i, c). change_sql fp (pq_ended q) i c) (List.enumerate 0 (pq_changes q))) @
     ''COMMIT;'' @ ''SELECT @rid;''"

text \<open>The lambda \<^verbatim>\<open>rollback\<close>: log rows, last first, then the record, then the coins, last first.\<close>

definition restore_coin :: "'w shell \<Rightarrow> player_id \<times> int option \<Rightarrow> 'w storage \<Rightarrow> 'w storage" where
  "restore_coin sh item s =
     (case snd item of
        Some coin \<Rightarrow> fst (PlayerDao_UpsertCoin sh s (fst item) coin)
      | None \<Rightarrow> fst (PlayerDao_Erase sh s (fst item)))"

definition rollback ::
    "'w shell \<Rightarrow> 'w storage \<Rightarrow> int list \<Rightarrow> int \<Rightarrow> (player_id \<times> int option) list \<Rightarrow> 'w storage" where
  "rollback sh s log_ids record_id olds =
     (let s1 = foldr (\<lambda>i s. fst (LogDao_DeleteById sh s i)) log_ids s;
          s2 = (if record_id > 0 then fst (RecordDao_DeleteById sh s1 record_id) else s1)
      in foldr (restore_coin sh) olds s2)"

definition log_of :: "millis \<Rightarrow> coin_change \<Rightarrow> coin_log" where
  "log_of ended c =
     \<lparr>cl_id = 0, cl_player = ch_player c, cl_room = ch_room c, cl_change = ch_delta c,
      cl_before = ch_before c, cl_after = ch_after c, cl_created = ended\<rparr>"

text \<open>The loop over the coin changes.\<close>

fun persist_changes ::
    "'w shell \<Rightarrow> 'w storage \<Rightarrow> millis \<Rightarrow> int \<Rightarrow> nat \<Rightarrow> coin_change list \<Rightarrow> int list
     \<Rightarrow> (player_id \<times> int option) list \<Rightarrow> 'w storage \<times> string option" where
  "persist_changes sh s ended rid i [] ids olds = (s, None)"
| "persist_changes sh s ended rid i (c # cs) ids olds =
     (case PlayerDao_GetCoin sh s (ch_player c) of (s0, old) \<Rightarrow>
        let olds' = olds @ [(ch_player c, old)] in
        (case PlayerDao_UpsertCoin sh s0 (ch_player c) (ch_after c) of
           (s1, False) \<Rightarrow> (rollback sh s1 ids rid olds', Some ''upsert player coin failed'')
         | (s1, True) \<Rightarrow>
             (case LogDao_Insert sh s1 (log_of ended c) of (s2, log_id) \<Rightarrow>
                if log_id \<le> 0 then (rollback sh s2 ids rid olds', Some ''insert coin log failed'')
                else if st_failpoint s2 = AfterFirstCoinLogInserted \<and> i = 0
                then (rollback sh s2 (ids @ [log_id]) rid olds',
                      Some ''tx failpoint after first coin log inserted'')
                else persist_changes sh s2 ended rid (Suc i) cs (ids @ [log_id]) olds')))"

definition record_of :: "persist_request \<Rightarrow> game_record" where
  "record_of q =
     \<lparr>gr_id = 0, gr_room = pq_room q, gr_mode = pq_mode q, gr_winner = pq_winner q,
      gr_started = pq_started q, gr_ended = pq_ended q, gr_players = pq_players q\<rparr>"

text \<open>\<open>Inl\<close> is the error message, \<open>Inr\<close> the identifier of the record.\<close>

definition persist_mysql :: "'w shell \<Rightarrow> 'w storage \<Rightarrow> persist_request \<Rightarrow> 'w storage \<times> (string + int)" where
  "persist_mysql sh s q =
     (case Acquire (st_pool s) of (pool, l) \<Rightarrow>
        if \<not> le_valid l then (s\<lparr>st_pool := pool\<rparr>, Inl ''mysql pool exhausted'')
        else
          (case ExecuteLeased sh pool l (st_world s) (settlement_sql (st_failpoint s) q) of
             (w, lines, err) \<Rightarrow>
               (s\<lparr>st_world := w, st_pool := Release pool l\<rparr>,
                case err of
                  Some e \<Rightarrow> Inl e
                | None \<Rightarrow>
                    if lines = [] then Inl ''mysql tx no record id returned''
                    else case stoll (last lines) of
                           None \<Rightarrow> Inl ''parse mysql record id failed''
                         | Some (rid, _) \<Rightarrow> Inr rid)))"

definition persist_memory :: "'w shell \<Rightarrow> 'w storage \<Rightarrow> persist_request \<Rightarrow> 'w storage \<times> (string + int)" where
  "persist_memory sh s q =
     (case RecordDao_Insert sh s (record_of q) of (s1, rid) \<Rightarrow>
        if rid \<le> 0 then (s1, Inl ''insert game record failed'')
        else if st_failpoint s1 = AfterRecordInserted
        then (rollback sh s1 [] rid [], Inl ''tx failpoint after record inserted'')
        else case persist_changes sh s1 (pq_ended q) rid 0 (pq_changes q) [] [] of
               (s2, Some e) \<Rightarrow> (s2, Inl e)
             | (s2, None) \<Rightarrow> (s2, Inr rid))"

definition PersistSettlementTransaction ::
    "'w shell \<Rightarrow> 'w storage \<Rightarrow> persist_request \<Rightarrow> 'w storage \<times> (string + int)" where
  "PersistSettlementTransaction sh s q =
     (if pq_room q \<le> 0 \<or> pq_winner q \<le> 0 \<or> pq_changes q = []
      then (s, Inl ''invalid settlement persist request'')
      else if po_enabled (st_pool s) then persist_mysql sh s q
      else persist_memory sh s q)"


subsection \<open>Tables of numbered rows\<close>

text \<open>A table that numbers its rows itself: an inserted row gets a positive number that was free,
  is found under it, and deleting that number undoes the insertion.\<close>

locale row_table =
  fixes inv :: "'s \<Rightarrow> bool" and look :: "'s \<Rightarrow> int \<Rightarrow> 'r option"
    and ins :: "'s \<Rightarrow> 'r \<Rightarrow> 's \<times> int" and del :: "'s \<Rightarrow> int \<Rightarrow> 's"
    and stamp :: "int \<Rightarrow> 'r \<Rightarrow> 'r"
  assumes ins_inv: "inv s \<Longrightarrow> inv (fst (ins s r))"
    and del_inv: "inv s \<Longrightarrow> inv (del s i)"
    and ins_fresh: "inv s \<Longrightarrow> 0 < snd (ins s r) \<and> look s (snd (ins s r)) = None"
    and ins_look: "inv s \<Longrightarrow> look (fst (ins s r)) = (look s)(snd (ins s r) \<mapsto> stamp (snd (ins s r)) r)"
    and del_look: "inv s \<Longrightarrow> look (del s i) = (look s)(i := None)"
begin

lemma ins_del: "inv s \<Longrightarrow> look (del (fst (ins s r)) (snd (ins s r))) = look s"
  using ins_fresh [of s r] ins_look [of s r] del_look [OF ins_inv, of s r "snd (ins s r)"]
  by (auto simp: fun_eq_iff)

lemma dels_inv: "inv s \<Longrightarrow> inv (foldr (\<lambda>i s. del s i) ids s)"
  by (induction ids) (auto intro: del_inv)

lemma dels_look:
  "inv s \<Longrightarrow> look (foldr (\<lambda>i s. del s i) ids s) = (\<lambda>i. if i \<in> set ids then None else look s i)"
  by (induction ids) (auto simp: del_look dels_inv fun_eq_iff)

end

definition storage_ok :: "'w storage \<Rightarrow> bool" where
  "storage_ok s \<longleftrightarrow> 0 < st_next_record s \<and> 0 < st_next_log s \<and>
     (\<forall>i. st_records s i \<noteq> None \<longrightarrow> i < st_next_record s) \<and>
     (\<forall>i. st_logs s i \<noteq> None \<longrightarrow> i < st_next_log s)"

definition memory_ok :: "'w storage \<Rightarrow> bool" where
  "memory_ok s \<longleftrightarrow> \<not> mysql_on s \<and> storage_ok s"

interpretation record_table: row_table memory_ok st_records "RecordDao_Insert sh"
    "\<lambda>s i. fst (RecordDao_DeleteById sh s i)" "\<lambda>i r. r\<lparr>gr_id := i\<rparr>" for sh
  by unfold_locales
    (force simp: memory_ok_def storage_ok_def mysql_on_def RecordDao_Insert_def RecordDao_DeleteById_def Let_def)+

interpretation log_table: row_table memory_ok st_logs "LogDao_Insert sh"
    "\<lambda>s i. fst (LogDao_DeleteById sh s i)" "\<lambda>i l. l\<lparr>cl_id := i\<rparr>" for sh
  by unfold_locales
    (force simp: memory_ok_def storage_ok_def mysql_on_def LogDao_Insert_def LogDao_DeleteById_def Let_def)+

subsection \<open>The transaction in memory\<close>

text \<open>What each operation leaves alone.\<close>

lemma memory_frames:
  assumes "memory_ok s"
  shows "st_coins (fst (RecordDao_Insert sh s r)) = st_coins s"
    "st_logs (fst (RecordDao_Insert sh s r)) = st_logs s"
    "st_coins (fst (RecordDao_DeleteById sh s i)) = st_coins s"
    "st_logs (fst (RecordDao_DeleteById sh s i)) = st_logs s"
    "st_coins (fst (LogDao_Insert sh s l)) = st_coins s"
    "st_records (fst (LogDao_Insert sh s l)) = st_records s"
    "st_failpoint (fst (LogDao_Insert sh s l)) = st_failpoint s"
    "st_failpoint (fst (RecordDao_Insert sh s r)) = st_failpoint s"
    "st_coins (fst (LogDao_DeleteById sh s i)) = st_coins s"
    "st_records (fst (LogDao_DeleteById sh s i)) = st_records s"
  using assms
  by (simp_all add: memory_ok_def RecordDao_Insert_def RecordDao_DeleteById_def LogDao_Insert_def
      LogDao_DeleteById_def Let_def)

lemma memory_coins:
  assumes "memory_ok s"
  shows "PlayerDao_GetCoin sh s p = (s, st_coins s p)"
    "PlayerDao_UpsertCoin sh s p coin =
       (if p \<le> 0 then (s, False) else (s\<lparr>st_coins := (st_coins s)(p \<mapsto> coin)\<rparr>, True))"
    "memory_ok (s\<lparr>st_coins := m\<rparr>)"
proof -
  have m: "mysql_on s = False" using assms by (simp add: memory_ok_def)
  show "PlayerDao_GetCoin sh s p = (s, st_coins s p)"
    "PlayerDao_UpsertCoin sh s p coin =
       (if p \<le> 0 then (s, False) else (s\<lparr>st_coins := (st_coins s)(p \<mapsto> coin)\<rparr>, True))"
    by (simp_all add: m PlayerDao_GetCoin_def PlayerDao_UpsertCoin_def)
  show "memory_ok (s\<lparr>st_coins := m\<rparr>)" using assms by (simp add: memory_ok_def mysql_on_def storage_ok_def)
qed

text \<open>A player with an identifier that the object refuses has no coins, hence none to restore.\<close>

definition restorable :: "player_id \<times> int option \<Rightarrow> bool" where
  "restorable x \<longleftrightarrow> 0 < fst x \<or> snd x = None"

lemma restore_coin_eq:
  assumes "memory_ok s" "restorable x"
  shows "restore_coin sh x s = s\<lparr>st_coins := (st_coins s)(fst x := snd x)\<rparr>"
proof (cases "snd x")
  case None
  have "mysql_on s = False" using assms(1) by (simp add: memory_ok_def)
  then show ?thesis using None by (simp add: restore_coin_def PlayerDao_Erase_def)
next
  case (Some coin)
  then show ?thesis using assms by (simp add: restore_coin_def memory_coins restorable_def)
qed

definition undo_coins ::
    "(player_id \<times> int option) list \<Rightarrow> (player_id \<rightharpoonup> int) \<Rightarrow> player_id \<rightharpoonup> int" where
  "undo_coins olds m = foldr (\<lambda>x m. m(fst x := snd x)) olds m"

lemma undo_coins_simps:
  "undo_coins [] m = m" "undo_coins (x # olds) m = (undo_coins olds m)(fst x := snd x)"
  "undo_coins (olds @ [(p, m p)]) (m(p := v)) = undo_coins olds m"
  "undo_coins (olds @ [(p, m p)]) m = undo_coins olds m"
  by (simp_all add: undo_coins_def)

lemma restores_eq:
  assumes "memory_ok s" "\<forall>x \<in> set olds. restorable x"
  shows "foldr (restore_coin sh) olds s =
    s\<lparr>st_coins := undo_coins olds (st_coins s)\<rparr>"
  using assms by (induction olds) (auto simp: restore_coin_eq memory_coins undo_coins_simps)

lemma log_dels_frame:
  assumes "memory_ok s"
  shows "st_coins (foldr (\<lambda>i s. fst (LogDao_DeleteById sh s i)) ids s) = st_coins s"
    "st_records (foldr (\<lambda>i s. fst (LogDao_DeleteById sh s i)) ids s) = st_records s"
  using assms log_table.dels_inv [OF assms] by (induction ids) (simp_all add: memory_frames)

lemma rollback_eq:
  assumes "memory_ok s" "\<forall>x \<in> set olds. restorable x" "0 < rid"
  shows "memory_ok (rollback sh s ids rid olds)"
    "st_records (rollback sh s ids rid olds) = (st_records s)(rid := None)"
    "st_logs (rollback sh s ids rid olds) = (\<lambda>i. if i \<in> set ids then None else st_logs s i)"
    "st_coins (rollback sh s ids rid olds) = undo_coins olds (st_coins s)"
proof -
  let ?s1 = "foldr (\<lambda>i s. fst (LogDao_DeleteById sh s i)) ids s"
  let ?s2 = "fst (RecordDao_DeleteById sh ?s1 rid)"
  have 1: "memory_ok ?s1" by (rule log_table.dels_inv [OF assms(1)])
  have 2: "memory_ok ?s2" by (rule record_table.del_inv [OF 1])
  have R: "rollback sh s ids rid olds =
      ?s2\<lparr>st_coins := undo_coins olds (st_coins ?s2)\<rparr>"
    using restores_eq [OF 2 assms(2)] assms(3) by (simp add: rollback_def Let_def)
  show "memory_ok (rollback sh s ids rid olds)" unfolding R by (rule memory_coins(3) [OF 2])
  show "st_records (rollback sh s ids rid olds) = (st_records s)(rid := None)"
    using record_table.del_look [OF 1] log_dels_frame [OF assms(1)] by (simp add: R)
  show "st_logs (rollback sh s ids rid olds) = (\<lambda>i. if i \<in> set ids then None else st_logs s i)"
    using log_table.dels_look [OF assms(1)] by (simp add: R memory_frames [OF 1])
  show "st_coins (rollback sh s ids rid olds) = undo_coins olds (st_coins s)"
    by (simp add: R memory_frames [OF 1] log_dels_frame [OF assms(1)])
qed


definition coins_ok :: "'w storage \<Rightarrow> bool" where
  "coins_ok s \<longleftrightarrow> (\<forall>p. st_coins s p \<noteq> None \<longrightarrow> 0 < p)"

text \<open>One turn of the loop for a player that is accepted.\<close>

lemma persist_step:
  assumes "memory_ok s" "0 < ch_player c"
  obtains s2 where "memory_ok s2" "st_records s2 = st_records s" "st_failpoint s2 = st_failpoint s"
    "st_coins s2 = (st_coins s)(ch_player c \<mapsto> ch_after c)"
    "st_logs s2 = (st_logs s)(st_next_log s \<mapsto> (log_of ended c)\<lparr>cl_id := st_next_log s\<rparr>)"
    "st_next_log s2 = st_next_log s + 1" "st_logs s (st_next_log s) = None" "0 < st_next_log s"
    "persist_changes sh s ended rid i (c # cs) ids olds =
       (let olds' = olds @ [(ch_player c, st_coins s (ch_player c))] in
        if st_failpoint s = AfterFirstCoinLogInserted \<and> i = 0
        then (rollback sh s2 (ids @ [st_next_log s]) rid olds', Some ''tx failpoint after first coin log inserted'')
        else persist_changes sh s2 ended rid (Suc i) cs (ids @ [st_next_log s]) olds')"
proof -
  let ?s1 = "s\<lparr>st_coins := (st_coins s)(ch_player c \<mapsto> ch_after c)\<rparr>"
  have m1: "memory_ok ?s1" by (rule memory_coins(3) [OF assms(1)])
  have ins: "LogDao_Insert sh ?s1 (log_of ended c) = (?s1\<lparr>st_next_log := st_next_log s + 1,
      st_logs := (st_logs s)(st_next_log s \<mapsto> (log_of ended c)\<lparr>cl_id := st_next_log s\<rparr>)\<rparr>, st_next_log s)"
    (is "_ = (?s2, _)") using m1 by (simp add: LogDao_Insert_def memory_ok_def Let_def)
  have fresh: "0 < st_next_log s \<and> st_logs s (st_next_log s) = None"
    using log_table.ins_fresh [OF m1, of sh "log_of ended c"] by (simp add: ins)
  have m2: "memory_ok ?s2" using log_table.ins_inv [OF m1, of sh "log_of ended c"] by (simp add: ins)
  show thesis
    by (rule that [of ?s2]) (use m2 fresh ins assms(2) in \<open>simp_all add: memory_coins [OF assms(1)] Let_def\<close>)
qed

lemma persist_refused:
  assumes "memory_ok s" "ch_player c \<le> 0"
  shows "persist_changes sh s ended rid i (c # cs) ids olds =
    (rollback sh s ids rid (olds @ [(ch_player c, st_coins s (ch_player c))]), Some ''upsert player coin failed'')"
  using assms by (simp add: memory_coins)

lemma persist_changes_done:
  assumes "memory_ok s" "\<forall>c \<in> set cs. 0 < ch_player c"
    "st_failpoint s = AfterFirstCoinLogInserted \<longrightarrow> 0 < i \<or> cs = []"
  shows "case persist_changes sh s ended rid i cs ids olds of (s', e) \<Rightarrow>
    e = None \<and> memory_ok s' \<and> st_records s' = st_records s \<and>
    st_coins s' = foldl (\<lambda>m c. m(ch_player c \<mapsto> ch_after c)) (st_coins s) cs \<and>
    (\<forall>j. st_logs s' j =
       (if st_next_log s \<le> j \<and> j < st_next_log s + int (length cs)
        then Some ((log_of ended (cs ! nat (j - st_next_log s)))\<lparr>cl_id := j\<rparr>) else st_logs s j))"
  using assms
proof (induction cs arbitrary: s i ids olds)
  case Nil
  then show ?case by auto
next
  case (Cons c cs)
  obtain s2 where s2: "memory_ok s2" "st_records s2 = st_records s" "st_failpoint s2 = st_failpoint s"
    "st_coins s2 = (st_coins s)(ch_player c \<mapsto> ch_after c)"
    "st_logs s2 = (st_logs s)(st_next_log s \<mapsto> (log_of ended c)\<lparr>cl_id := st_next_log s\<rparr>)"
    "st_next_log s2 = st_next_log s + 1"
    and eq: "persist_changes sh s ended rid i (c # cs) ids olds =
       (let olds' = olds @ [(ch_player c, st_coins s (ch_player c))] in
        if st_failpoint s = AfterFirstCoinLogInserted \<and> i = 0
        then (rollback sh s2 (ids @ [st_next_log s]) rid olds', Some ''tx failpoint after first coin log inserted'')
        else persist_changes sh s2 ended rid (Suc i) cs (ids @ [st_next_log s]) olds')"
    using persist_step [OF Cons.prems(1), of c] Cons.prems(2) by (metis list.set_intros(1))
  have nofail: "\<not> (st_failpoint s = AfterFirstCoinLogInserted \<and> i = 0)" using Cons.prems(3) by auto
  have IH: "case persist_changes sh s2 ended rid (Suc i) cs (ids @ [st_next_log s])
      (olds @ [(ch_player c, st_coins s (ch_player c))]) of (s', e) \<Rightarrow>
    e = None \<and> memory_ok s' \<and> st_records s' = st_records s2 \<and>
    st_coins s' = foldl (\<lambda>m c. m(ch_player c \<mapsto> ch_after c)) (st_coins s2) cs \<and>
    (\<forall>j. st_logs s' j =
       (if st_next_log s2 \<le> j \<and> j < st_next_log s2 + int (length cs)
        then Some ((log_of ended (cs ! nat (j - st_next_log s2)))\<lparr>cl_id := j\<rparr>) else st_logs s2 j))"
    by (rule Cons.IH [OF s2(1)]) (use Cons.prems(2) in auto)
  have logs: "(if st_next_log s2 \<le> j \<and> j < st_next_log s2 + int (length cs)
        then Some ((log_of ended (cs ! nat (j - st_next_log s2)))\<lparr>cl_id := j\<rparr>) else st_logs s2 j) =
      (if st_next_log s \<le> j \<and> j < st_next_log s + int (length (c # cs))
        then Some ((log_of ended ((c # cs) ! nat (j - st_next_log s)))\<lparr>cl_id := j\<rparr>) else st_logs s j)" for j
  proof (cases "j = st_next_log s")
    case False
    have "st_next_log s < j \<Longrightarrow> nat (j - st_next_log s) = Suc (nat (j - (st_next_log s + 1)))" by arith
    then show ?thesis using False s2(5,6) by auto
  qed (simp add: s2)
  show ?case
    unfolding eq using nofail IH
    by (simp add: Let_def s2(2,4) logs del: fun_upd_apply split: prod.splits)
qed

lemma persist_changes_undone:
  assumes "memory_ok s" "coins_ok s" "0 < rid" "\<forall>x \<in> set olds. restorable x"
    "persist_changes sh s ended rid i cs ids olds = (s', Some e)"
  shows "memory_ok s' \<and> st_records s' = (st_records s)(rid := None) \<and>
    st_logs s' = (\<lambda>j. if j \<in> set ids then None else st_logs s j) \<and>
    st_coins s' = undo_coins olds (st_coins s)"
  using assms
proof (induction cs arbitrary: s i ids olds)
  case (Cons c cs)
  let ?old = "(ch_player c, st_coins s (ch_player c))"
  have rs: "\<forall>x \<in> set (olds @ [?old]). restorable x"
    using Cons.prems(2,4) by (auto simp: restorable_def coins_ok_def)
  show ?case
  proof (cases "0 < ch_player c")
    case False
    then have s': "s' = rollback sh s ids rid (olds @ [?old])"
      using Cons.prems(5) persist_refused [OF Cons.prems(1)] by (simp del: persist_changes.simps)
    show ?thesis unfolding s' using rollback_eq [OF Cons.prems(1) rs Cons.prems(3)]
      by (simp add: undo_coins_simps(4))
  next
    case True
    obtain s2 where s2: "memory_ok s2" "st_records s2 = st_records s"
      "st_coins s2 = (st_coins s)(ch_player c \<mapsto> ch_after c)"
      "st_logs s2 = (st_logs s)(st_next_log s \<mapsto> (log_of ended c)\<lparr>cl_id := st_next_log s\<rparr>)"
      "st_logs s (st_next_log s) = None"
      and eq: "persist_changes sh s ended rid i (c # cs) ids olds =
         (let olds' = olds @ [?old] in
          if st_failpoint s = AfterFirstCoinLogInserted \<and> i = 0
          then (rollback sh s2 (ids @ [st_next_log s]) rid olds', Some ''tx failpoint after first coin log inserted'')
          else persist_changes sh s2 ended rid (Suc i) cs (ids @ [st_next_log s]) olds')"
      using persist_step [OF Cons.prems(1) True] by metis
    have c2: "coins_ok s2" using Cons.prems(2) True by (auto simp: coins_ok_def s2(3))
    have coins: "undo_coins (olds @ [?old]) (st_coins s2) =
        undo_coins olds (st_coins s)"
      unfolding s2(3) by (rule undo_coins_simps(3))
    have logs: "(\<lambda>j. if j \<in> set (ids @ [st_next_log s]) then None else st_logs s2 j) =
        (\<lambda>j. if j \<in> set ids then None else st_logs s j)"
      using s2(5) by (auto simp: s2(4) fun_eq_iff)
    show ?thesis
    proof (cases "st_failpoint s = AfterFirstCoinLogInserted \<and> i = 0")
      case True
      then have s': "s' = rollback sh s2 (ids @ [st_next_log s]) rid (olds @ [?old])"
        using Cons.prems(5) unfolding eq by (simp add: Let_def)
      show ?thesis unfolding s'
        using rollback_eq [OF s2(1) rs Cons.prems(3)] s2(2) coins logs by simp
    next
      case False
      then have "persist_changes sh s2 ended rid (Suc i) cs (ids @ [st_next_log s]) (olds @ [?old]) = (s', Some e)"
        using Cons.prems(5) unfolding eq Let_def by (simp only: if_False)
      from Cons.IH [OF s2(1) c2 Cons.prems(3) rs this] show ?thesis
        unfolding coins logs s2(2) by simp
    qed
  qed
qed simp


lemma persist_succeeds:
  assumes "memory_ok s" "persist_changes sh s ended rid i cs ids olds = (s', None)"
  shows "(\<forall>c \<in> set cs. 0 < ch_player c) \<and> (st_failpoint s = AfterFirstCoinLogInserted \<longrightarrow> 0 < i \<or> cs = [])"
  using assms
proof (induction cs arbitrary: s i ids olds)
  case (Cons c cs)
  have pos: "0 < ch_player c"
    using Cons.prems persist_refused [OF Cons.prems(1), of c sh ended rid i cs ids olds]
    by (cases "0 < ch_player c") auto
  obtain s2 where s2: "memory_ok s2" "st_failpoint s2 = st_failpoint s"
    and eq: "persist_changes sh s ended rid i (c # cs) ids olds =
       (let olds' = olds @ [(ch_player c, st_coins s (ch_player c))] in
        if st_failpoint s = AfterFirstCoinLogInserted \<and> i = 0
        then (rollback sh s2 (ids @ [st_next_log s]) rid olds', Some ''tx failpoint after first coin log inserted'')
        else persist_changes sh s2 ended rid (Suc i) cs (ids @ [st_next_log s]) olds')"
    using persist_step [OF Cons.prems(1) pos] by metis
  show ?case
  proof (cases "st_failpoint s = AfterFirstCoinLogInserted \<and> i = 0")
    case False
    then have "persist_changes sh s2 ended rid (Suc i) cs (ids @ [st_next_log s])
        (olds @ [(ch_player c, st_coins s (ch_player c))]) = (s', None)"
      using Cons.prems(2) unfolding eq Let_def by (simp only: if_False)
    then show ?thesis using Cons.IH [OF s2(1)] pos False by auto
  next
    case True
    then have "(s', None) = (rollback sh s2 (ids @ [st_next_log s]) rid (olds @ [(ch_player c, st_coins s (ch_player c))]),
        Some ''tx failpoint after first coin log inserted'')"
      using Cons.prems(2) unfolding eq Let_def by (simp only: if_True simp_thms)
    then show ?thesis by simp
  qed
qed simp

subsection \<open>The transaction as a whole\<close>

lemma persist_result:
  assumes "\<not> po_enabled (st_pool s)" "storage_ok s" "coins_ok s"
    "PersistSettlementTransaction sh s q = (s', r)"
  shows "storage_ok s' \<and> (case r of
      Inl e \<Rightarrow> st_coins s' = st_coins s \<and> st_records s' = st_records s \<and> st_logs s' = st_logs s
    | Inr rid \<Rightarrow> 0 < rid \<and> st_records s rid = None \<and>
        st_records s' = (st_records s)(rid \<mapsto> (record_of q)\<lparr>gr_id := rid\<rparr>) \<and>
        st_coins s' = foldl (\<lambda>m c. m(ch_player c \<mapsto> ch_after c)) (st_coins s) (pq_changes q) \<and>
        (\<forall>j. st_logs s' j =
          (if st_next_log s \<le> j \<and> j < st_next_log s + int (length (pq_changes q))
           then Some ((log_of (pq_ended q) (pq_changes q ! nat (j - st_next_log s)))\<lparr>cl_id := j\<rparr>)
           else st_logs s j)))"
proof (cases "pq_room q \<le> 0 \<or> pq_winner q \<le> 0 \<or> pq_changes q = []")
  case True
  then show ?thesis using assms by (auto simp: PersistSettlementTransaction_def)
next
  case False
  have m: "memory_ok s" using assms(1,2) by (simp add: memory_ok_def mysql_on_def)
  let ?rid = "st_next_record s"
  define s1 where "s1 = fst (RecordDao_Insert sh s (record_of q))"
  have ins: "RecordDao_Insert sh s (record_of q) = (s1, ?rid)"
    "st_records s1 = (st_records s)(?rid \<mapsto> (record_of q)\<lparr>gr_id := ?rid\<rparr>)"
    "st_next_log s1 = st_next_log s"
    using m by (simp_all add: s1_def RecordDao_Insert_def memory_ok_def Let_def)
  have fr: "st_coins s1 = st_coins s" "st_logs s1 = st_logs s"
    unfolding s1_def by (rule memory_frames [OF m])+
  have m1: "memory_ok s1" unfolding s1_def by (rule record_table.ins_inv [OF m])
  have fresh: "0 < ?rid \<and> st_records s ?rid = None"
    using record_table.ins_fresh [OF m, of sh "record_of q"] by (simp add: ins(1))
  have undo: "(st_records s1)(?rid := None) = st_records s" using fresh by (auto simp: ins(2) fun_eq_iff)
  have P: "persist_memory sh s q = (s', r)"
    using assms(1,4) False by (simp add: PersistSettlementTransaction_def)
  show ?thesis
  proof (cases "st_failpoint s1 = AfterRecordInserted")
    case True
    then have "s' = rollback sh s1 [] ?rid [] \<and> r = Inl ''tx failpoint after record inserted''"
      using P fresh unfolding persist_memory_def ins(1) by simp
    then show ?thesis
      using rollback_eq [OF m1, where rid = ?rid and sh = sh and olds = "[]" and ids = "[]"] fresh undo
      by (simp add: fr undo_coins_simps memory_ok_def)
  next
    case nofail: False
    obtain s2 e where L: "persist_changes sh s1 (pq_ended q) ?rid 0 (pq_changes q) [] [] = (s2, e)" by fastforce
    show ?thesis
    proof (cases e)
      case (Some e')
      then have "s' = s2 \<and> r = Inl e'" using P L fresh nofail unfolding persist_memory_def ins(1) by simp
      moreover have "coins_ok s1" using assms(3) by (simp add: coins_ok_def fr)
      ultimately show ?thesis
        using persist_changes_undone [OF m1 _ _ _ L [unfolded Some]] fresh undo
        by (simp add: fr undo_coins_simps memory_ok_def)
    next
      case None
      then have s': "s' = s2 \<and> r = Inr ?rid"
        using P L fresh nofail unfolding persist_memory_def ins(1) by simp
      have ok: "\<forall>c \<in> set (pq_changes q). 0 < ch_player c"
        "st_failpoint s1 = AfterFirstCoinLogInserted \<longrightarrow> (0 :: nat) < 0 \<or> pq_changes q = []"
        using persist_succeeds [OF m1 L [unfolded None]] by auto
      show ?thesis
        using persist_changes_done [OF m1 ok, where sh = sh and ended = "pq_ended q" and rid = ?rid and ids = "[]" and olds = "[]"] s' L None fresh
        by (simp add: ins(2,3) fr memory_ok_def)
    qed
  qed
qed

lemma persist_positive:
  assumes "\<not> po_enabled (st_pool s)" "storage_ok s" "PersistSettlementTransaction sh s q = (s', Inr rid)"
  shows "\<forall>c \<in> set (pq_changes q). 0 < ch_player c"
proof -
  have m: "memory_ok s" using assms(1,2) by (simp add: memory_ok_def mysql_on_def)
  obtain s1 i where ins: "RecordDao_Insert sh s (record_of q) = (s1, i)" by fastforce
  have m1: "memory_ok s1" using record_table.ins_inv [OF m, of sh "record_of q"] by (simp add: ins)
  have "persist_memory sh s q = (s', Inr rid)"
    using assms(1,3) by (simp add: PersistSettlementTransaction_def split: if_splits)
  then obtain s2 where "persist_changes sh s1 (pq_ended q) i 0 (pq_changes q) [] [] = (s2, None)"
    by (auto simp: persist_memory_def ins split: if_splits prod.splits option.splits)
  from persist_succeeds [OF m1 this] show ?thesis by simp
qed

lemma persist_accepts:
  assumes "\<not> po_enabled (st_pool s)" "storage_ok s" "st_failpoint s = NoFailpoint"
    "0 < pq_room q" "0 < pq_winner q" "pq_changes q \<noteq> []" "\<forall>c \<in> set (pq_changes q). 0 < ch_player c"
  shows "\<exists>s' rid. PersistSettlementTransaction sh s q = (s', Inr rid)"
proof -
  have m: "memory_ok s" using assms(1,2) by (simp add: memory_ok_def mysql_on_def)
  obtain s1 i where ins: "RecordDao_Insert sh s (record_of q) = (s1, i)" by fastforce
  have m1: "memory_ok s1" and pos: "0 < i" and fp: "st_failpoint s1 = NoFailpoint"
    using record_table.ins_inv [OF m, of sh "record_of q"] record_table.ins_fresh [OF m, of sh "record_of q"]
      memory_frames(8) [OF m, of sh "record_of q"] assms(3) by (simp_all add: ins)
  obtain s2 e where L: "persist_changes sh s1 (pq_ended q) i 0 (pq_changes q) [] [] = (s2, e)" by fastforce
  have "e = None"
    using persist_changes_done [OF m1 assms(7), where i = 0 and sh = sh and ended = "pq_ended q" and rid = i
        and ids = "[]" and olds = "[]"] fp L by simp
  then show ?thesis
    using assms(1,4-6) pos fp L by (simp add: PersistSettlementTransaction_def persist_memory_def ins)
qed

lemma persist_coins_ok:
  assumes "\<not> po_enabled (st_pool s)" "storage_ok s" "coins_ok s"
    "PersistSettlementTransaction sh s q = (s', r)"
  shows "coins_ok s'"
proof (cases r)
  case (Inl e)
  then show ?thesis using persist_result [OF assms] assms(3) by (simp add: coins_ok_def)
next
  case (Inr rid)
  have pos: "\<forall>c \<in> set (pq_changes q). 0 < ch_player c"
    using persist_positive [OF assms(1,2) assms(4) [unfolded Inr]] by simp
  have "dom (foldl (\<lambda>m c. m(ch_player c \<mapsto> ch_after c)) m cs) = dom m \<union> ch_player ` set cs" for cs m
    by (induction cs arbitrary: m) auto
  then have d: "dom (st_coins s') = dom (st_coins s) \<union> ch_player ` set (pq_changes q)"
    using persist_result [OF assms] Inr by simp
  have c: "coins_ok st \<longleftrightarrow> (\<forall>p \<in> dom (st_coins st). 0 < p)" for st :: "'a storage"
    by (auto simp: coins_ok_def dom_def)
  show ?thesis using assms(3) pos unfolding c d by auto
qed

subsection \<open>The pool and the failpoint after a transaction\<close>

definition storage_cfg :: "'w storage \<Rightarrow> mysql_pool \<times> tx_failpoint" where
  "storage_cfg s = (st_pool s, st_failpoint s)"

lemma run_sql_cfg: "storage_cfg (fst (run_sql sh s sql)) = storage_cfg s"
  by (simp add: run_sql_def storage_cfg_def split_beta)

lemma dao_cfg [frame_simps]:
  "storage_cfg (fst (RecordDao_Insert sh s r)) = storage_cfg s" "storage_cfg (fst (RecordDao_DeleteById sh s i)) = storage_cfg s"
  "storage_cfg (fst (LogDao_Insert sh s l)) = storage_cfg s" "storage_cfg (fst (LogDao_DeleteById sh s i)) = storage_cfg s"
  "storage_cfg (fst (PlayerDao_GetCoin sh s p)) = storage_cfg s" "storage_cfg (fst (PlayerDao_UpsertCoin sh s p v)) = storage_cfg s"
  "storage_cfg (fst (PlayerDao_Erase sh s p)) = storage_cfg s"
  by (simp_all add: RecordDao_Insert_def RecordDao_DeleteById_def LogDao_Insert_def LogDao_DeleteById_def
      PlayerDao_GetCoin_def PlayerDao_UpsertCoin_def PlayerDao_Erase_def split_beta run_sql_cfg Let_def storage_cfg_def
      run_sql_cfg [unfolded storage_cfg_def prod.inject])

lemma restore_cfg [frame_simps]: "storage_cfg (restore_coin sh x s) = storage_cfg s"
  by (simp add: restore_coin_def frame_simps split: option.split)

lemma folds_cfg [frame_simps]:
  "storage_cfg (foldr (\<lambda>i s. fst (LogDao_DeleteById sh s i)) ids s) = storage_cfg s"
  "storage_cfg (foldr (restore_coin sh) olds s) = storage_cfg s"
  by (induction ids, simp_all add: frame_simps) (induction olds, simp_all add: frame_simps)

lemma rollback_cfg [frame_simps]: "storage_cfg (rollback sh s ids rid olds) = storage_cfg s"
  by (simp add: rollback_def Let_def frame_simps)

lemma persist_changes_cfg [frame_simps]:
  "storage_cfg (fst (persist_changes sh s ended rid i cs ids olds)) = storage_cfg s"
proof (induction cs arbitrary: s i ids olds)
  case (Cons c cs)
  obtain s0 old where g: "PlayerDao_GetCoin sh s (ch_player c) = (s0, old)" by fastforce
  obtain s1 ok where u: "PlayerDao_UpsertCoin sh s0 (ch_player c) (ch_after c) = (s1, ok)" by fastforce
  obtain s2 j where l: "LogDao_Insert sh s1 (log_of ended c) = (s2, j)" by fastforce
  have "storage_cfg s0 = storage_cfg s" "storage_cfg s1 = storage_cfg s0" "storage_cfg s2 = storage_cfg s1"
    using dao_cfg(5) [of sh s] dao_cfg(6) [of sh s0] dao_cfg(3) [of sh s1] g u l by (metis fst_conv)+
  then show ?case using Cons.IH by (cases ok) (simp_all add: g u l Let_def frame_simps)
qed simp

lemma persist_cfg: "storage_cfg (fst (PersistSettlementTransaction sh s q)) = storage_cfg s"
proof (cases "po_enabled (st_pool s)")
  case True
  obtain pool l where A: "Acquire (st_pool s) = (pool, l)" by fastforce
  have "\<not> le_valid l \<Longrightarrow> pool = st_pool s" using A by (auto simp: Acquire_def split: option.splits if_splits)
  then show ?thesis using True Acquire_Release [OF A]
    by (auto simp: PersistSettlementTransaction_def persist_mysql_def A storage_cfg_def split: prod.split)
next
  case False
  obtain s1 rid where r: "RecordDao_Insert sh s (record_of q) = (s1, rid)" by fastforce
  then have "storage_cfg s1 = storage_cfg s" using dao_cfg(1) [of sh s "record_of q"] by simp
  moreover obtain s2 e where "persist_changes sh s1 (pq_ended q) rid 0 (pq_changes q) [] [] = (s2, e)" by fastforce
  ultimately show ?thesis using False persist_changes_cfg [of sh s1 "pq_ended q" rid 0 "pq_changes q" "[]" "[]"]
    by (cases e) (simp_all add: PersistSettlementTransaction_def persist_memory_def r frame_simps)
qed

lemma persist_frame:
  "st_pool (fst (PersistSettlementTransaction sh s q)) = st_pool s"
  "st_failpoint (fst (PersistSettlementTransaction sh s q)) = st_failpoint s"
  using persist_cfg [of sh s q] by (simp_all add: storage_cfg_def)

subsection \<open>Round trip of the player list\<close>

lemma parse_players_ints:
  "list_all in_i64 ps \<Longrightarrow> parse_players (map int_str ps) out = out @ ps"
  by (induction ps arbitrary: out) auto

lemma JoinPlayers_Nil: "JoinPlayers ps = [] \<longleftrightarrow> ps = []"
proof (cases ps)
  case (Cons p qs)
  then show ?thesis by (cases qs) (simp_all add: JoinPlayers_def)
qed (simp add: JoinPlayers_def)

lemma ParsePlayers_JoinPlayers: "list_all in_i64 ps \<Longrightarrow> ParsePlayers (JoinPlayers ps) = ps"
proof (cases ps)
  case (Cons p qs)
  assume a: "list_all in_i64 ps"
  have "getlines CHR '','' (JoinPlayers ps) = map int_str ps" unfolding JoinPlayers_def
    by (rule getlines_join) (use Cons in \<open>auto simp: list_all_iff int_str_free last_map\<close>)
  then show ?thesis using Cons a JoinPlayers_Nil [of ps] by (simp add: ParsePlayers_def parse_players_ints)
qed (simp add: ParsePlayers_def JoinPlayers_def)

lemma int_str_no_tab: "CHR 0x09 \<notin> set (int_str i)"
  by (auto dest!: int_str_chars simp: is_digit_def)

lemma JoinPlayers_no_tab: "CHR 0x09 \<notin> set (JoinPlayers ps)"
proof
  assume "CHR 0x09 \<in> set (JoinPlayers ps)"
  from join_chars [OF this [unfolded JoinPlayers_def]] show False using int_str_no_tab by auto
qed

text \<open>The row that \<^verbatim>\<open>mysql -B\<close> prints for a record: its columns, separated by tabs.\<close>

definition record_row :: "game_record \<Rightarrow> string" where
  "record_row r = join [CHR 0x09] [int_str (gr_id r), int_str (gr_room r), int_str (gr_mode r),
     int_str (gr_winner r), int_str (gr_started r), int_str (gr_ended r), JoinPlayers (gr_players r)]"

subsection \<open>Properties\<close>

text \<open>C22: the settlement transaction in memory is all or nothing. When it fails, for whatever
  reason, the coins, the records and the log are what they were; when it succeeds there is one
  new record under a new number, one log row per coin change with consecutive new numbers, and
  each player's balance is the one of its last change.\<close>

theorem settlement_atomic:
  assumes "\<not> po_enabled (st_pool s)" "storage_ok s" "coins_ok s"
    "PersistSettlementTransaction sh s q = (s', r)"
  shows "storage_ok s' \<and> (case r of
      Inl e \<Rightarrow> st_coins s' = st_coins s \<and> st_records s' = st_records s \<and> st_logs s' = st_logs s
    | Inr rid \<Rightarrow> 0 < rid \<and> st_records s rid = None \<and>
        st_records s' = (st_records s)(rid \<mapsto> (record_of q)\<lparr>gr_id := rid\<rparr>) \<and>
        st_coins s' = foldl (\<lambda>m c. m(ch_player c \<mapsto> ch_after c)) (st_coins s) (pq_changes q) \<and>
        (\<forall>j. st_logs s' j =
          (if st_next_log s \<le> j \<and> j < st_next_log s + int (length (pq_changes q))
           then Some ((log_of (pq_ended q) (pq_changes q ! nat (j - st_next_log s)))\<lparr>cl_id := j\<rparr>)
           else st_logs s j)))"
  by (rule persist_result [OF assms])

definition demo_storage :: "unit storage" where
  "demo_storage =
     \<lparr>st_world = (), st_pool = \<lparr>po_enabled = False,
        po_cfg = \<lparr>my_enabled = False, my_host = ''127.0.0.1'', my_port = 3306, my_user = ''ddz'',
          my_password = ''ddz_pass'', my_database = ''ddz'', my_pool_size = 2\<rparr>,
        po_in_use = [False, False]\<rparr>,
      st_bound = True, st_coins = [7 \<mapsto> 900], st_next_record = 1, st_records = Map.empty,
      st_next_log = 1, st_logs = Map.empty, st_failpoint = NoFailpoint\<rparr>"

definition demo_request :: persist_request where
  "demo_request =
     \<lparr>pq_room = 10001, pq_mode = 3, pq_winner = 7, pq_started = 5, pq_ended = 6, pq_players = [7, 8],
      pq_changes = [\<lparr>ch_player = 7, ch_room = 10001, ch_delta = 50, ch_before = 900, ch_after = 950\<rparr>,
                    \<lparr>ch_player = 8, ch_room = 10001, ch_delta = - 50, ch_before = 100, ch_after = 50\<rparr>]\<rparr>"

definition no_shell :: "unit shell" where
  "no_shell w cmd = (w, None)"

text \<open>A shell that answers every command with the number 41.\<close>

definition demo_shell :: "unit shell" where
  "demo_shell w cmd = (w, Some (''41'' @ [CHR 0x0A], 0))"

theorem settlement_atomic_witness:
  "case PersistSettlementTransaction no_shell demo_storage demo_request of
     (s', r) \<Rightarrow> r = Inr 1 \<and> st_coins s' 7 = Some 950 \<and> st_coins s' 8 = Some 50"
proof -
  obtain s' r where P: "PersistSettlementTransaction no_shell demo_storage demo_request = (s', r)" by fastforce
  have "r = Inr 1"
    using P by (simp add: PersistSettlementTransaction_def persist_memory_def demo_storage_def demo_request_def
        RecordDao_Insert_def mysql_on_def PlayerDao_GetCoin_def PlayerDao_UpsertCoin_def LogDao_Insert_def Let_def
        split: prod.splits)
  with settlement_atomic [OF _ _ _ P] show ?thesis
    unfolding P by (simp add: storage_ok_def coins_ok_def demo_storage_def demo_request_def)
qed


definition demo_mysql :: "unit storage" where
  "demo_mysql = demo_storage\<lparr>st_pool := (st_pool demo_storage)\<lparr>po_enabled := True\<rparr>\<rparr>"


text \<open>A stored game record is read back as it was written, the list of players included.\<close>

theorem record_roundtrip:
  assumes "in_i64 (gr_id r)" "in_i64 (gr_room r)" "in_i32 (gr_mode r)" "in_i64 (gr_winner r)"
    "in_i64 (gr_started r)" "in_i64 (gr_ended r)" "list_all in_i64 (gr_players r)"
  shows "parse_record (SplitByTab (record_row r)) = Some r"
proof -
  have "SplitByTab (record_row r) = [int_str (gr_id r), int_str (gr_room r), int_str (gr_mode r),
     int_str (gr_winner r), int_str (gr_started r), int_str (gr_ended r), JoinPlayers (gr_players r)]"
    unfolding record_row_def SplitByTab_def
    by (rule split_pieces_join) (simp_all add: int_str_no_tab JoinPlayers_no_tab)
  then show ?thesis using assms in_i32_in_i64 [OF assms(3)]
    by (simp add: parse_record_def ParsePlayers_JoinPlayers)
qed

theorem record_roundtrip_witness:
  "parse_record (SplitByTab (record_row (record_of demo_request))) = Some (record_of demo_request)"
  by (rule record_roundtrip) (simp_all add: record_of_def demo_request_def in_i64_def in_i32_def)

text \<open>Characters that the shell interprets inside double quotes.\<close>

definition shell_special :: "char \<Rightarrow> bool" where
  "shell_special c \<longleftrightarrow> c \<in> {CHR 0x22, CHR 0x5C, CHR 0x24, CHR 0x60}"

lemma int_str_safe: "list_all (\<lambda>c. \<not> shell_special c) (int_str i)"
  by (auto simp: list_all_iff shell_special_def is_digit_def dest!: int_str_chars)

lemma JoinPlayers_safe: "list_all (\<lambda>c. \<not> shell_special c) (JoinPlayers ps)"
proof -
  have "\<not> shell_special c" if "c \<in> set (JoinPlayers ps)" for c
    using join_chars [OF that [unfolded JoinPlayers_def]] int_str_safe
    by (auto simp: list_all_iff) (simp add: shell_special_def)
  then show ?thesis by (simp add: list_all_iff)
qed

lemma change_sql_safe: "list_all (\<lambda>c. \<not> shell_special c) (change_sql fp ended i c)"
  unfolding change_sql_def list_all_append
  by (simp add: int_str_safe) (simp add: shell_special_def)

lemma settlement_sql_safe: "list_all (\<lambda>c. \<not> shell_special c) (settlement_sql fp q)"
proof -
  have "list_all (\<lambda>c. \<not> shell_special c) (concat (map (\<lambda>(i, c). change_sql fp (pq_ended q) i c) xs))" for xs
    using change_sql_safe by (induction xs) auto
  then show ?thesis
    unfolding settlement_sql_def list_all_append
    by (simp add: int_str_safe JoinPlayers_safe) (simp add: shell_special_def)
qed

lemma Escape_safe: "list_all (\<lambda>c. \<not> shell_special c) s \<Longrightarrow> EscapeForDoubleQuotedShell s = s"
  by (induction s) (auto simp: EscapeForDoubleQuotedShell_def shell_special_def)

text \<open>The SQL of a settlement contains no character that is special inside the double quotes
  of the command line, so the shell hands exactly this text to MySQL.\<close>

theorem settlement_sql_quoted:
  "list_all (\<lambda>c. \<not> shell_special c) (settlement_sql fp q) \<and>
   EscapeForDoubleQuotedShell (settlement_sql fp q) = settlement_sql fp q"
  using settlement_sql_safe Escape_safe by blast

end
