(* ===== verification/DdzSettlement.thy ===== *)
theory DdzSettlement
  imports DdzLobby DdzStorage
begin

text \<open>
  The settlement service, \<^verbatim>\<open>service/settlement/settlement_service.cpp\<close>: at the end of a game it
  computes the coin changes, has the storage service persist them, applies them in memory, sends
  the players back to the lobby and removes the room. What the service needs of the storage is
  the locale \<open>ledger\<close>, interpreted on the transaction of \<open>DdzStorage\<close>.
\<close>

record settle_player =
  sp_player :: player_id
  sp_change :: int
  sp_after :: int

record settlement_result =
  se_code :: error_code
  se_room :: room_id
  se_winner :: player_id
  se_record :: int
  se_players :: "settle_player list"

record decision =
  de_room :: room_id
  de_winner :: player_id
  de_base :: int

text \<open>The state the service works on: the managers, the storage, and the rooms being settled.\<close>

record 'w settle_state =
  ts_core :: core
  ts_store :: "'w storage"
  ts_settling :: "room_id set"

definition TryBeginSettlement :: "room_id set \<Rightarrow> room_id \<Rightarrow> room_id set \<times> bool" where
  "TryBeginSettlement settling rid = (insert rid settling, rid \<notin> settling)"

definition EndSettlement :: "room_id set \<Rightarrow> room_id \<Rightarrow> room_id set" where
  "EndSettlement settling rid = settling - {rid}"

text \<open>The loop that collects the coin changes; \<open>None\<close> when a player is unknown.\<close>

fun settle_changes ::
    "player_manager \<Rightarrow> room_id \<Rightarrow> player_id \<Rightarrow> int \<Rightarrow> int \<Rightarrow> player_id list \<Rightarrow> coin_change list option" where
  "settle_changes pm rid winner gain base [] = Some []"
| "settle_changes pm rid winner gain base (p # ps) =
     (case GetPlayer pm p of
        None \<Rightarrow> None
      | Some d \<Rightarrow>
          let delta = (if p = winner then gain else - base) in
          map_option ((#) \<lparr>ch_player = p, ch_room = rid, ch_delta = delta, ch_before = pl_coin d,
                           ch_after = pl_coin d + delta\<rparr>)
            (settle_changes pm rid winner gain base ps))"

text \<open>The loop that takes back coins when the batch is refused.\<close>

definition restore_coins :: "player_manager \<Rightarrow> coin_change list \<Rightarrow> player_manager" where
  "restore_coins pm cs =
     foldl (\<lambda>pm c. case AddCoin pm (ch_player c) (ch_before c - GetCoin pm (ch_player c)) of
                     Some (pm', _) \<Rightarrow> pm' | None \<Rightarrow> pm) pm cs"

text \<open>The last loop: sessions leave the room, players return to the lobby.\<close>

definition release_players :: "core \<Rightarrow> player_id list \<Rightarrow> core" where
  "release_players c ps =
     foldl (\<lambda>c p. c\<lparr>co_sessions := fst (ClearRoomId (co_sessions c) p),
                    co_players := ForceState (co_players c) p Lobby\<rparr>) c ps"

definition persist_of :: "room \<Rightarrow> decision \<Rightarrow> millis \<Rightarrow> coin_change list \<Rightarrow> persist_request" where
  "persist_of r d now cs =
     \<lparr>pq_room = rm_id r, pq_mode = rm_mode r, pq_winner = de_winner d, pq_started = now,
      pq_ended = now, pq_players = rm_players r, pq_changes = cs\<rparr>"

text \<open>The body of the \<^verbatim>\<open>do ... while (false)\<close>; a \<^verbatim>\<open>break\<close> is a branch that ends here.\<close>

definition settle_body ::
    "'w shell \<Rightarrow> core \<Rightarrow> 'w storage \<Rightarrow> decision \<Rightarrow> millis \<Rightarrow> settlement_result
     \<Rightarrow> core \<times> 'w storage \<times> settlement_result" where
  "settle_body sh c st d now res =
     (case GetRoomById (co_rooms c) (de_room d) of
        None \<Rightarrow> (c, st, res\<lparr>se_code := ROOM_NOT_FOUND\<rparr>)
      | Some r \<Rightarrow>
          let c1 = c\<lparr>co_rooms := fst (MarkSettling (co_rooms c) (de_room d))\<rparr>;
              failed = res\<lparr>se_code := SETTLEMENT_FAILED\<rparr> in
          if de_winner d \<notin> set (rm_players r) then (c1, st, failed)
          else
            let gain = de_base d * int (length (rm_players r) - 1) in
            (case settle_changes (co_players c) (rm_id r) (de_winner d) gain (de_base d) (rm_players r) of
               None \<Rightarrow> (c1, st, failed)
             | Some cs \<Rightarrow>
                 (case PersistSettlementTransaction sh st (persist_of r d now cs) of
                    (st', Inl e) \<Rightarrow> (c1, st', failed)
                  | (st', Inr rid) \<Rightarrow>
                      let res1 = res\<lparr>se_record := rid\<rparr> in
                      (case BatchAddCoin (co_players c1) (map (\<lambda>x. (ch_player x, ch_delta x)) cs) of
                         None \<Rightarrow>
                           (c1\<lparr>co_players := restore_coins (co_players c1) cs\<rparr>, st',
                            res1\<lparr>se_code := SETTLEMENT_FAILED\<rparr>)
                       | Some (pm, afters) \<Rightarrow>
                           let c2 = release_players (c1\<lparr>co_players := pm\<rparr>) (rm_players r);
                               rooms = fst (MarkFinished (co_rooms c2) (rm_id r)) in
                           (c2\<lparr>co_rooms := fst (DestroyRoom rooms (rm_id r))\<rparr>, st',
                            res1\<lparr>se_code := OK,
                                 se_players := map2 (\<lambda>x after. \<lparr>sp_player = ch_player x,
                                   sp_change = ch_delta x, sp_after = after\<rparr>) cs afters\<rparr>)))))"

definition SettleByServerResult ::
    "'w shell \<Rightarrow> 'w settle_state \<Rightarrow> decision \<Rightarrow> millis \<Rightarrow> 'w settle_state \<times> settlement_result" where
  "SettleByServerResult sh s d now =
     (let res = \<lparr>se_code = UNKNOWN_ERROR, se_room = de_room d, se_winner = de_winner d,
                 se_record = 0, se_players = []\<rparr> in
      if de_room d \<le> 0 \<or> de_winner d \<le> 0 \<or> de_base d \<le> 0
      then (s, res\<lparr>se_code := INVALID_PACKET\<rparr>)
      else case TryBeginSettlement (ts_settling s) (de_room d) of
             (settling, False) \<Rightarrow> (s\<lparr>ts_settling := settling\<rparr>, res\<lparr>se_code := SETTLEMENT_FAILED\<rparr>)
           | (settling, True) \<Rightarrow>
               (case settle_body sh (ts_core s) (ts_store s) d now res of
                  (c, st, res') \<Rightarrow>
                    (\<lparr>ts_core = c, ts_store = st, ts_settling = EndSettlement settling (de_room d)\<rparr>, res')))"

definition Settle ::
    "'w shell \<Rightarrow> 'w settle_state \<Rightarrow> room_id \<Rightarrow> player_id \<Rightarrow> int \<Rightarrow> millis \<Rightarrow> 'w settle_state \<times> settlement_result" where
  "Settle sh s rid winner base now =
     SettleByServerResult sh s \<lparr>de_room = rid, de_winner = winner, de_base = base\<rparr> now"

subsection \<open>What the service needs of the storage\<close>

text \<open>A ledger: a refused request leaves the books alone, an accepted one writes the new balance
  of each change. When the written balances are the old ones plus changes that cancel out, the
  books keep their total.\<close>

definition write_balances :: "(player_id \<rightharpoonup> int) \<Rightarrow> coin_change list \<Rightarrow> player_id \<rightharpoonup> int" where
  "write_balances m cs = foldl (\<lambda>m c. m(ch_player c \<mapsto> ch_after c)) m cs"

lemma write_balances_simps [simp]:
  "write_balances m [] = m"
  "write_balances m (c # cs) = write_balances (m(ch_player c \<mapsto> ch_after c)) cs"
  by (simp_all add: write_balances_def)

lemma write_balances_other: "p \<notin> ch_player ` set cs \<Longrightarrow> write_balances m cs p = m p"
  by (induction cs arbitrary: m) auto

lemma write_balances_at:
  "distinct (map ch_player cs) \<Longrightarrow> c \<in> set cs \<Longrightarrow> write_balances m cs (ch_player c) = Some (ch_after c)"
  by (induction cs arbitrary: m) (auto simp: write_balances_other)

locale ledger =
  fixes inv :: "'s \<Rightarrow> bool" and book :: "'s \<Rightarrow> player_id \<Rightarrow> int option"
    and post :: "'s \<Rightarrow> persist_request \<Rightarrow> 's \<times> (string + int)"
  assumes post_inv: "inv s \<Longrightarrow> inv (fst (post s q))"
    and post_refused: "inv s \<Longrightarrow> snd (post s q) = Inl e \<Longrightarrow> book (fst (post s q)) = book s"
    and post_done: "inv s \<Longrightarrow> snd (post s q) = Inr rid \<Longrightarrow>
      book (fst (post s q)) = write_balances (book s) (pq_changes q)"
begin

lemma book_other:
  assumes "inv s" "p \<notin> ch_player ` set (pq_changes q)"
  shows "book (fst (post s q)) p = book s p"
  using post_refused [OF assms(1)] post_done [OF assms(1)] write_balances_other [OF assms(2)]
  by (cases "snd (post s q)") fastforce+

lemma total_kept:
  assumes "inv s" "snd (post s q) = Inr rid" "distinct (map ch_player (pq_changes q))"
    "\<And>c. c \<in> set (pq_changes q) \<Longrightarrow> ch_after c = ch_before c + ch_delta c \<and> book s (ch_player c) = Some (ch_before c)"
    "(\<Sum>c \<leftarrow> pq_changes q. ch_delta c) = 0"
  shows "(\<Sum>c \<leftarrow> pq_changes q. the (book (fst (post s q)) (ch_player c))) =
    (\<Sum>c \<leftarrow> pq_changes q. the (book s (ch_player c)))"
proof -
  have "the (book (fst (post s q)) (ch_player c)) = the (book s (ch_player c)) + ch_delta c"
    if "c \<in> set (pq_changes q)" for c
    using post_done [OF assms(1,2)] write_balances_at [OF assms(3) that] assms(4) [OF that] by simp
  then have "(\<Sum>c \<leftarrow> pq_changes q. the (book (fst (post s q)) (ch_player c))) =
      (\<Sum>c \<leftarrow> pq_changes q. the (book s (ch_player c)) + ch_delta c)"
    by (intro arg_cong [where f = sum_list] map_cong) auto
  then show ?thesis using assms(5) by (simp add: sum_list_addf)
qed

end

definition books_ok :: "'w storage \<Rightarrow> bool" where
  "books_ok s \<longleftrightarrow> \<not> po_enabled (st_pool s) \<and> storage_ok s \<and> coins_ok s"


lemma settle_books:
  assumes "books_ok s" "PersistSettlementTransaction sh s q = (s', r)"
  shows "books_ok s'" "r = Inl e \<Longrightarrow> st_coins s' = st_coins s"
    "r = Inr rid \<Longrightarrow> st_coins s' = write_balances (st_coins s) (pq_changes q)"
proof -
  have b: "\<not> po_enabled (st_pool s)" "storage_ok s" "coins_ok s" using assms(1) by (simp_all add: books_ok_def)
  note A = persist_result [OF b assms(2)]
  show "r = Inl e \<Longrightarrow> st_coins s' = st_coins s" using A by simp
  show "r = Inr rid \<Longrightarrow> st_coins s' = write_balances (st_coins s) (pq_changes q)"
    using A by (simp add: write_balances_def)
  have "st_pool s' = st_pool s" using persist_frame(1) [of sh s q] assms(2) by simp
  then show "books_ok s'" using A persist_coins_ok [OF b assms(2)] b(1) by (simp add: books_ok_def)
qed

interpretation books: ledger books_ok st_coins "PersistSettlementTransaction sh" for sh
proof (unfold_locales, goal_cases)
  case (1 s q)
  obtain s' r where P: "PersistSettlementTransaction sh s q = (s', r)" by fastforce
  show ?case
    using settle_books [OF 1 P] by (simp add: P)
next
  case (2 s q e)
  obtain s' r where P: "PersistSettlementTransaction sh s q = (s', r)" by fastforce
  show ?case using settle_books [OF 2(1) P] 2(2) by (simp add: P)
next
  case (3 s q rid)
  obtain s' r where P: "PersistSettlementTransaction sh s q = (s', r)" by fastforce
  show ?case using settle_books [OF 3(1) P] 3(2) by (simp add: P)
qed


subsection \<open>The steps of a settlement\<close>

lemma settle_changes_eq:
  "settle_changes pm rid winner gain base ps =
     (if \<exists>p \<in> set ps. pm p = None then None
      else Some (map (\<lambda>p. let delta = (if p = winner then gain else - base) in
        \<lparr>ch_player = p, ch_room = rid, ch_delta = delta, ch_before = GetCoin pm p,
         ch_after = GetCoin pm p + delta\<rparr>) ps))"
  by (induction pm rid winner gain base ps rule: settle_changes.induct)
    (auto simp: GetPlayer_def GetCoin_def Let_def split: option.split)

lemma deltas_cancel:
  assumes "distinct ps" "winner \<in> set ps"
  shows "(\<Sum>p \<leftarrow> ps. if p = winner then base * int (length ps - 1) else - base) = 0"
proof -
  have "(\<Sum>p \<leftarrow> ps. if p = winner then g else - base) =
      (if winner \<in> set ps then g + base else 0) - base * int (length ps)" if "distinct ps" for g ps
    using that by (induction ps) (auto simp: algebra_simps)
  from this [OF assms(1), of "base * int (length ps - 1)"] show ?thesis
    using assms by (cases ps) (auto simp: algebra_simps)
qed

lemma GetCoin_force:
  "GetCoin (ForceState m p st) q =
     (if q \<noteq> p then GetCoin m q else if GetCoin m p = 0 then 1000 else GetCoin m p)"
  by (auto simp: ForceState_def GetCoin_def Let_def player_entry_def empty_player_def split: option.split)

lemma release_players_snoc:
  "release_players c (ps @ [q]) =
     (let c' = release_players c ps in
      c'\<lparr>co_sessions := fst (ClearRoomId (co_sessions c') q),
         co_players := ForceState (co_players c') q Lobby\<rparr>)"
  by (simp add: release_players_def Let_def)

lemma release_players_sel:
  "co_match (release_players c ps) = co_match c"
  "co_rooms (release_players c ps) = co_rooms c"
  "sm_conn (co_sessions (release_players c ps)) = sm_conn (co_sessions c)"
  "GetState (co_players (release_players c ps)) p =
     (if p \<in> set ps then Lobby else GetState (co_players c) p)"
  "sm_sessions (co_sessions (release_players c ps)) p =
     (if p \<in> set ps then map_option (\<lambda>s. s\<lparr>ss_room := 0\<rparr>) (sm_sessions (co_sessions c) p)
      else sm_sessions (co_sessions c) p)"
  "GetCoin (co_players (release_players c ps)) p =
     (if p \<in> set ps \<and> GetCoin (co_players c) p = 0 then 1000 else GetCoin (co_players c) p)"
proof (atomize (full), induction ps rule: rev_induct)
  case Nil
  then show ?case by (simp add: release_players_def)
next
  case (snoc q ps)
  then show ?case
    by (auto simp: release_players_snoc Let_def ClearRoomId_def SetRoomId_sel option.map_comp o_def GetCoin_force
        split: if_splits)
qed

text \<open>Changing rooms without moving a player.\<close>

lemma core_rooms_only:
  assumes "core_ok c" "manager_ok m" "mg_player_room m = mg_player_room (co_rooms c)" "0 < mg_next_id m"
  shows "core_ok (c\<lparr>co_rooms := m\<rparr>)"
  using assms core_okD [OF assms(1)]
  by (simp add: core_ok_def waits_def in_room_def GetRoomIdByPlayer_def)

lemma mark_state_frame:
  "mg_player_room (fst (mark_state s m rid)) = mg_player_room m"
  "mg_next_id (fst (mark_state s m rid)) = mg_next_id m"
  by (simp_all add: mark_state_def store_room_def split: option.split)

lemma core_marked:
  "core_ok c \<Longrightarrow> core_ok (c\<lparr>co_rooms := fst (MarkSettling (co_rooms c) rid)\<rparr>)"
  using core_okD(1,3) [of c] mark_state_ok [of "co_rooms c" Settling rid]
  by (intro core_rooms_only) (simp_all add: MarkSettling_def mark_state_frame)

lemma DestroyRoom_sel:
  assumes "mg_rooms m rid = Some r"
  shows "mg_player_room (fst (DestroyRoom m rid)) p = (if p \<in> set (rm_players r) then None else mg_player_room m p)"
    "mg_next_id (fst (DestroyRoom m rid)) = mg_next_id m"
    "mg_rooms (fst (DestroyRoom m rid)) = (mg_rooms m)(rid := None)"
  by (simp_all add: DestroyRoom_def assms foldl_upd)

text \<open>What remains of the room manager when the room is gone.\<close>

definition close_room :: "room_manager \<Rightarrow> room_id \<Rightarrow> room_manager" where
  "close_room m rid = fst (DestroyRoom (fst (MarkFinished (fst (MarkSettling m rid)) rid)) rid)"

lemma close_room_sel:
  assumes "mg_rooms m rid = Some r"
  shows "mg_player_room (close_room m rid) p = (if p \<in> set (rm_players r) then None else mg_player_room m p)"
    "mg_next_id (close_room m rid) = mg_next_id m"
    "mg_rooms (close_room m rid) = (mg_rooms m)(rid := None)"
proof -
  have s: "mg_rooms (fst (MarkSettling m rid)) rid = Some (BumpSnapshotVersion False (r\<lparr>rm_state := Settling\<rparr>))"
    by (simp add: MarkSettling_def mark_state_def store_room_def assms)
  have f: "mg_rooms (fst (MarkFinished (fst (MarkSettling m rid)) rid)) rid =
      Some (BumpSnapshotVersion False (BumpSnapshotVersion False (r\<lparr>rm_state := Settling\<rparr>)\<lparr>rm_state := Finished\<rparr>))"
    by (simp add: MarkFinished_def mark_state_def store_room_def s)
  note D = DestroyRoom_sel [OF f]
  show "mg_player_room (close_room m rid) p = (if p \<in> set (rm_players r) then None else mg_player_room m p)"
    "mg_next_id (close_room m rid) = mg_next_id m"
    unfolding close_room_def D by (simp_all add: MarkSettling_def MarkFinished_def mark_state_frame)
  show "mg_rooms (close_room m rid) = (mg_rooms m)(rid := None)"
    unfolding close_room_def D
    by (simp add: MarkSettling_def MarkFinished_def mark_state_def store_room_def assms fun_eq_iff)
qed

lemma close_room_ok: "manager_ok m \<Longrightarrow> manager_ok (close_room m rid)"
  unfolding close_room_def MarkSettling_def MarkFinished_def by (intro DestroyRoom_ok mark_state_ok) auto

lemma release_ok:
  assumes c: "core_ok c" and r: "mg_rooms (co_rooms c) rid = Some r"
    and pm: "\<And>p. GetState pm p = GetState (co_players c) p"
  shows "core_ok ((release_players (c\<lparr>co_rooms := m0, co_players := pm\<rparr>) (rm_players r))
      \<lparr>co_rooms := close_room (co_rooms c) rid\<rparr>)" (is "core_ok ?c")
proof -
  note D = core_okD [OF c]
  note R = close_room_sel [OF r]
  have seat: "mg_player_room (co_rooms c) p = Some rid \<longleftrightarrow> p \<in> set (rm_players r)" for p
    using D(1) r by (auto simp: manager_ok_def players_ok_def)
  have out: "p \<in> set (rm_players r) \<Longrightarrow> \<not> waits c p" for p
    using seat [of p] D(4) [of p] by (auto simp: in_room_def GetRoomIdByPlayer_def)
  have b: "GetRoomIdByPlayer (co_rooms ?c) p = Some i \<longrightarrow>
      0 < i \<and> (\<exists>s. sm_sessions (co_sessions ?c) p = Some s \<and> ss_room s = i)" for p i
    using D(6) [of p i] by (simp add: GetRoomIdByPlayer_def R release_players_sel)
  have a: "waits ?c p \<longrightarrow> \<not> in_room ?c p \<and> sm_sessions (co_sessions ?c) p \<noteq> None" for p
    using D(4) [of p] D(5) [of p] by (simp add: waits_def in_room_def GetRoomIdByPlayer_def R release_players_sel)
  have d: "GetState (co_players ?c) p = Matching \<longrightarrow> waits ?c p" for p
    using D(7) [of p] by (simp add: waits_def release_players_sel pm)
  have e: "GetState (co_players ?c) p = Lobby \<longrightarrow> \<not> in_room ?c p" for p
    using D(8) [of p] by (simp add: in_room_def GetRoomIdByPlayer_def R release_players_sel pm)
  have f: "sm_conn (co_sessions ?c) cn = Some p \<longrightarrow> sm_sessions (co_sessions ?c) p \<noteq> None" for cn p
    using D(9) [of cn p] by (simp add: release_players_sel)
  have g: "sm_sessions (co_sessions ?c) p \<noteq> None \<longrightarrow> 0 < p" for p
    using D(10) [of p] by (simp add: release_players_sel)
  show ?thesis unfolding core_ok_def
    using close_room_ok [OF D(1)] D(2,3) a b d e f g by (simp add: release_players_sel R(2))
qed


lemma add_coins_after:
  "distinct (map fst cs) \<Longrightarrow> list_all (\<lambda>c. m (fst c) \<noteq> None) cs \<Longrightarrow>
     snd (add_coins m cs out) = out @ map (\<lambda>c. GetCoin m (fst c) + snd c) cs"
proof (induction m cs out rule: add_coins.induct)
  case (2 m p delta cs out)
  let ?m = "m(p \<mapsto> (player_entry m p)\<lparr>pl_coin := pl_coin (player_entry m p) + delta\<rparr>)"
  have known: "list_all (\<lambda>c. ?m (fst c) \<noteq> None) cs" using 2(3) by (auto simp: list_all_iff)
  have same: "map (\<lambda>c. GetCoin ?m (fst c) + snd c) cs = map (\<lambda>c. GetCoin m (fst c) + snd c) cs"
    using 2(2) by (auto simp: GetCoin_def)
  have "pl_coin (player_entry m p) = GetCoin m p" using 2(3) by (auto simp: player_entry_def GetCoin_def)
  then show ?case using 2(1) [OF refl refl _ known] 2(2) same by (simp add: Let_def del: fun_upd_apply)
qed simp

lemma add_coins_state:
  "list_all (\<lambda>c. m (fst c) \<noteq> None) cs \<Longrightarrow> GetState (fst (add_coins m cs out)) p = GetState m p"
proof -
  assume l: "list_all (\<lambda>c. m (fst c) \<noteq> None) cs"
  have "map_option pl_state (fst (add_coins m cs out) p) = map_option pl_state (m p)"
    using arg_cong [OF conjunct2 [OF add_coins_frame [OF l, of out p]], of "map_option pl_state"]
    by (simp add: option.map_comp o_def)
  then show ?thesis by (cases "m p"; cases "fst (add_coins m cs out) p") (simp_all add: GetState_def)
qed

lemma own_change:
  "distinct ps \<Longrightarrow> (\<Sum>x \<leftarrow> map (\<lambda>p. (p, f p)) ps. if fst x = q then snd x else 0) = (if q \<in> set ps then f q else (0::int))"
  by (induction ps) auto

text \<open>The change of a player's coins when \<open>d\<close> is decided in room \<open>r\<close>.\<close>

definition change_of :: "room \<Rightarrow> decision \<Rightarrow> player_id \<Rightarrow> int" where
  "change_of r d p =
     (if p = de_winner d then de_base d * int (length (rm_players r) - 1) else - de_base d)"

definition changes_of :: "player_manager \<Rightarrow> room \<Rightarrow> decision \<Rightarrow> coin_change list" where
  "changes_of pm r d =
     map (\<lambda>p. \<lparr>ch_player = p, ch_room = rm_id r, ch_delta = change_of r d p, ch_before = GetCoin pm p,
                ch_after = GetCoin pm p + change_of r d p\<rparr>) (rm_players r)"

lemma settle_changes_of:
  "settle_changes pm (rm_id r) (de_winner d) (de_base d * int (length (rm_players r) - 1)) (de_base d) (rm_players r) =
     (if \<exists>p \<in> set (rm_players r). pm p = None then None else Some (changes_of pm r d))"
  unfolding settle_changes_eq by (simp add: changes_of_def change_of_def Let_def)

text \<open>The managers after a settlement that was persisted.\<close>

definition settled_core :: "core \<Rightarrow> room \<Rightarrow> decision \<Rightarrow> core" where
  "settled_core c r d =
     (release_players (c\<lparr>co_rooms := fst (MarkSettling (co_rooms c) (de_room d)),
        co_players := fst (add_coins (co_players c) (map (\<lambda>p. (p, change_of r d p)) (rm_players r)) [])\<rparr>)
        (rm_players r))
       \<lparr>co_rooms := close_room (co_rooms c) (de_room d)\<rparr>"

lemma settle_body_cases:
  assumes "core_ok c"
  shows "settle_body sh c st d now res =
    (case mg_rooms (co_rooms c) (de_room d) of
       None \<Rightarrow> (c, st, res\<lparr>se_code := ROOM_NOT_FOUND\<rparr>)
     | Some r \<Rightarrow>
         let c1 = c\<lparr>co_rooms := fst (MarkSettling (co_rooms c) (de_room d))\<rparr>;
             failed = res\<lparr>se_code := SETTLEMENT_FAILED\<rparr> in
         if de_winner d \<notin> set (rm_players r) \<or> (\<exists>p \<in> set (rm_players r). co_players c p = None)
         then (c1, st, failed)
         else case PersistSettlementTransaction sh st (persist_of r d now (changes_of (co_players c) r d)) of
                (st', Inl e) \<Rightarrow> (c1, st', failed)
              | (st', Inr rid) \<Rightarrow>
                  (settled_core c r d, st',
                   res\<lparr>se_record := rid, se_code := OK,
                       se_players := map (\<lambda>p. \<lparr>sp_player = p, sp_change = change_of r d p,
                         sp_after = GetCoin (co_players c) p + change_of r d p\<rparr>) (rm_players r)\<rparr>))"
proof (cases "mg_rooms (co_rooms c) (de_room d)")
  case None
  then show ?thesis by (simp add: settle_body_def GetRoomById_def)
next
  case (Some r)
  have id: "rm_id r = de_room d" and dist: "distinct (rm_players r)"
    using manager_room [OF core_okD(1) [OF assms] Some] by (auto simp: room_ok_def seated_def)
  show ?thesis
  proof (cases "de_winner d \<notin> set (rm_players r) \<or> (\<exists>p \<in> set (rm_players r). co_players c p = None)")
    case True
    then show ?thesis by (auto simp: settle_body_def GetRoomById_def Some Let_def settle_changes_of [unfolded One_nat_def])
  next
    case False
    let ?cs = "map (\<lambda>p. (p, change_of r d p)) (rm_players r)"
    have pairs: "map (\<lambda>x. (ch_player x, ch_delta x)) (changes_of (co_players c) r d) = ?cs"
      by (simp add: changes_of_def)
    have known: "list_all (\<lambda>x. co_players c (fst x) \<noteq> None) ?cs" using False by (auto simp: list_all_iff)
    then have batch: "BatchAddCoin (co_players c) ?cs = Some (add_coins (co_players c) ?cs [])"
      by (auto simp: BatchAddCoin_eq list_all_iff)
    obtain pm afters where A: "add_coins (co_players c) ?cs [] = (pm, afters)" by fastforce
    have after: "afters = map (\<lambda>p. GetCoin (co_players c) p + change_of r d p) (rm_players r)"
      using add_coins_after [OF _ known, of "[]"] dist by (simp add: A o_def)
    have players: "map2 (\<lambda>x after. \<lparr>sp_player = ch_player x, sp_change = ch_delta x, sp_after = after\<rparr>)
        (changes_of (co_players c) r d) afters =
      map (\<lambda>p. \<lparr>sp_player = p, sp_change = change_of r d p,
        sp_after = GetCoin (co_players c) p + change_of r d p\<rparr>) (rm_players r)"
      unfolding changes_of_def after by (simp add: zip_map1 zip_map2 zip_same_conv_map)
    have core: "(release_players (c\<lparr>co_rooms := fst (MarkSettling (co_rooms c) (de_room d)), co_players := pm\<rparr>) (rm_players r))
        \<lparr>co_rooms := fst (DestroyRoom (fst (MarkFinished (fst (MarkSettling (co_rooms c) (de_room d))) (de_room d))) (de_room d))\<rparr>
      = settled_core c r d"
      by (simp add: settled_core_def A close_room_def)
    have sc: "settle_changes (co_players c) (de_room d) (de_winner d)
        (de_base d * int (length (rm_players r) - Suc 0)) (de_base d) (rm_players r) = Some (changes_of (co_players c) r d)"
      using settle_changes_of [of "co_players c" r d] False id by auto
    have nx: "(\<exists>p \<in> set (rm_players r). co_players c p = None) = False" using False by blast
    show ?thesis
      using False batch core players nx
      by (simp add: settle_body_def GetRoomById_def Some Let_def sc pairs A id
          release_players_sel(2) split: prod.split sum.split) auto
  qed
qed

lemma settled_core_ok:
  assumes "core_ok c" "mg_rooms (co_rooms c) (de_room d) = Some r"
    "\<forall>p \<in> set (rm_players r). co_players c p \<noteq> None"
  shows "core_ok (settled_core c r d)"
  unfolding settled_core_def
  by (rule release_ok [OF assms(1,2)]) (rule add_coins_state, use assms(3) in \<open>auto simp: list_all_iff\<close>)

lemma settled_core_sel:
  assumes "core_ok c" "mg_rooms (co_rooms c) (de_room d) = Some r"
    "\<forall>p \<in> set (rm_players r). co_players c p \<noteq> None"
  shows "GetState (co_players (settled_core c r d)) p =
      (if p \<in> set (rm_players r) then Lobby else GetState (co_players c) p)"
    "GetCoin (co_players (settled_core c r d)) p =
      (if p \<in> set (rm_players r)
       then let a = GetCoin (co_players c) p + change_of r d p in if a = 0 then 1000 else a
       else GetCoin (co_players c) p)"
    "mg_rooms (co_rooms (settled_core c r d)) = (mg_rooms (co_rooms c))(de_room d := None)"
    "GetRoomIdByPlayer (co_rooms (settled_core c r d)) p =
      (if p \<in> set (rm_players r) then None else GetRoomIdByPlayer (co_rooms c) p)"
    "sm_sessions (co_sessions (settled_core c r d)) p =
      (if p \<in> set (rm_players r) then map_option (\<lambda>s. s\<lparr>ss_room := 0\<rparr>) (sm_sessions (co_sessions c) p)
       else sm_sessions (co_sessions c) p)"
proof -
  let ?cs = "map (\<lambda>p. (p, change_of r d p)) (rm_players r)"
  have dist: "distinct (rm_players r)"
    using manager_room [OF core_okD(1) [OF assms(1)] assms(2)] by (auto simp: room_ok_def seated_def)
  have known: "list_all (\<lambda>x. co_players c (fst x) \<noteq> None) ?cs" using assms(3) by (auto simp: list_all_iff)
  have coin: "GetCoin (fst (add_coins (co_players c) ?cs [])) p =
      GetCoin (co_players c) p + (if p \<in> set (rm_players r) then change_of r d p else 0)"
    using add_coins_coin [OF known, of "[]" p] unfolding own_change [OF dist] by simp
  show "GetState (co_players (settled_core c r d)) p =
      (if p \<in> set (rm_players r) then Lobby else GetState (co_players c) p)"
    by (simp add: settled_core_def release_players_sel add_coins_state [OF known])
  show "GetCoin (co_players (settled_core c r d)) p =
      (if p \<in> set (rm_players r)
       then let a = GetCoin (co_players c) p + change_of r d p in if a = 0 then 1000 else a
       else GetCoin (co_players c) p)"
    by (simp add: settled_core_def release_players_sel coin Let_def)
  show "mg_rooms (co_rooms (settled_core c r d)) = (mg_rooms (co_rooms c))(de_room d := None)"
    "GetRoomIdByPlayer (co_rooms (settled_core c r d)) p =
      (if p \<in> set (rm_players r) then None else GetRoomIdByPlayer (co_rooms c) p)"
    by (simp_all add: settled_core_def close_room_sel [OF assms(2)] GetRoomIdByPlayer_def)
  show "sm_sessions (co_sessions (settled_core c r d)) p =
      (if p \<in> set (rm_players r) then map_option (\<lambda>s. s\<lparr>ss_room := 0\<rparr>) (sm_sessions (co_sessions c) p)
       else sm_sessions (co_sessions c) p)"
    by (simp add: settled_core_def release_players_sel)
qed


lemma settle_ok_cases:
  assumes "core_ok (ts_core s)" "SettleByServerResult sh s d now = (s', res)" "se_code res = OK"
  shows "\<exists>r rid. mg_rooms (co_rooms (ts_core s)) (de_room d) = Some r \<and> de_winner d \<in> set (rm_players r) \<and>
    (\<forall>p \<in> set (rm_players r). co_players (ts_core s) p \<noteq> None) \<and>
    PersistSettlementTransaction sh (ts_store s) (persist_of r d now (changes_of (co_players (ts_core s)) r d)) =
      (ts_store s', Inr rid) \<and>
    ts_core s' = settled_core (ts_core s) r d \<and> se_record res = rid \<and>
    se_players res = map (\<lambda>p. \<lparr>sp_player = p, sp_change = change_of r d p,
        sp_after = GetCoin (co_players (ts_core s)) p + change_of r d p\<rparr>) (rm_players r)"
  using assms(2,3)
  by (auto simp: SettleByServerResult_def settle_body_cases [OF assms(1)] TryBeginSettlement_def Let_def
      split: if_splits option.splits prod.splits sum.splits bool.splits)

lemma settle_failed_cases:
  assumes "core_ok (ts_core s)" "SettleByServerResult sh s d now = (s', res)" "se_code res \<noteq> OK"
  shows "(ts_core s' = ts_core s \<or>
      ts_core s' = (ts_core s)\<lparr>co_rooms := fst (MarkSettling (co_rooms (ts_core s)) (de_room d))\<rparr>) \<and>
    (ts_store s' = ts_store s \<or> (\<exists>q e. PersistSettlementTransaction sh (ts_store s) q = (ts_store s', Inl e)))"
  using assms(2,3)
  by (auto simp: SettleByServerResult_def settle_body_cases [OF assms(1)] TryBeginSettlement_def Let_def
      split: if_splits option.splits prod.splits sum.splits bool.splits)

subsection \<open>Properties\<close>



text \<open>Players 7, 8 and 9 have been seated by \<open>HandleMatch\<close>; the game of their room is over.\<close>

definition demo_settle :: "unit settle_state" where
  "demo_settle =
     \<lparr>ts_core = fst (HandleMatch demo_core 3 ''mode=3'' 300), ts_store = demo_storage, ts_settling = {}\<rparr>"

definition demo_decision :: decision where
  "demo_decision = \<lparr>de_room = 1, de_winner = 9, de_base = 10\<rparr>"

lemma demo_settle_facts:
  "core_ok (ts_core demo_settle)"
  "mg_rooms (co_rooms (ts_core demo_settle)) 1 = Some (new_room 1 3 [7, 8, 9])"
  "p \<in> {7, 8, 9} \<Longrightarrow> co_players (ts_core demo_settle) p \<noteq> None"
proof -
  obtain c r where H: "HandleMatch demo_core 3 ''mode=3'' 300 = (c, r)" by fastforce
  have n: "mg_next_id (co_rooms demo_core) = 1" by (simp add: demo_core_def empty_manager_def)
  note A = HandleMatch_accepted [OF demo_core_ok demo_lobby_facts(1) demo_mode demo_lobby_facts(2,3) refl H]
  have A': "core_ok c" "mg_rooms (co_rooms c) 1 = Some (new_room 1 3 [7, 8, 9])"
    "\<forall>q \<in> set [7, 8, 9]. GetState (co_players c) q = InRoom"
    using A by (auto simp: demo_lobby_facts(4) n)
  show "core_ok (ts_core demo_settle)"
    "mg_rooms (co_rooms (ts_core demo_settle)) 1 = Some (new_room 1 3 [7, 8, 9])"
    using A'(1,2) by (simp_all add: demo_settle_def H)
  show "p \<in> {7, 8, 9} \<Longrightarrow> co_players (ts_core demo_settle) p \<noteq> None"
    using A'(3) by (auto simp: demo_settle_def H GetState_def split: option.splits)
qed

lemma demo_books: "books_ok demo_storage"
  by (simp add: books_ok_def storage_ok_def coins_ok_def demo_storage_def)

lemma demo_settles: "se_code (snd (SettleByServerResult no_shell demo_settle demo_decision 7)) = OK"
proof -
  let ?r = "new_room 1 3 [7, 8, 9]"
  let ?q = "persist_of ?r demo_decision 7 (changes_of (co_players (ts_core demo_settle)) ?r demo_decision)"
  have "\<exists>s' rid. PersistSettlementTransaction no_shell demo_storage ?q = (s', Inr rid)"
    using demo_books
    by (intro persist_accepts)
      (simp_all add: books_ok_def persist_of_def changes_of_def demo_decision_def demo_storage_def)
  then obtain s' rid where P: "PersistSettlementTransaction no_shell demo_storage ?q = (s', Inr rid)" by blast
  have st: "ts_store demo_settle = demo_storage" "ts_settling demo_settle = {}" by (simp_all add: demo_settle_def)
  have "co_players (ts_core demo_settle) 7 \<noteq> None" "co_players (ts_core demo_settle) 8 \<noteq> None"
    "co_players (ts_core demo_settle) 9 \<noteq> None" using demo_settle_facts(3) by simp_all
  then show ?thesis
    using P demo_settle_facts(2)
    by (simp add: SettleByServerResult_def settle_body_cases [OF demo_settle_facts(1)] TryBeginSettlement_def st
        Let_def demo_decision_def)
qed







end
