(* ===== verification/DdzLogin.thy ===== *)
theory DdzLogin
  imports DdzAuth DdzRedis DdzSettlement
begin

text \<open>
  Login and reconnection: \<^verbatim>\<open>service/login/login_service.cpp\<close> and
  \<^verbatim>\<open>service/reconnect/reconnect_service.cpp\<close>, over the managers of \<open>core\<close>, the token service and
  the optional Redis store (a null pointer is \<open>None\<close>). Both services call the store only when it
  is enabled, so the clock that its memory tables read is never consulted here.
\<close>

record 'w front =
  fo_core :: core
  fo_auth :: auth
  fo_redis :: "redis_store option"
  fo_world :: 'w

definition redis_ready :: "'w front \<Rightarrow> bool" where
  "redis_ready f = (case fo_redis f of None \<Rightarrow> False | Some r \<Rightarrow> rd_enabled r)"

text \<open>One call of the store through the pointer; the result is whether it returned true.\<close>

definition with_redis ::
    "(redis_store \<Rightarrow> 'w \<Rightarrow> 'w \<times> redis_store \<times> string option) \<Rightarrow> 'w front \<Rightarrow> 'w front \<times> bool" where
  "with_redis op f =
     (case fo_redis f of
        None \<Rightarrow> (f, False)
      | Some r \<Rightarrow>
          (case op r (fo_world f) of
             (w, r', err) \<Rightarrow> (f\<lparr>fo_redis := Some r', fo_world := w\<rparr>, err = None)))"

text \<open>\<^verbatim>\<open>if (!SetOnline(...) || !UpsertSession(...))\<close>: the second call is made only after the
  first has succeeded.\<close>

definition publish_presence :: "'w shell \<Rightarrow> 'w front \<Rightarrow> player_id \<Rightarrow> room_id \<Rightarrow> millis \<Rightarrow> 'w front \<times> bool" where
  "publish_presence sh f p rid now =
     (let ttl = au_ttl (fo_auth f) * 1000 in
      (case with_redis (\<lambda>r w. SetOnline sh now r w p True ttl) f of
         (f1, False) \<Rightarrow> (f1, False)
       | (f1, True) \<Rightarrow> with_redis (\<lambda>r w. UpsertSession sh now r w p rid ttl) f1))"

definition publish_login ::
    "'w shell \<Rightarrow> 'w front \<Rightarrow> player_id \<Rightarrow> string \<Rightarrow> room_id \<Rightarrow> millis \<Rightarrow> 'w front \<times> bool" where
  "publish_login sh f p token rid now =
     (case with_redis (\<lambda>r w. StoreToken sh now r w p token (au_ttl (fo_auth f) * 1000)) f of
        (f1, False) \<Rightarrow> (f1, False)
      | (f1, True) \<Rightarrow> publish_presence sh f1 p rid now)"

definition token_known :: "'w shell \<Rightarrow> 'w front \<Rightarrow> player_id \<Rightarrow> string \<Rightarrow> millis \<Rightarrow> 'w front \<times> bool" where
  "token_known sh f p token now =
     (case fo_redis f of
        None \<Rightarrow> (f, True)
      | Some r \<Rightarrow>
          if \<not> rd_enabled r then (f, True)
          else case ValidateToken sh now r (fo_world f) p token of (w, ok) \<Rightarrow> (f\<lparr>fo_world := w\<rparr>, ok))"

subsection \<open>Login\<close>

record login_result =
  lr_code :: error_code
  lr_player :: player_id
  lr_nickname :: string
  lr_coin :: int
  lr_room :: room_id
  lr_reconnect :: bool
  lr_token :: string
  lr_expire :: millis
  lr_kick :: "conn_id option"

definition login_result0 :: login_result where
  "login_result0 = \<lparr>lr_code = UNKNOWN_ERROR, lr_player = 0, lr_nickname = [], lr_coin = 0, lr_room = 0,
     lr_reconnect = False, lr_token = [], lr_expire = 0, lr_kick = None\<rparr>"

definition ParseLoginTicket :: "string \<Rightarrow> string option" where
  "ParseLoginTicket body =
     (case ParseKvBody body ''login_ticket'' of
        None \<Rightarrow> None
      | Some ticket \<Rightarrow> if ticket = [] then None else Some ticket)"

definition login_nickname :: "string \<Rightarrow> player_id \<Rightarrow> string" where
  "login_nickname body p =
     (case ParseKvBody body ''nickname'' of
        Some nick \<Rightarrow> if nick \<noteq> [] then nick else default_nickname p
      | None \<Rightarrow> default_nickname p)"

text \<open>The managers after the ticket was accepted.\<close>

definition login_core :: "core \<Rightarrow> player_id \<Rightarrow> conn_id \<Rightarrow> string \<Rightarrow> millis \<Rightarrow> core \<times> conn_id option" where
  "login_core c p conn nickname now =
     (let old_room = (case GetSessionByPlayer (co_sessions c) p of Some s \<Rightarrow> ss_room s | None \<Rightarrow> 0);
          existing = GetPlayer (co_players c) p;
          coin = (case existing of Some d \<Rightarrow> pl_coin d | None \<Rightarrow> 1000);
          pm1 = UpsertPlayer (co_players c) p nickname (if existing \<noteq> None then 0 else coin);
          pm2 = ForceState pm1 p (if old_room > 0 then InRoom else Lobby)
      in case BindLogin (co_sessions c) p conn now of
           (sm, old_conn) \<Rightarrow> (c\<lparr>co_players := pm2, co_sessions := sm\<rparr>, old_conn))"

definition HandleLogin ::
    "'w shell \<Rightarrow> 'w front \<Rightarrow> conn_id \<Rightarrow> string \<Rightarrow> millis \<Rightarrow> 'w front \<times> login_result" where
  "HandleLogin sh f conn body now =
     (case ParseLoginTicket body of
        None \<Rightarrow> (f, login_result0\<lparr>lr_code := INVALID_PACKET\<rparr>)
      | Some ticket \<Rightarrow>
          let v = Verify (fo_auth f) ticket now kPurposeLogin in
          if tv_expired v then (f, login_result0\<lparr>lr_code := TOKEN_EXPIRED\<rparr>)
          else if \<not> tv_ok v then (f, login_result0\<lparr>lr_code := INVALID_TOKEN\<rparr>)
          else
            let p = tv_player v;
                nickname = login_nickname body p;
                old_room = (case GetSessionByPlayer (co_sessions (fo_core f)) p of
                              Some s \<Rightarrow> ss_room s | None \<Rightarrow> 0);
                coin = (case GetPlayer (co_players (fo_core f)) p of Some d \<Rightarrow> pl_coin d | None \<Rightarrow> 1000)
            in (case login_core (fo_core f) p conn nickname now of
                  (c, old_conn) \<Rightarrow>
                    (case IssueSessionToken (fo_auth f) p now of
                       (a, t) \<Rightarrow>
                         let f1 = f\<lparr>fo_core := c, fo_auth := a\<rparr> in
                         if ti_token t = [] then (f1, login_result0\<lparr>lr_code := UNKNOWN_ERROR\<rparr>)
                         else
                           let r = \<lparr>lr_code = OK, lr_player = p, lr_nickname = nickname, lr_coin = coin,
                                    lr_room = old_room, lr_reconnect = (old_room > 0),
                                    lr_token = ti_token t, lr_expire = ti_expire t, lr_kick = old_conn\<rparr>
                           in if redis_ready f1 then
                                (case publish_login sh f1 p (ti_token t) old_room now of
                                   (f2, True) \<Rightarrow> (f2, r)
                                 | (f2, False) \<Rightarrow>
                                     (f2, r\<lparr>lr_code := UNKNOWN_ERROR, lr_token := [], lr_expire := 0\<rparr>))
                              else (f1, r))))"

subsection \<open>Reconnection\<close>

record reconnect_result =
  rr_code :: error_code
  rr_player :: player_id
  rr_room :: room_id
  rr_reason :: string
  rr_kick :: "conn_id option"
  rr_snapshot :: "room_snapshot option"

definition reconnect_result0 :: reconnect_result where
  "reconnect_result0 = \<lparr>rr_code = UNKNOWN_ERROR, rr_player = 0, rr_room = 0,
     rr_reason = ''unknown_error'', rr_kick = None, rr_snapshot = None\<rparr>"

record reconnect_request =
  rq_player :: player_id
  rq_token :: string
  rq_room :: room_id
  rq_version :: int

definition ParseReconnectRequest :: "string \<Rightarrow> reconnect_request option" where
  "ParseReconnectRequest body =
     (let kv = ParseKvBody body in
      case (kv ''player_id'', kv ''token'', kv ''room_id'', kv ''last_snapshot_version'') of
        (Some p, Some tok, Some rid, Some ver) \<Rightarrow>
          if tok = [] then None
          else (case (stoll_all p, stoll_all rid, stoll_all ver) of
                  (Some p', Some rid', Some ver') \<Rightarrow>
                    Some \<lparr>rq_player = p', rq_token = tok, rq_room = rid', rq_version = ver'\<rparr>
                | _ \<Rightarrow> None)
      | _ \<Rightarrow> None)"

text \<open>The checks that both requests share: token, player, store, session and room. \<open>Inl\<close> is the
  code and the reason of a refusal.\<close>

definition check_token ::
    "'w shell \<Rightarrow> 'w front \<Rightarrow> player_id \<Rightarrow> string \<Rightarrow> room_id \<Rightarrow> millis
     \<Rightarrow> 'w front \<times> (error_code \<times> string + session)" where
  "check_token sh f req_player tok req_room now =
     (let v = Verify (fo_auth f) tok now kPurposeSession in
      if tv_expired v then (f, Inl (TOKEN_EXPIRED, ''token_expired''))
      else if \<not> tv_ok v then (f, Inl (INVALID_TOKEN, ''invalid_token''))
      else if tv_player v \<noteq> req_player then (f, Inl (INVALID_TOKEN, ''player_id_mismatch''))
      else case token_known sh f (tv_player v) tok now of
             (f1, False) \<Rightarrow> (f1, Inl (INVALID_TOKEN, ''token_not_found''))
           | (f1, True) \<Rightarrow>
               (case GetSessionByPlayer (co_sessions (fo_core f1)) (tv_player v) of
                  None \<Rightarrow> (f1, Inl (NOT_LOGIN, ''not_login''))
                | Some s \<Rightarrow>
                    if ss_room s \<noteq> req_room then (f1, Inl (RECONNECT_ROOM_MISMATCH, ''room_mismatch''))
                    else (f1, Inr s)))"

definition HandleReconnect ::
    "'w shell \<Rightarrow> 'w front \<Rightarrow> conn_id \<Rightarrow> string \<Rightarrow> millis \<Rightarrow> 'w front \<times> reconnect_result" where
  "HandleReconnect sh f conn body now =
     (case ParseReconnectRequest body of
        None \<Rightarrow> (f, reconnect_result0\<lparr>rr_code := INVALID_TOKEN, rr_reason := ''invalid_packet''\<rparr>)
      | Some q \<Rightarrow>
          (case check_token sh f (rq_player q) (rq_token q) (rq_room q) now of
             (f1, Inl (code, reason)) \<Rightarrow> (f1, reconnect_result0\<lparr>rr_code := code, rr_reason := reason\<rparr>)
           | (f1, Inr s) \<Rightarrow>
               (case RebindForReconnect (co_sessions (fo_core f1)) (rq_player q) conn now of
                  (sm, kick) \<Rightarrow>
                    let c1 = (fo_core f1)\<lparr>co_sessions := sm\<rparr>;
                        r0 = reconnect_result0\<lparr>rr_player := rq_player q, rr_room := ss_room s, rr_kick := kick\<rparr>;
                        (c2, r1) =
                          (if ss_room s > 0 then
                             (let snap = BuildSnapshotByRoomId (co_rooms c1) (ss_room s);
                                  stale = (case snap of Some x \<Rightarrow> sn_version x \<noteq> rq_version q | None \<Rightarrow> False)
                              in (c1\<lparr>co_players := ForceState (co_players c1) (rq_player q) InRoom\<rparr>,
                                  r0\<lparr>rr_snapshot := snap,
                                     rr_code := (if stale then SNAPSHOT_VERSION_CONFLICT else OK),
                                     rr_reason := (if stale then ''snapshot_version_conflict'' else ''ok'')\<rparr>))
                           else
                             (c1\<lparr>co_players := ForceState (co_players c1) (rq_player q) Lobby\<rparr>,
                              r0\<lparr>rr_code := (if rq_version q = 0 then OK else SNAPSHOT_VERSION_CONFLICT),
                                 rr_reason := (if rq_version q = 0 then ''ok'' else ''snapshot_version_conflict'')\<rparr>));
                        f2 = f1\<lparr>fo_core := c2\<rparr>
                    in if redis_ready f2 then
                         (case publish_presence sh f2 (rq_player q) (rr_room r1) now of
                            (f3, True) \<Rightarrow> (f3, r1)
                          | (f3, False) \<Rightarrow>
                              (f3, r1\<lparr>rr_code := UNKNOWN_ERROR, rr_reason := ''redis_update_failed''\<rparr>))
                       else (f2, r1))))"

record refresh_result =
  rf_code :: error_code
  rf_player :: player_id
  rf_room :: room_id
  rf_reason :: string
  rf_token :: string
  rf_expire :: millis

definition refresh_result0 :: refresh_result where
  "refresh_result0 = \<lparr>rf_code = UNKNOWN_ERROR, rf_player = 0, rf_room = 0,
     rf_reason = ''unknown_error'', rf_token = [], rf_expire = 0\<rparr>"

definition ParseSessionRefreshRequest :: "string \<Rightarrow> (player_id \<times> string \<times> room_id) option" where
  "ParseSessionRefreshRequest body =
     (let kv = ParseKvBody body in
      case (kv ''player_id'', kv ''token'', kv ''room_id'') of
        (Some p, Some tok, Some rid) \<Rightarrow>
          if tok = [] then None
          else (case (stoll_all p, stoll_all rid) of
                  (Some p', Some rid') \<Rightarrow> Some (p', tok, rid')
                | _ \<Rightarrow> None)
      | _ \<Rightarrow> None)"

definition HandleSessionRefresh ::
    "'w shell \<Rightarrow> 'w front \<Rightarrow> string \<Rightarrow> millis \<Rightarrow> 'w front \<times> refresh_result" where
  "HandleSessionRefresh sh f body now =
     (case ParseSessionRefreshRequest body of
        None \<Rightarrow> (f, refresh_result0\<lparr>rf_code := INVALID_TOKEN, rf_reason := ''invalid_packet''\<rparr>)
      | Some (req_player, tok, req_room) \<Rightarrow>
          (case check_token sh f req_player tok req_room now of
             (f1, Inl (code, reason)) \<Rightarrow> (f1, refresh_result0\<lparr>rf_code := code, rf_reason := reason\<rparr>)
           | (f1, Inr s) \<Rightarrow>
               (case IssueSessionToken (fo_auth f1) req_player now of
                  (a, t) \<Rightarrow>
                    let f2 = f1\<lparr>fo_auth := a\<rparr> in
                    if ti_token t = []
                    then (f2, refresh_result0\<lparr>rf_code := UNKNOWN_ERROR, rf_reason := ''issue_token_failed''\<rparr>)
                    else
                      let r = \<lparr>rf_code = OK, rf_player = req_player, rf_room = ss_room s, rf_reason = ''ok'',
                               rf_token = ti_token t, rf_expire = ti_expire t\<rparr>
                      in if redis_ready f2 then
                           (case publish_login sh f2 req_player (ti_token t) (ss_room s) now of
                              (f3, True) \<Rightarrow> (f3, r)
                            | (f3, False) \<Rightarrow>
                                (f3, r\<lparr>rf_code := UNKNOWN_ERROR, rf_reason := ''redis_update_failed'',
                                       rf_token := [], rf_expire := 0\<rparr>))
                         else (f2, r))))"

definition ParseTokenFromBody :: "string \<Rightarrow> string option" where
  "ParseTokenFromBody body =
     (case ParseKvBody body ''token'' of
        None \<Rightarrow> None
      | Some tok \<Rightarrow> if tok = [] then None else Some tok)"

subsection \<open>What the handlers do to the managers\<close>

lemma with_redis_frame:
  "fo_core (fst (with_redis op f)) = fo_core f" "fo_auth (fst (with_redis op f)) = fo_auth f"
  by (simp_all add: with_redis_def split: option.split prod.split)

lemma publish_frame:
  "fo_core (fst (publish_presence sh f p rid now)) = fo_core f"
  "fo_auth (fst (publish_presence sh f p rid now)) = fo_auth f"
  "fo_core (fst (publish_login sh f p tok rid now)) = fo_core f"
  "fo_auth (fst (publish_login sh f p tok rid now)) = fo_auth f"
proof (atomize (full), goal_cases)
  case 1
  have a: "fo_core (fst (publish_presence sh g p rid now)) = fo_core g \<and>
      fo_auth (fst (publish_presence sh g p rid now)) = fo_auth g" for g
    by (simp add: with_redis_frame publish_presence_def Let_def split_beta split: bool.split)
  then show ?case
    by (simp add: with_redis_frame publish_login_def split_beta split: bool.split)
qed

lemma token_known_frame:
  "fo_core (fst (token_known sh f p tok now)) = fo_core f" "fo_auth (fst (token_known sh f p tok now)) = fo_auth f"
  by (simp_all add: token_known_def split: option.split prod.split)

text \<open>The room that a player's session names.\<close>

definition session_room :: "core \<Rightarrow> player_id \<Rightarrow> room_id" where
  "session_room c p = (case GetSessionByPlayer (co_sessions c) p of Some s \<Rightarrow> ss_room s | None \<Rightarrow> 0)"

lemma core_players_sessions:
  assumes "core_ok c"
    "\<And>q. GetState pm q = Matching \<Longrightarrow> waits c q" "\<And>q. GetState pm q = Lobby \<Longrightarrow> \<not> in_room c q"
    "\<And>q s. sm_sessions (co_sessions c) q = Some s \<Longrightarrow> \<exists>s'. sm_sessions sm q = Some s' \<and> ss_room s' = ss_room s"
    "\<And>d q. sm_conn sm d = Some q \<Longrightarrow> sm_sessions sm q \<noteq> None"
    "\<And>q. sm_sessions sm q \<noteq> None \<Longrightarrow> 0 < q"
  shows "core_ok (c\<lparr>co_players := pm, co_sessions := sm\<rparr>)"
proof -
  note D = core_okD [OF assms(1)]
  have "sm_sessions sm q \<noteq> None" if "waits c q" for q using D(5) [OF that] assms(4) [of q] by fastforce
  moreover have "\<exists>s. sm_sessions sm q = Some s \<and> ss_room s = rid" if "mg_player_room (co_rooms c) q = Some rid" for q rid
    using D(6) [OF that] assms(4) by blast
  ultimately show ?thesis
    using assms(2,3,5,6) D(1-4,6) by (auto simp: core_ok_def waits_def in_room_def GetRoomIdByPlayer_def)
qed

lemma GetState_Upsert: "GetState (UpsertPlayer m p nick coin) q = (if q = p then pl_state (player_entry m p) else GetState m q)"
  by (simp add: UpsertPlayer_def GetState_def Let_def)

lemma login_core_sel:
  "co_match (fst (login_core c p conn nick now)) = co_match c"
  "co_rooms (fst (login_core c p conn nick now)) = co_rooms c"
  "co_sessions (fst (login_core c p conn nick now)) = fst (BindLogin (co_sessions c) p conn now)"
  "snd (login_core c p conn nick now) = GetConnectionIdByPlayer (co_sessions c) p"
  "GetState (co_players (fst (login_core c p conn nick now))) q =
     (if q = p then if 0 < session_room c p then InRoom else Lobby else GetState (co_players c) q)"
  by (simp_all add: login_core_def Let_def split_beta GetState_Upsert session_room_def BindLogin_def
      GetConnectionIdByPlayer_def split: option.split)

lemma BindLogin_session:
  "sm_sessions (fst (BindLogin m p conn now)) q =
     (if q = p
      then Some ((case sm_sessions m p of Some s \<Rightarrow> s | None \<Rightarrow> empty_session)\<lparr>ss_player := p, ss_conn := conn,
             ss_online := True, ss_login_time := now, ss_last_heartbeat := now, ss_offline_at := 0\<rparr>)
      else sm_sessions m q)"
  "sm_conn (fst (BindLogin m p conn now)) d = Some q \<Longrightarrow> q = p \<or> sm_conn m d = Some q"
  by (auto simp: BindLogin_def Let_def split: if_splits option.splits)

lemma login_core_ok:
  assumes c: "core_ok c" and p: "0 < p"
  shows "core_ok (fst (login_core c p conn nick now))"
proof -
  note D = core_okD [OF c]
  let ?L = "fst (login_core c p conn nick now)"
  have "core_ok (c\<lparr>co_players := co_players ?L, co_sessions := co_sessions ?L\<rparr>)"
  proof (rule core_players_sessions [OF c])
    show "GetState (co_players ?L) q = Matching \<Longrightarrow> waits c q" for q
      using D(7) [of q] by (simp add: login_core_sel split: if_splits)
    show "\<not> in_room c q" if st: "GetState (co_players ?L) q = Lobby" for q
    proof (cases "q = p")
      case True
      then have "\<not> 0 < session_room c p" using st by (simp add: login_core_sel split: if_splits)
      then show ?thesis using D(6) [of p] True
        by (cases "mg_player_room (co_rooms c) p")
          (auto simp: in_room_def GetRoomIdByPlayer_def session_room_def GetSessionByPlayer_def)
    next
      case False
      then show ?thesis using st D(8) [of q] by (simp add: login_core_sel)
    qed
    show "sm_sessions (co_sessions c) q = Some s \<Longrightarrow> \<exists>s'. sm_sessions (co_sessions ?L) q = Some s' \<and> ss_room s' = ss_room s"
      for q s by (auto simp: login_core_sel BindLogin_session)
    show "sm_conn (co_sessions ?L) d = Some q \<Longrightarrow> sm_sessions (co_sessions ?L) q \<noteq> None" for d q
      unfolding login_core_sel using BindLogin_session(2) [of "co_sessions c" p conn now d q] D(9) [of d q]
      by (auto simp: BindLogin_session(1))
    show "sm_sessions (co_sessions ?L) q \<noteq> None \<Longrightarrow> 0 < q" for q
      using D(10) [of q] p by (simp add: login_core_sel BindLogin_session(1) split: if_splits)
  qed
  moreover have "c\<lparr>co_players := co_players ?L, co_sessions := co_sessions ?L\<rparr> = ?L"
    by (cases ?L, cases c) (use login_core_sel in \<open>auto simp: login_core_def Let_def split_beta\<close>)
  ultimately show ?thesis by simp
qed

lemma Verify_player: "tv_ok (Verify a tok now required) \<Longrightarrow> required \<noteq> [] \<Longrightarrow> 0 < tv_player (Verify a tok now required)"
  using Verify_ok [of a tok now required] genuine_positive by blast

lemma purposes [simp]: "kPurposeLogin \<noteq> []" "kPurposeSession \<noteq> []" "IsValidPurpose kPurposeSession"
  by (simp_all add: kPurposeLogin_def kPurposeSession_def IsValidPurpose_def purpose_char_def)

text \<open>A request is refused before it touches anything, or its ticket is good and the managers make
  the login step.\<close>

lemma HandleLogin_cases:
  obtains (refused) r where "HandleLogin sh f conn body now = (f, r)"
      "lr_code r = (case ParseLoginTicket body of None \<Rightarrow> INVALID_PACKET
         | Some ticket \<Rightarrow> if tv_expired (Verify (fo_auth f) ticket now kPurposeLogin) then TOKEN_EXPIRED
                          else INVALID_TOKEN)" "lr_token r = []" "lr_kick r = None"
      "\<And>ticket. ParseLoginTicket body = Some ticket \<Longrightarrow> tv_expired (Verify (fo_auth f) ticket now kPurposeLogin) \<or>
         \<not> tv_ok (Verify (fo_auth f) ticket now kPurposeLogin)"
  | (accepted) f' r ticket p a t where "HandleLogin sh f conn body now = (f', r)"
      "ParseLoginTicket body = Some ticket" "tv_ok (Verify (fo_auth f) ticket now kPurposeLogin)"
      "p = tv_player (Verify (fo_auth f) ticket now kPurposeLogin)"
      "IssueSessionToken (fo_auth f) p now = (a, t)" "fo_auth f' = a"
      "fo_core f' = fst (login_core (fo_core f) p conn (login_nickname body p) now)"
      "lr_code r = OK \<or> lr_code r = UNKNOWN_ERROR \<and> lr_token r = []"
      "lr_code r = OK \<Longrightarrow> lr_player r = p \<and> lr_nickname r = login_nickname body p \<and> lr_token r = ti_token t \<and>
         lr_expire r = ti_expire t \<and> lr_room r = session_room (fo_core f) p \<and>
         lr_reconnect r = (0 < session_room (fo_core f) p) \<and>
         lr_coin r = (case GetPlayer (co_players (fo_core f)) p of Some d \<Rightarrow> pl_coin d | None \<Rightarrow> 1000) \<and>
         lr_kick r = GetConnectionIdByPlayer (co_sessions (fo_core f)) p"
proof (cases "ParseLoginTicket body")
  case None
  then show ?thesis by (intro refused) (auto simp: HandleLogin_def login_result0_def)
next
  case (Some ticket)
  let ?v = "Verify (fo_auth f) ticket now kPurposeLogin"
  show ?thesis
  proof (cases "tv_expired ?v \<or> \<not> tv_ok ?v")
    case True
    then show ?thesis
      by (cases "tv_expired ?v")
        ((intro refused), auto simp: HandleLogin_def login_result0_def Let_def Some)+
  next
    case False
    let ?p = "tv_player ?v"
    obtain f' r where H: "HandleLogin sh f conn body now = (f', r)" by fastforce
    obtain c old where L: "login_core (fo_core f) ?p conn (login_nickname body ?p) now = (c, old)" by fastforce
    obtain a t where I: "IssueSessionToken (fo_auth f) ?p now = (a, t)" by fastforce
    have old: "old = GetConnectionIdByPlayer (co_sessions (fo_core f)) ?p"
      using login_core_sel(4) [of "fo_core f" ?p conn "login_nickname body ?p" now] L by simp
    let ?f1 = "f\<lparr>fo_core := c, fo_auth := a\<rparr>"
    obtain f2 ok where P: "publish_login sh ?f1 ?p (ti_token t) (session_room (fo_core f) ?p) now = (f2, ok)" by fastforce
    have fr: "fo_core f2 = c" "fo_auth f2 = a"
      using publish_frame(3,4) [of sh ?f1 ?p "ti_token t" "session_room (fo_core f) ?p" now] P by simp_all
    note E = H [unfolded HandleLogin_def, simplified Some option.case Let_def L I prod.case session_room_def [symmetric] P]
    show ?thesis
      by (rule accepted [OF H Some _ refl I])
        (use E False fr L old in \<open>auto simp: login_result0_def split: if_splits bool.splits\<close>)
  qed
qed

lemma HandleLogin_ok:
  assumes "core_ok (fo_core f)"
  shows "core_ok (fo_core (fst (HandleLogin sh f conn body now)))"
proof (cases rule: HandleLogin_cases [where sh = sh and f = f and conn = conn and body = body and now = now])
  case (refused r)
  then show ?thesis using assms by simp
next
  case (accepted f' r ticket p a t)
  then show ?thesis using login_core_ok [OF assms Verify_player] by simp
qed

definition reconnect_core :: "core \<Rightarrow> player_id \<Rightarrow> conn_id \<Rightarrow> millis \<Rightarrow> core" where
  "reconnect_core c p conn now =
     c\<lparr>co_players := ForceState (co_players c) p (if 0 < session_room c p then InRoom else Lobby),
       co_sessions := fst (RebindForReconnect (co_sessions c) p conn now)\<rparr>"

lemma Rebind_session:
  "sm_sessions (fst (RebindForReconnect m p conn now)) q =
     (if q = p then map_option (\<lambda>s. s\<lparr>ss_conn := conn, ss_online := True, ss_last_heartbeat := now, ss_offline_at := 0\<rparr>)
             (sm_sessions m p)
      else sm_sessions m q)"
  "sm_conn (fst (RebindForReconnect m p conn now)) d = Some q \<Longrightarrow> q = p \<or> sm_conn m d = Some q"
  "sm_sessions m p \<noteq> None \<Longrightarrow> sm_conn (fst (RebindForReconnect m p conn now)) conn = Some p"
  by (auto simp: RebindForReconnect_def Let_def split: if_splits option.splits)

lemma reconnect_core_ok:
  assumes c: "core_ok c" and s: "sm_sessions (co_sessions c) p \<noteq> None"
  shows "core_ok (reconnect_core c p conn now)"
  unfolding reconnect_core_def
proof (rule core_players_sessions [OF c])
  note D = core_okD [OF c]
  let ?st = "if 0 < session_room c p then InRoom else Lobby"
  let ?sm = "fst (RebindForReconnect (co_sessions c) p conn now)"
  show "GetState (ForceState (co_players c) p ?st) q = Matching \<Longrightarrow> waits c q" for q
    using D(7) [of q] by (simp split: if_splits)
  show "GetState (ForceState (co_players c) p ?st) q = Lobby \<Longrightarrow> \<not> in_room c q" for q
    using D(8) [of q] D(6) [of p]
    by (cases "mg_player_room (co_rooms c) p")
      (auto simp: in_room_def GetRoomIdByPlayer_def session_room_def GetSessionByPlayer_def split: if_splits)
  show "sm_sessions (co_sessions c) q = Some t \<Longrightarrow> \<exists>s'. sm_sessions ?sm q = Some s' \<and> ss_room s' = ss_room t" for q t
    by (auto simp: Rebind_session)
  show "sm_conn ?sm d = Some q \<Longrightarrow> sm_sessions ?sm q \<noteq> None" for d q
    using Rebind_session(2) [of "co_sessions c" p conn now d q] D(9) [of d q] s by (auto simp: Rebind_session(1))
  show "sm_sessions ?sm q \<noteq> None \<Longrightarrow> 0 < q" for q
    using D(10) [of q] by (auto simp: Rebind_session(1) split: if_splits)
qed

lemma check_token_cases:
  assumes "check_token sh f p tok rid now = (f1, x)"
  shows "fo_core f1 = fo_core f" "fo_auth f1 = fo_auth f"
    "x = Inl (code, reason) \<Longrightarrow> code \<in> {TOKEN_EXPIRED, INVALID_TOKEN, NOT_LOGIN, RECONNECT_ROOM_MISMATCH}"
    "x = Inr s \<Longrightarrow> sm_sessions (co_sessions (fo_core f)) p = Some s \<and> ss_room s = rid \<and>
       (\<exists>e. genuine (au_secret (fo_auth f)) tok kPurposeSession p e \<and> now \<le> e)"
proof -
  let ?v = "Verify (fo_auth f) tok now kPurposeSession"
  obtain f2 known where K: "token_known sh f (tv_player ?v) tok now = (f2, known)" by fastforce
  have fr: "fo_core f2 = fo_core f" "fo_auth f2 = fo_auth f"
    using token_known_frame [of sh f "tv_player ?v" tok now] K by simp_all
  note E = assms [unfolded check_token_def Let_def K prod.case]
  show "fo_core f1 = fo_core f" "fo_auth f1 = fo_auth f"
    "x = Inl (code, reason) \<Longrightarrow> code \<in> {TOKEN_EXPIRED, INVALID_TOKEN, NOT_LOGIN, RECONNECT_ROOM_MISMATCH}"
    using E fr by (auto split: if_splits bool.splits option.splits)
  show "x = Inr s \<Longrightarrow> sm_sessions (co_sessions (fo_core f)) p = Some s \<and> ss_room s = rid \<and>
       (\<exists>e. genuine (au_secret (fo_auth f)) tok kPurposeSession p e \<and> now \<le> e)"
    using E fr Verify_ok [of "fo_auth f" tok now kPurposeSession]
    by (auto simp: GetSessionByPlayer_def split: if_splits bool.splits option.splits)
qed

lemma manager_ok_seat:
  "manager_ok m \<Longrightarrow> mg_player_room m p = Some rid \<longleftrightarrow> (\<exists>r. mg_rooms m rid = Some r \<and> p \<in> set (rm_players r))"
  by (simp add: manager_ok_def players_ok_def)

lemma HandleReconnect_cases:
  obtains (refused) f' r where "HandleReconnect sh f conn body now = (f', r)"
      "fo_core f' = fo_core f" "fo_auth f' = fo_auth f" "rr_snapshot r = None" "rr_kick r = None" "rr_player r = 0"
      "rr_code r \<in> {TOKEN_EXPIRED, INVALID_TOKEN, NOT_LOGIN, RECONNECT_ROOM_MISMATCH}"
  | (accepted) f' r q where "HandleReconnect sh f conn body now = (f', r)" "ParseReconnectRequest body = Some q"
      "fo_core f' = reconnect_core (fo_core f) (rq_player q) conn now" "fo_auth f' = fo_auth f"
      "sm_sessions (co_sessions (fo_core f)) (rq_player q) \<noteq> None"
      "session_room (fo_core f) (rq_player q) = rq_room q"
      "\<exists>e. genuine (au_secret (fo_auth f)) (rq_token q) kPurposeSession (rq_player q) e \<and> now \<le> e"
      "rr_player r = rq_player q" "rr_room r = rq_room q"
      "rr_snapshot r = (if 0 < rq_room q then BuildSnapshotByRoomId (co_rooms (fo_core f)) (rq_room q) else None)"
      "rr_code r = UNKNOWN_ERROR \<or> rr_code r =
         (if (if 0 < rq_room q then rr_snapshot r = None \<or> map_option sn_version (rr_snapshot r) = Some (rq_version q)
              else rq_version q = 0) then OK else SNAPSHOT_VERSION_CONFLICT)"
proof (cases "ParseReconnectRequest body")
  case None
  then show ?thesis
    by (intro refused [of f "reconnect_result0\<lparr>rr_code := INVALID_TOKEN, rr_reason := ''invalid_packet''\<rparr>"])
      (simp_all add: HandleReconnect_def reconnect_result0_def)
next
  case (Some q)
  obtain f1 x where C: "check_token sh f (rq_player q) (rq_token q) (rq_room q) now = (f1, x)" by fastforce
  note K = check_token_cases [OF C]
  show ?thesis
  proof (cases x)
    case (Inl e)
    then show ?thesis using K(1,2) K(3) [of "fst e" "snd e"]
      by (intro refused [of f1 "reconnect_result0\<lparr>rr_code := fst e, rr_reason := snd e\<rparr>"])
        (auto simp: HandleReconnect_def reconnect_result0_def Some C split: prod.split)
  next
    case (Inr s)
    obtain f' r where H: "HandleReconnect sh f conn body now = (f', r)" by fastforce
    obtain sm kick where R: "RebindForReconnect (co_sessions (fo_core f)) (rq_player q) conn now = (sm, kick)" by fastforce
    have rm: "session_room (fo_core f) (rq_player q) = ss_room s" "ss_room s = rq_room q"
      using K(4) [OF Inr] by (simp_all add: session_room_def GetSessionByPlayer_def)
    define c2 where "c2 = reconnect_core (fo_core f) (rq_player q) conn now"
    have c2: "(fo_core f)\<lparr>co_sessions := sm, co_players := ForceState (co_players (fo_core f)) (rq_player q) InRoom\<rparr> = c2"
      if "0 < rq_room q" using that by (simp add: c2_def reconnect_core_def R rm)
    have c2': "(fo_core f)\<lparr>co_sessions := sm, co_players := ForceState (co_players (fo_core f)) (rq_player q) Lobby\<rparr> = c2"
      if "\<not> 0 < rq_room q" using that by (simp add: c2_def reconnect_core_def R rm)
    obtain f3 ok where P: "publish_presence sh (f1\<lparr>fo_core := c2\<rparr>) (rq_player q) (rq_room q) now = (f3, ok)" by fastforce
    have fr: "fo_core f3 = c2" "fo_auth f3 = fo_auth f"
      using publish_frame(1,2) [of sh "f1\<lparr>fo_core := c2\<rparr>" "rq_player q" "rq_room q" now] P K(2) by simp_all
    note E = H [unfolded HandleReconnect_def, simplified Some option.case C Inr prod.case sum.case K(1) R Let_def]
    have all: "fo_core f' = c2 \<and> fo_auth f' = fo_auth f \<and> rr_player r = rq_player q \<and> rr_room r = rq_room q \<and>
      rr_snapshot r = (if 0 < rq_room q then BuildSnapshotByRoomId (co_rooms (fo_core f)) (rq_room q) else None) \<and>
      (rr_code r = UNKNOWN_ERROR \<or> rr_code r =
         (if (if 0 < rq_room q then rr_snapshot r = None \<or> map_option sn_version (rr_snapshot r) = Some (rq_version q)
              else rq_version q = 0) then OK else SNAPSHOT_VERSION_CONFLICT))"
    proof (cases "0 < rq_room q")
      case True
      then show ?thesis
        using E fr P c2 rm(2) K(2)
        by (cases "BuildSnapshotByRoomId (co_rooms (fo_core f)) (rq_room q)")
          (auto simp: reconnect_result0_def split: if_splits bool.splits)
    next
      case False
      then show ?thesis
        using E fr P c2' rm(2) K(2) by (auto simp: reconnect_result0_def split: if_splits bool.splits)
    qed
    show ?thesis
      by (rule accepted [OF H Some]) (use all K(4) [OF Inr] rm in \<open>simp_all add: c2_def\<close>)
  qed
qed

lemma HandleReconnect_ok:
  assumes "core_ok (fo_core f)"
  shows "core_ok (fo_core (fst (HandleReconnect sh f conn body now)))"
proof (cases rule: HandleReconnect_cases [where sh = sh and f = f and conn = conn and body = body and now = now])
  case (refused f' r)
  then show ?thesis using assms by simp
next
  case (accepted f' r q)
  then show ?thesis using reconnect_core_ok [OF assms] by simp
qed

lemma HandleSessionRefresh_cases:
  assumes "HandleSessionRefresh sh f body now = (f', r)"
  shows "fo_core f' = fo_core f"
    "rf_code r = OK \<Longrightarrow> \<exists>p tok rid s a t. ParseSessionRefreshRequest body = Some (p, tok, rid) \<and>
       sm_sessions (co_sessions (fo_core f)) p = Some s \<and> ss_room s = rid \<and>
       (\<exists>e. genuine (au_secret (fo_auth f)) tok kPurposeSession p e \<and> now \<le> e) \<and>
       IssueSessionToken (fo_auth f) p now = (a, t) \<and> fo_auth f' = a \<and>
       rf_player r = p \<and> rf_room r = rid \<and> rf_token r = ti_token t \<and> rf_expire r = ti_expire t"
    "rf_code r \<noteq> OK \<Longrightarrow> rf_token r = [] \<and> rf_expire r = 0"
proof (atomize (full), goal_cases)
  case 1
  show ?case
  proof (cases "ParseSessionRefreshRequest body")
    case None
    then show ?thesis using assms by (auto simp: HandleSessionRefresh_def refresh_result0_def)
  next
    case (Some q)
    obtain p tok rid where q: "q = (p, tok, rid)" by (cases q)
    obtain f1 x where C: "check_token sh f p tok rid now = (f1, x)" by fastforce
    note K = check_token_cases [OF C]
    show ?thesis
    proof (cases x)
      case (Inl e)
      then show ?thesis using assms K(1) K(3) [of "fst e" "snd e"]
        by (auto simp: HandleSessionRefresh_def refresh_result0_def Some q C split: prod.splits)
    next
      case (Inr s)
      obtain a t where I: "IssueSessionToken (fo_auth f) p now = (a, t)" by fastforce
      obtain f3 ok where P: "publish_login sh (f1\<lparr>fo_auth := a\<rparr>) p (ti_token t) (ss_room s) now = (f3, ok)" by fastforce
      have fr: "fo_core f3 = fo_core f" "fo_auth f3 = a"
        using publish_frame(3,4) [of sh "f1\<lparr>fo_auth := a\<rparr>" p "ti_token t" "ss_room s" now] P K(1) by simp_all
      have I': "IssueSessionToken (fo_auth f1) p now = (a, t)" using I K(2) by simp
      note E = assms [unfolded HandleSessionRefresh_def, simplified Some q option.case prod.case C Inr sum.case I' Let_def P]
      show ?thesis
        using E K(1,2) K(4) [OF Inr] fr I
        by (auto simp: refresh_result0_def Some q split: if_splits bool.splits)
    qed
  qed
qed

lemma login_core_coin:
  "GetCoin (co_players (fst (login_core c p conn nick now))) q =
     (if q = p
      then let coin = (case GetPlayer (co_players c) p of Some d \<Rightarrow> pl_coin d | None \<Rightarrow> 1000) in
           if coin = 0 then 1000 else coin
      else GetCoin (co_players c) q)"
  by (auto simp: login_core_def Let_def split_beta GetCoin_def ForceState_def UpsertPlayer_def player_entry_def
      GetPlayer_def empty_player_def split: option.split)

lemma BindLogin_conn: "sm_conn (fst (BindLogin m p conn now)) conn = Some p"
  by (simp add: BindLogin_def Let_def)

text \<open>A token never breaks the field that carries it.\<close>

lemma issued_clean:
  assumes "IssueWithPurpose a p now purpose = (a', t)" "CHR '';'' \<notin> set key" "CHR ''='' \<notin> set key"
  shows "clean_field (key, ti_token t)"
proof -
  have d: "CHR '';'' \<notin> set (nat_str n)" for n
    using nat_str_digits [of n] by (auto simp: list_all_iff is_digit_def)
  have "CHR '';'' \<notin> set (int_str i)" for i by (simp add: int_str_free is_digit_def)
  moreover have "CHR '';'' \<notin> set purpose" if "IsValidPurpose purpose"
    using that by (auto simp: IsValidPurpose_def list_all_iff purpose_char_def Let_def)
  moreover have "CHR '';'' \<notin> set (Sign s x)" for s x
    using Sha256Hex_digits by (force simp: Sign_def list_all_iff is_hex_def)
  ultimately show ?thesis
    using assms d by (auto simp: IssueWithPurpose_def GenerateNonce_def Let_def clean_field_def split: if_splits)
qed

subsection \<open>Properties\<close>

text \<open>C24: an accepted login shows an unexpired login ticket of the player it logs in; the player's
  session is then bound to the connection, keeps its room, and the connection it replaces is
  reported; a player who sits in a room comes back to that room. The session token handed out
  is the one issued for this player. Nobody else, no queue and no room changes.\<close>

theorem login_accepted:
  assumes "core_ok (fo_core f)" "HandleLogin sh f conn body now = (f', r)" "lr_code r = OK"
  shows "core_ok (fo_core f') \<and>
    (\<exists>ticket e. ParseKvBody body ''login_ticket'' = Some ticket \<and>
       genuine (au_secret (fo_auth f)) ticket kPurposeLogin (lr_player r) e \<and> now \<le> e) \<and>
    IssueSessionToken (fo_auth f) (lr_player r) now =
      (fo_auth f', \<lparr>ti_token = lr_token r, ti_expire = lr_expire r\<rparr>) \<and>
    GetPlayerIdByConnection (co_sessions (fo_core f')) conn = Some (lr_player r) \<and>
    GetConnectionIdByPlayer (co_sessions (fo_core f')) (lr_player r) = Some conn \<and>
    lr_kick r = GetConnectionIdByPlayer (co_sessions (fo_core f)) (lr_player r) \<and>
    lr_room r = session_room (fo_core f) (lr_player r) \<and>
    session_room (fo_core f') (lr_player r) = lr_room r \<and>
    (\<forall>rid. GetRoomIdByPlayer (co_rooms (fo_core f)) (lr_player r) = Some rid \<longrightarrow> lr_room r = rid \<and> lr_reconnect r) \<and>
    GetState (co_players (fo_core f')) (lr_player r) = (if lr_reconnect r then InRoom else Lobby) \<and>
    GetCoin (co_players (fo_core f')) (lr_player r) = (if lr_coin r = 0 then 1000 else lr_coin r) \<and>
    (\<forall>q. q \<noteq> lr_player r \<longrightarrow>
       GetState (co_players (fo_core f')) q = GetState (co_players (fo_core f)) q \<and>
       GetCoin (co_players (fo_core f')) q = GetCoin (co_players (fo_core f)) q \<and>
       sm_sessions (co_sessions (fo_core f')) q = sm_sessions (co_sessions (fo_core f)) q) \<and>
    co_rooms (fo_core f') = co_rooms (fo_core f) \<and> co_match (fo_core f') = co_match (fo_core f)"
proof (cases rule: HandleLogin_cases [where sh = sh and f = f and conn = conn and body = body and now = now])
  case (refused r')
  then show ?thesis using assms by (auto split: option.splits if_splits)
next
  case (accepted g r' ticket p a t)
  then have g: "g = f'" "r' = r" using assms(2) by auto
  note A = accepted [unfolded g]
  have r: "lr_player r = p" "lr_token r = ti_token t" "lr_expire r = ti_expire t"
    "lr_room r = session_room (fo_core f) p" "lr_reconnect r = (0 < session_room (fo_core f) p)"
    "lr_coin r = (case GetPlayer (co_players (fo_core f)) p of Some d \<Rightarrow> pl_coin d | None \<Rightarrow> 1000)"
    "lr_kick r = GetConnectionIdByPlayer (co_sessions (fo_core f)) p"
    using A(9) assms(3) by auto
  have ticket: "ParseKvBody body ''login_ticket'' = Some ticket"
    using A(2) by (auto simp: ParseLoginTicket_def split: option.splits if_splits)
  have room: "\<forall>rid. GetRoomIdByPlayer (co_rooms (fo_core f)) p = Some rid \<longrightarrow> lr_room r = rid \<and> lr_reconnect r"
    using core_okD(6) [OF assms(1), of p]
    by (auto simp: r GetRoomIdByPlayer_def session_room_def GetSessionByPlayer_def)
  have "core_ok (fo_core f')" using HandleLogin_ok [OF assms(1), of sh conn body now] assms(2) by simp
  moreover have "session_room (fo_core f') p = lr_room r"
    by (auto simp: A(7) r session_room_def GetSessionByPlayer_def login_core_sel BindLogin_session empty_session_def
        split: option.split)
  moreover have "\<exists>e. genuine (au_secret (fo_auth f)) ticket kPurposeLogin p e \<and> now \<le> e"
    using Verify_ok [OF A(3)] A(4) by simp
  moreover have "IssueSessionToken (fo_auth f) p now = (fo_auth f', \<lparr>ti_token = lr_token r, ti_expire = lr_expire r\<rparr>)"
    using A(5,6) by (simp add: r)
  ultimately show ?thesis
    using ticket room r(5-7)
    by (simp add: r(1,4) A(7) login_core_sel login_core_coin BindLogin_session(1) conn_BindLogin
        GetPlayerIdByConnection_def BindLogin_conn Let_def) auto
qed

text \<open>Players 7, 8 and 9 sit in room 1; Redis is not configured.\<close>

definition demo_front :: "unit front" where
  "demo_front = \<lparr>fo_core = ts_core demo_settle, fo_auth = default_auth, fo_redis = None, fo_world = ()\<rparr>"

definition demo_token :: "string \<Rightarrow> string" where
  "demo_token purpose = ti_token (snd (IssueWithPurpose default_auth 7 1000 purpose))"

lemma demo_token_genuine:
  assumes "IsValidPurpose purpose"
  shows "genuine (au_secret default_auth) (demo_token purpose) purpose 7 604801000"
    "CHR '';'' \<notin> set key \<Longrightarrow> CHR ''='' \<notin> set key \<Longrightarrow> clean_field (key, demo_token purpose)"
proof -
  obtain a' t where I: "IssueWithPurpose default_auth 7 1000 purpose = (a', t)" by fastforce
  show "genuine (au_secret default_auth) (demo_token purpose) purpose 7 604801000"
    using issued_genuine(1,3) [OF _ _ assms _ _ I]
    unfolding demo_token_def I by (simp add: in_i64_def default_auth_def)
  show "CHR '';'' \<notin> set key \<Longrightarrow> CHR ''='' \<notin> set key \<Longrightarrow> clean_field (key, demo_token purpose)"
    using issued_clean [OF I] by (simp add: demo_token_def I)
qed

lemma demo_verify:
  "IsValidPurpose purpose \<Longrightarrow> Verify default_auth (demo_token purpose) 2000 purpose =
     \<lparr>tv_ok = True, tv_expired = False, tv_player = 7, tv_purpose = purpose\<rparr>"
  using Verify_yes [OF demo_token_genuine(1), of purpose purpose 2000] by simp

definition demo_login :: string where
  "demo_login = BuildKvBody [(''login_ticket'', demo_token kPurposeLogin)]"

lemma demo_login_accepted: "lr_code (snd (HandleLogin no_shell demo_front 5 demo_login 2000)) = OK"
proof -
  have v: "IsValidPurpose kPurposeLogin" by code_simp
  note T = demo_token_genuine [OF v]
  have "ParseKvBody demo_login = map_of [(''login_ticket'', demo_token kPurposeLogin)]"
    unfolding demo_login_def by (rule kv_roundtrip) (use T(2) in simp_all)
  then have P: "ParseLoginTicket demo_login = Some (demo_token kPurposeLogin)"
    using genuine_not_Nil [OF T(1)] by (simp add: ParseLoginTicket_def)
  show ?thesis
    by (simp add: HandleLogin_def P demo_front_def demo_verify [OF v] IssueSessionToken_def IssueWithPurpose_def
        Let_def redis_ready_def split_beta)
qed

theorem login_accepted_witness:
  "lr_code (snd (HandleLogin no_shell demo_front 5 demo_login 2000)) = OK \<and>
   core_ok (fo_core (fst (HandleLogin no_shell demo_front 5 demo_login 2000)))"
proof -
  obtain f' r where H: "HandleLogin no_shell demo_front 5 demo_login 2000 = (f', r)" by fastforce
  have "core_ok (fo_core demo_front)" using demo_settle_facts(1) by (simp add: demo_front_def)
  from login_accepted [OF this H] show ?thesis using demo_login_accepted unfolding H by simp
qed

text \<open>C30: an accepted reconnection shows an unexpired session token of the player it claims to be,
  and names the room of the player's session; the session is then bound to the new connection
  and the player resumes in the room or the lobby. A player who sits in a room gets the present
  snapshot of it, and is told of a conflict exactly when the version it has seen is another.\<close>

theorem reconnect_resumes:
  assumes "core_ok (fo_core f)" "HandleReconnect sh f conn body now = (f', r)"
    "rr_code r = OK \<or> rr_code r = SNAPSHOT_VERSION_CONFLICT"
  shows "\<exists>q e. ParseReconnectRequest body = Some q \<and> rr_player r = rq_player q \<and>
    genuine (au_secret (fo_auth f)) (rq_token q) kPurposeSession (rr_player r) e \<and> now \<le> e \<and>
    session_room (fo_core f) (rr_player r) = rq_room q \<and> session_room (fo_core f') (rr_player r) = rq_room q \<and>
    GetPlayerIdByConnection (co_sessions (fo_core f')) conn = Some (rr_player r) \<and>
    GetConnectionIdByPlayer (co_sessions (fo_core f')) (rr_player r) = Some conn \<and>
    GetState (co_players (fo_core f')) (rr_player r) = (if 0 < rq_room q then InRoom else Lobby) \<and>
    (\<forall>rid. GetRoomIdByPlayer (co_rooms (fo_core f)) (rr_player r) = Some rid \<longrightarrow>
       (\<exists>room. mg_rooms (co_rooms (fo_core f)) rid = Some room \<and> rr_snapshot r = Some (MakeSnapshot room) \<and>
          (rr_code r = OK \<longleftrightarrow> rq_version q = rm_version room))) \<and>
    (\<forall>p. p \<noteq> rr_player r \<longrightarrow>
       GetState (co_players (fo_core f')) p = GetState (co_players (fo_core f)) p \<and>
       sm_sessions (co_sessions (fo_core f')) p = sm_sessions (co_sessions (fo_core f)) p) \<and>
    co_rooms (fo_core f') = co_rooms (fo_core f) \<and> co_match (fo_core f') = co_match (fo_core f) \<and>
    core_ok (fo_core f')"
proof (cases rule: HandleReconnect_cases [where sh = sh and f = f and conn = conn and body = body and now = now])
  case (refused g r')
  then show ?thesis using assms(2,3) by auto
next
  case (accepted g r' q)
  then have g: "g = f'" "r' = r" using assms(2) by auto
  note A = accepted [unfolded g]
  obtain e where e: "genuine (au_secret (fo_auth f)) (rq_token q) kPurposeSession (rq_player q) e" "now \<le> e"
    using A(7) by blast
  obtain s where s: "sm_sessions (co_sessions (fo_core f)) (rq_player q) = Some s" using A(5) by auto
  have snap: "\<exists>room. mg_rooms (co_rooms (fo_core f)) rid = Some room \<and> rr_snapshot r = Some (MakeSnapshot room) \<and>
        (rr_code r = OK \<longleftrightarrow> rq_version q = rm_version room)"
    if seat: "GetRoomIdByPlayer (co_rooms (fo_core f)) (rq_player q) = Some rid" for rid
  proof -
    have rid: "0 < rid" "rq_room q = rid"
      using core_okD(6) [OF assms(1), of "rq_player q" rid] seat A(6)
      by (auto simp: GetRoomIdByPlayer_def session_room_def GetSessionByPlayer_def)
    obtain room where "mg_rooms (co_rooms (fo_core f)) rid = Some room"
      using manager_ok_seat [OF core_okD(1) [OF assms(1)], of "rq_player q" rid] seat by (auto simp: GetRoomIdByPlayer_def)
    then show ?thesis
      using A(10,11) assms(3) rid by (auto simp: BuildSnapshotByRoomId_def MakeSnapshot_def split: if_splits)
  qed
  have "session_room (fo_core f') (rq_player q) = rq_room q"
    using A(6) s by (simp add: A(3) reconnect_core_def session_room_def GetSessionByPlayer_def Rebind_session)
  moreover have "GetConnectionIdByPlayer (co_sessions (fo_core f')) (rq_player q) = Some conn"
    using s by (simp add: A(3) reconnect_core_def GetConnectionIdByPlayer_def Rebind_session)
  moreover have "core_ok (fo_core f')" using HandleReconnect_ok [OF assms(1), of sh conn body now] assms(2) by simp
  ultimately show ?thesis
    using A(2,6,8) e snap Rebind_session(3) [of "co_sessions (fo_core f)" "rq_player q" conn now] A(5)
    by (intro exI [of _ q] exI [of _ e])
      (simp add: A(3) reconnect_core_def GetPlayerIdByConnection_def Rebind_session(1))
qed

definition demo_reconnect :: string where
  "demo_reconnect = BuildKvBody [(''player_id'', int_str 7), (''token'', demo_token kPurposeSession),
     (''room_id'', int_str 1), (''last_snapshot_version'', int_str 5)]"

lemma demo_reconnect_parses: "ParseReconnectRequest demo_reconnect =
    Some \<lparr>rq_player = 7, rq_token = demo_token kPurposeSession, rq_room = 1, rq_version = 5\<rparr>"
proof -
  note T = demo_token_genuine [OF purposes(3)]
  have i: "CHR '';'' \<notin> set (int_str i)" for i by (simp add: int_str_free is_digit_def)
  have "ParseKvBody demo_reconnect = map_of [(''player_id'', int_str 7), (''token'', demo_token kPurposeSession),
     (''room_id'', int_str 1), (''last_snapshot_version'', int_str 5)]"
    unfolding demo_reconnect_def
    by (rule kv_roundtrip) (use T(2) in \<open>simp_all add: i, simp_all add: clean_field_def i\<close>)
  then show ?thesis
    using genuine_not_Nil [OF T(1)] by (simp add: ParseReconnectRequest_def Let_def in_i64_def)
qed

lemma demo_seat_session: "\<exists>s. sm_sessions (co_sessions (ts_core demo_settle)) 7 = Some s \<and> ss_room s = 1"
  using core_okD(6) [OF demo_settle_facts(1), of 7 1] manager_ok_seat [OF core_okD(1) [OF demo_settle_facts(1)], of 7 1]
    demo_settle_facts(2) by auto

lemma demo_reconnects:
  "rr_code (snd (HandleReconnect no_shell demo_front 5 demo_reconnect 2000)) \<in> {OK, SNAPSHOT_VERSION_CONFLICT}"
proof -
  obtain s where s: "sm_sessions (co_sessions (ts_core demo_settle)) 7 = Some s" "ss_room s = 1"
    using demo_seat_session by blast
  show ?thesis
    by (simp add: HandleReconnect_def demo_reconnect_parses check_token_def demo_verify [OF purposes(3)] demo_front_def
        token_known_def GetSessionByPlayer_def s Let_def redis_ready_def split_beta)
qed

theorem reconnect_resumes_witness:
  "map_option sn_players (rr_snapshot (snd (HandleReconnect no_shell demo_front 5 demo_reconnect 2000))) = Some [7, 8, 9]"
proof -
  obtain f' r where H: "HandleReconnect no_shell demo_front 5 demo_reconnect 2000 = (f', r)" by fastforce
  have c: "core_ok (fo_core demo_front)" using demo_settle_facts(1) by (simp add: demo_front_def)
  have seat: "GetRoomIdByPlayer (co_rooms (fo_core demo_front)) 7 = Some 1"
    using manager_ok_seat [OF core_okD(1) [OF demo_settle_facts(1)], of 7 1] demo_settle_facts(2)
    by (simp add: demo_front_def GetRoomIdByPlayer_def)
  have "rr_code r = OK \<or> rr_code r = SNAPSHOT_VERSION_CONFLICT" using demo_reconnects by (simp add: H)
  from reconnect_resumes [OF c H this] show ?thesis
    using seat demo_settle_facts(2) unfolding H
    by (auto simp: demo_reconnect_parses demo_front_def MakeSnapshot_def)
qed

text \<open>C38: a request that is refused for its token, its player, its session or its room changes no
  manager and hands out no token, no snapshot and no connection to close. A login is refused for
  a missing ticket, an expired one or a bad one; the refresh of a token never touches a manager.\<close>

theorem refused_requests_change_nothing:
  "(HandleLogin sh f conn body now = (f1, r1) \<and> lr_code r1 \<noteq> OK \<and> lr_code r1 \<noteq> UNKNOWN_ERROR \<longrightarrow>
      f1 = f \<and> lr_token r1 = [] \<and> lr_kick r1 = None \<and>
      lr_code r1 = (case ParseLoginTicket body of None \<Rightarrow> INVALID_PACKET
         | Some ticket \<Rightarrow> if tv_expired (Verify (fo_auth f) ticket now kPurposeLogin) then TOKEN_EXPIRED
                          else INVALID_TOKEN)) \<and>
   (HandleReconnect sh f conn body now = (f2, r2) \<and> rr_code r2 \<noteq> OK \<and> rr_code r2 \<noteq> SNAPSHOT_VERSION_CONFLICT \<and>
      rr_code r2 \<noteq> UNKNOWN_ERROR \<longrightarrow>
      fo_core f2 = fo_core f \<and> fo_auth f2 = fo_auth f \<and> rr_snapshot r2 = None \<and> rr_kick r2 = None \<and>
      rr_code r2 \<in> {TOKEN_EXPIRED, INVALID_TOKEN, NOT_LOGIN, RECONNECT_ROOM_MISMATCH}) \<and>
   (HandleSessionRefresh sh f body now = (f3, r3) \<longrightarrow>
      fo_core f3 = fo_core f \<and> (rf_code r3 \<noteq> OK \<longrightarrow> rf_token r3 = []))"
proof (intro conjI impI)
  assume H: "HandleLogin sh f conn body now = (f1, r1) \<and> lr_code r1 \<noteq> OK \<and> lr_code r1 \<noteq> UNKNOWN_ERROR"
  show "f1 = f" "lr_token r1 = []" "lr_kick r1 = None"
    "lr_code r1 = (case ParseLoginTicket body of None \<Rightarrow> INVALID_PACKET
         | Some ticket \<Rightarrow> if tv_expired (Verify (fo_auth f) ticket now kPurposeLogin) then TOKEN_EXPIRED
                          else INVALID_TOKEN)"
    by (cases rule: HandleLogin_cases [where sh = sh and f = f and conn = conn and body = body and now = now];
        use H in auto)+
next
  assume H: "HandleReconnect sh f conn body now = (f2, r2) \<and> rr_code r2 \<noteq> OK \<and>
    rr_code r2 \<noteq> SNAPSHOT_VERSION_CONFLICT \<and> rr_code r2 \<noteq> UNKNOWN_ERROR"
  show "fo_core f2 = fo_core f" "fo_auth f2 = fo_auth f" "rr_snapshot r2 = None" "rr_kick r2 = None"
    "rr_code r2 \<in> {TOKEN_EXPIRED, INVALID_TOKEN, NOT_LOGIN, RECONNECT_ROOM_MISMATCH}"
    by (cases rule: HandleReconnect_cases [where sh = sh and f = f and conn = conn and body = body and now = now];
        use H in \<open>auto split: if_splits\<close>)+
next
  assume H: "HandleSessionRefresh sh f body now = (f3, r3)"
  show "fo_core f3 = fo_core f" "rf_code r3 \<noteq> OK \<Longrightarrow> rf_token r3 = []"
    using HandleSessionRefresh_cases [OF H] by simp_all
qed

theorem refused_requests_change_nothing_witness:
  "fst (HandleLogin no_shell demo_front 5 ''login_ticket=v2.x'' 2000) = demo_front"
proof -
  obtain f1 r1 where H: "HandleLogin no_shell demo_front 5 ''login_ticket=v2.x'' 2000 = (f1, r1)" by fastforce
  have p: "ParseLoginTicket ''login_ticket=v2.x'' = Some ''v2.x''" by code_simp
  have v: "token_claims (Split ''v2.x'' CHR ''.'') = None" by code_simp
  have "lr_code r1 = INVALID_TOKEN"
    using H by (auto simp: HandleLogin_def p Verify_def v Let_def no_token_def login_result0_def)
  then show ?thesis
    using refused_requests_change_nothing [of no_shell demo_front 5 "''login_ticket=v2.x''" 2000 f1 r1] H by simp
qed

text \<open>A refreshed session token belongs to the player of the unexpired session token that was
  shown, is genuine, and lives for the configured time from now.\<close>

theorem refresh_renews:
  assumes "core_ok (fo_core f)" "HandleSessionRefresh sh f body now = (f', r)" "rf_code r = OK"
    "0 < now + au_ttl (fo_auth f) * 1000" "in_i64 (now + au_ttl (fo_auth f) * 1000)"
  shows "\<exists>tok rid e. ParseSessionRefreshRequest body = Some (rf_player r, tok, rid) \<and>
    genuine (au_secret (fo_auth f)) tok kPurposeSession (rf_player r) e \<and> now \<le> e \<and>
    session_room (fo_core f) (rf_player r) = rid \<and> rf_room r = rid \<and>
    genuine (au_secret (fo_auth f')) (rf_token r) kPurposeSession (rf_player r) (rf_expire r) \<and>
    rf_expire r = now + au_ttl (fo_auth f) * 1000 \<and> fo_core f' = fo_core f"
proof -
  obtain p tok rid s a t e where A: "ParseSessionRefreshRequest body = Some (p, tok, rid)"
    "sm_sessions (co_sessions (fo_core f)) p = Some s" "ss_room s = rid"
    "genuine (au_secret (fo_auth f)) tok kPurposeSession p e" "now \<le> e"
    "IssueSessionToken (fo_auth f) p now = (a, t)" "fo_auth f' = a"
    "rf_player r = p" "rf_room r = rid" "rf_token r = ti_token t" "rf_expire r = ti_expire t"
    using HandleSessionRefresh_cases(2) [OF assms(2,3)] by blast
  have p: "0 < p" using core_okD(10) [OF assms(1), of p] A(2) by simp
  have i: "in_i64 p" using A(1) by (auto simp: ParseSessionRefreshRequest_def Let_def dest: stoll_all_range
        split: option.splits if_splits)
  note g = issued_genuine [OF p i purposes(3) assms(4,5) A(6) [unfolded IssueSessionToken_def]]
  show ?thesis
    using A g HandleSessionRefresh_cases(1) [OF assms(2)]
    by (auto simp: session_room_def GetSessionByPlayer_def)
qed

definition demo_refresh :: string where
  "demo_refresh = BuildKvBody [(''player_id'', int_str 7), (''token'', demo_token kPurposeSession), (''room_id'', int_str 1)]"

lemma demo_refresh_parses: "ParseSessionRefreshRequest demo_refresh = Some (7, demo_token kPurposeSession, 1)"
proof -
  note T = demo_token_genuine [OF purposes(3)]
  have i: "CHR '';'' \<notin> set (int_str i)" for i by (simp add: int_str_free is_digit_def)
  have "ParseKvBody demo_refresh = map_of [(''player_id'', int_str 7), (''token'', demo_token kPurposeSession),
     (''room_id'', int_str 1)]"
    unfolding demo_refresh_def
    by (rule kv_roundtrip) (use T(2) in \<open>simp_all add: i, simp_all add: clean_field_def i\<close>)
  then show ?thesis
    using genuine_not_Nil [OF T(1)] by (simp add: ParseSessionRefreshRequest_def Let_def in_i64_def)
qed

lemma demo_refreshes: "rf_code (snd (HandleSessionRefresh no_shell demo_front demo_refresh 2000)) = OK"
proof -
  obtain s where s: "sm_sessions (co_sessions (ts_core demo_settle)) 7 = Some s" "ss_room s = 1"
    using demo_seat_session by blast
  show ?thesis
    by (simp add: HandleSessionRefresh_def demo_refresh_parses check_token_def demo_verify [OF purposes(3)] demo_front_def
        token_known_def GetSessionByPlayer_def s Let_def redis_ready_def split_beta IssueSessionToken_def IssueWithPurpose_def)
qed

theorem refresh_renews_witness:
  "rf_player (snd (HandleSessionRefresh no_shell demo_front demo_refresh 2000)) = 7 \<and>
   rf_expire (snd (HandleSessionRefresh no_shell demo_front demo_refresh 2000)) = 604802000"
proof -
  obtain f' r where H: "HandleSessionRefresh no_shell demo_front demo_refresh 2000 = (f', r)" by fastforce
  have c: "core_ok (fo_core demo_front)" using demo_settle_facts(1) by (simp add: demo_front_def)
  have "rf_code r = OK" using demo_refreshes by (simp add: H)
  from refresh_renews [OF c H this] obtain tok rid e where
    "ParseSessionRefreshRequest demo_refresh = Some (rf_player r, tok, rid)" "rf_expire r = 604802000"
    by (auto simp: demo_front_def default_auth_def in_i64_def)
  then show ?thesis using demo_refresh_parses unfolding H by simp
qed

end
