(* ===== verification/DdzConfig.thy ===== *)
theory DdzConfig
  imports DdzRedis
begin

text \<open>
  Configuration files: \<^verbatim>\<open>common/config/config_loader.cpp\<close> for the server and
  \<^verbatim>\<open>gateway/gateway_config.cpp\<close> for the gateway. A file is its content, or \<open>None\<close> when it cannot be
  opened; an exception of the number parsers ends the loading with the number of the line, and
  leaves what the lines before it set. The text of the exception is the parameter \<open>what\<close>.
\<close>

subsection \<open>Lines\<close>

definition Trim :: "string \<Rightarrow> string" where
  "Trim s = rev (dropWhile is_space (rev (dropWhile is_space s)))"

definition StripComment :: "string \<Rightarrow> string" where
  "StripComment s = (case cut_at CHR ''#'' s of None \<Rightarrow> s | Some (a, _) \<Rightarrow> a)"

definition Unquote :: "string \<Rightarrow> string" where
  "Unquote s0 =
     (let s = Trim s0 in
      if length s \<ge> 2 \<and> (hd s = CHR 0x22 \<and> last s = CHR 0x22 \<or> hd s = CHR 0x27 \<and> last s = CHR 0x27)
      then butlast (tl s) else s)"

definition lower_char :: "char \<Rightarrow> char" where
  "lower_char c = (let n = of_char c :: nat in if 65 \<le> n \<and> n \<le> 90 then char_of (n + 32) else c)"

definition ParseBool :: "string \<Rightarrow> bool" where
  "ParseBool s = (let v = map lower_char s in v = ''1'' \<or> v = ''true'' \<or> v = ''yes'' \<or> v = ''on'')"

definition newline :: char where
  "newline = CHR 0x0A"

text \<open>\<^verbatim>\<open>cleaned.back() == ':' && cleaned.find(':') == cleaned.size() - 1\<close>.\<close>

definition section_line :: "string \<Rightarrow> bool" where
  "section_line cleaned \<longleftrightarrow> cleaned \<noteq> [] \<and> last cleaned = CHR '':'' \<and> CHR '':'' \<notin> set (butlast cleaned)"

text \<open>\<^verbatim>\<open>static_cast<uintN_t>(std::stoul(value))\<close>.\<close>

definition parse_unsigned :: "nat \<Rightarrow> string \<Rightarrow> int option" where
  "parse_unsigned bits s = map_option (\<lambda>(v, _). v mod 2 ^ bits) (stoull s)"

definition parse_int :: "string \<Rightarrow> int option" where
  "parse_int s = map_option fst (stoi s)"

definition parse_long :: "string \<Rightarrow> int option" where
  "parse_long s = map_option fst (stoll s)"

definition open_error :: "string \<Rightarrow> string" where
  "open_error path = ''failed to open config file: '' @ path"

definition parse_error :: "string \<Rightarrow> nat \<Rightarrow> string" where
  "parse_error what n = ''config parse error at line '' @ nat_str n @ '': '' @ what"

subsection \<open>The server\<close>

record app_config =
  ac_host :: string
  ac_port :: int
  ac_io_threads :: int
  ac_max_packet_size :: int
  ac_heartbeat_timeout :: millis
  ac_match_timeout :: millis
  ac_log_level :: string
  ac_log_dir :: string
  ac_mysql :: mysql_config
  ac_redis :: redis_config
  ac_token_secret :: string
  ac_token_ttl :: int
  ac_structured_log :: bool
  ac_metrics_interval :: millis
  ac_soft_threshold :: bool

definition default_config :: app_config where
  "default_config =
     \<lparr>ac_host = ''0.0.0.0'', ac_port = 9000, ac_io_threads = 2, ac_max_packet_size = 65536,
      ac_heartbeat_timeout = 30000, ac_match_timeout = 30000, ac_log_level = ''info'', ac_log_dir = ''./logs'',
      ac_mysql = \<lparr>my_enabled = False, my_host = ''127.0.0.1'', my_port = 3306, my_user = ''ddz'',
        my_password = ''ddz_pass'', my_database = ''ddz'', my_pool_size = 4\<rparr>,
      ac_redis = \<lparr>rc_enabled = False, rc_host = ''127.0.0.1'', rc_port = 6379, rc_db = 0, rc_password = []\<rparr>,
      ac_token_secret = ''dev_change_me'', ac_token_ttl = 604800, ac_structured_log = True,
      ac_metrics_interval = 30000, ac_soft_threshold = True\<rparr>"

text \<open>The chains of comparisons, one for each section; an unknown key changes nothing.\<close>

definition set_server :: "app_config \<Rightarrow> string \<Rightarrow> string \<Rightarrow> app_config option" where
  "set_server c key v =
     (if key = ''host'' then Some (c\<lparr>ac_host := v\<rparr>)
      else if key = ''port'' then map_option (\<lambda>i. c\<lparr>ac_port := i\<rparr>) (parse_unsigned 16 v)
      else if key = ''io_threads'' then map_option (\<lambda>i. c\<lparr>ac_io_threads := i\<rparr>) (parse_int v)
      else if key = ''max_packet_size'' then map_option (\<lambda>i. c\<lparr>ac_max_packet_size := i\<rparr>) (parse_unsigned 32 v)
      else if key = ''heartbeat_timeout_ms'' then map_option (\<lambda>i. c\<lparr>ac_heartbeat_timeout := i\<rparr>) (parse_long v)
      else if key = ''match_timeout_ms'' then map_option (\<lambda>i. c\<lparr>ac_match_timeout := i\<rparr>) (parse_long v)
      else Some c)"

definition set_log :: "app_config \<Rightarrow> string \<Rightarrow> string \<Rightarrow> app_config option" where
  "set_log c key v =
     (if key = ''level'' then Some (c\<lparr>ac_log_level := v\<rparr>)
      else if key = ''dir'' then Some (c\<lparr>ac_log_dir := v\<rparr>) else Some c)"

definition set_mysql :: "mysql_config \<Rightarrow> string \<Rightarrow> string \<Rightarrow> mysql_config option" where
  "set_mysql m key v =
     (if key = ''enabled'' then Some (m\<lparr>my_enabled := ParseBool v\<rparr>)
      else if key = ''host'' then Some (m\<lparr>my_host := v\<rparr>)
      else if key = ''port'' then map_option (\<lambda>i. m\<lparr>my_port := i\<rparr>) (parse_unsigned 16 v)
      else if key = ''user'' then Some (m\<lparr>my_user := v\<rparr>)
      else if key = ''password'' then Some (m\<lparr>my_password := v\<rparr>)
      else if key = ''database'' then Some (m\<lparr>my_database := v\<rparr>)
      else if key = ''pool_size'' then map_option (\<lambda>i. m\<lparr>my_pool_size := i\<rparr>) (parse_int v)
      else Some m)"

definition set_redis :: "redis_config \<Rightarrow> string \<Rightarrow> string \<Rightarrow> redis_config option" where
  "set_redis r key v =
     (if key = ''enabled'' then Some (r\<lparr>rc_enabled := ParseBool v\<rparr>)
      else if key = ''host'' then Some (r\<lparr>rc_host := v\<rparr>)
      else if key = ''port'' then map_option (\<lambda>i. r\<lparr>rc_port := i\<rparr>) (parse_unsigned 16 v)
      else if key = ''db'' then map_option (\<lambda>i. r\<lparr>rc_db := i\<rparr>) (parse_int v)
      else if key = ''password'' then Some (r\<lparr>rc_password := v\<rparr>)
      else Some r)"

definition set_rest :: "app_config \<Rightarrow> string \<Rightarrow> string \<Rightarrow> string \<Rightarrow> app_config option" where
  "set_rest c section key v =
     (if section = ''auth'' then
        (if key = ''token_secret'' then Some (c\<lparr>ac_token_secret := v\<rparr>)
         else if key = ''token_ttl_seconds'' then map_option (\<lambda>i. c\<lparr>ac_token_ttl := i\<rparr>) (parse_long v)
         else Some c)
      else if section = ''observability'' then
        (if key = ''enable_structured_log'' then Some (c\<lparr>ac_structured_log := ParseBool v\<rparr>)
         else if key = ''metrics_report_interval_ms'' then map_option (\<lambda>i. c\<lparr>ac_metrics_interval := i\<rparr>) (parse_long v)
         else Some c)
      else if section = ''perf'' then
        (if key = ''soft_threshold_enabled'' then Some (c\<lparr>ac_soft_threshold := ParseBool v\<rparr>) else Some c)
      else Some c)"

definition set_key :: "app_config \<Rightarrow> string \<Rightarrow> string \<Rightarrow> string \<Rightarrow> app_config option" where
  "set_key c section key v =
     (if section = ''server'' then set_server c key v
      else if section = ''log'' then set_log c key v
      else if section = ''mysql'' then map_option (\<lambda>m. c\<lparr>ac_mysql := m\<rparr>) (set_mysql (ac_mysql c) key v)
      else if section = ''redis'' then map_option (\<lambda>r. c\<lparr>ac_redis := r\<rparr>) (set_redis (ac_redis c) key v)
      else set_rest c section key v)"

text \<open>The loop over the lines: \<open>n\<close> lines are read; \<open>Some n\<close> is the line of an exception.\<close>

fun load_lines :: "string list \<Rightarrow> nat \<Rightarrow> string \<Rightarrow> app_config \<Rightarrow> app_config \<times> nat option" where
  "load_lines [] n section c = (c, None)"
| "load_lines (line # ls) n section c =
     (let cleaned = Trim (StripComment line) in
      if cleaned = [] then load_lines ls (n + 1) section c
      else if section_line cleaned then load_lines ls (n + 1) (Trim (butlast cleaned)) c
      else case cut_at CHR '':'' cleaned of
             None \<Rightarrow> load_lines ls (n + 1) section c
           | Some (key, v) \<Rightarrow>
               (case set_key c section (Trim key) (Unquote v) of
                  None \<Rightarrow> (c, Some (n + 1))
                | Some c' \<Rightarrow> load_lines ls (n + 1) section c'))"

definition LoadFromFile :: "string \<Rightarrow> string \<Rightarrow> string option \<Rightarrow> app_config \<Rightarrow> app_config \<times> string option" where
  "LoadFromFile what path file c =
     (case file of
        None \<Rightarrow> (c, Some (open_error path))
      | Some content \<Rightarrow>
          (case load_lines (getlines newline content) 0 [] c of
             (c', None) \<Rightarrow> (c', None)
           | (c', Some n) \<Rightarrow> (c', Some (parse_error what n))))"

subsection \<open>The gateway\<close>

record gateway_config =
  gc_listen_host :: string
  gc_listen_port :: int
  gc_upstream_host :: string
  gc_upstream_port :: int
  gc_max_packet_size :: int
  gc_heartbeat_timeout :: millis
  gc_reconnect_backoff :: millis
  gc_dev_key :: string
  gc_token_secret :: string
  gc_token_ttl :: int
  gc_log_level :: string
  gc_log_dir :: string
  gc_origins :: "string list"
  gc_max_connections :: int
  gc_max_messages :: int
  gc_max_http_qps :: int
  gc_ban_seconds :: int
  gc_trust_forwarded :: bool
  gc_structured_log :: bool
  gc_metrics_interval :: millis

definition default_gateway_config :: gateway_config where
  "default_gateway_config =
     \<lparr>gc_listen_host = ''0.0.0.0'', gc_listen_port = 9010, gc_upstream_host = ''127.0.0.1'', gc_upstream_port = 9000,
      gc_max_packet_size = 65536, gc_heartbeat_timeout = 30000, gc_reconnect_backoff = 1000,
      gc_dev_key = ''dev_gateway_key'', gc_token_secret = ''dev_change_me'', gc_token_ttl = 604800,
      gc_log_level = ''info'', gc_log_dir = ''./logs'', gc_origins = [], gc_max_connections = 64,
      gc_max_messages = 60, gc_max_http_qps = 30, gc_ban_seconds = 30, gc_trust_forwarded = False,
      gc_structured_log = True, gc_metrics_interval = 30000\<rparr>"

definition NormalizeOrigin :: "string \<Rightarrow> string" where
  "NormalizeOrigin v0 =
     (let v = Trim v0 in if v \<noteq> [] \<and> last v = CHR ''/'' then butlast v else v)"

definition set_gateway :: "gateway_config \<Rightarrow> string \<Rightarrow> string \<Rightarrow> gateway_config option" where
  "set_gateway c key v =
     (if key = ''listen_host'' then Some (c\<lparr>gc_listen_host := v\<rparr>)
      else if key = ''listen_port'' then map_option (\<lambda>i. c\<lparr>gc_listen_port := i\<rparr>) (parse_unsigned 16 v)
      else if key = ''upstream_host'' then Some (c\<lparr>gc_upstream_host := v\<rparr>)
      else if key = ''upstream_port'' then map_option (\<lambda>i. c\<lparr>gc_upstream_port := i\<rparr>) (parse_unsigned 16 v)
      else if key = ''max_packet_size'' then map_option (\<lambda>i. c\<lparr>gc_max_packet_size := i\<rparr>) (parse_unsigned 32 v)
      else if key = ''heartbeat_timeout_ms'' then map_option (\<lambda>i. c\<lparr>gc_heartbeat_timeout := i\<rparr>) (parse_long v)
      else if key = ''reconnect_backoff_ms'' then map_option (\<lambda>i. c\<lparr>gc_reconnect_backoff := i\<rparr>) (parse_long v)
      else if key = ''dev_key'' then Some (c\<lparr>gc_dev_key := v\<rparr>)
      else Some c)"

definition set_security :: "gateway_config \<Rightarrow> string \<Rightarrow> string \<Rightarrow> gateway_config option" where
  "set_security c key v =
     (if key = ''allowed_origins'' then Some (c\<lparr>gc_origins := []\<rparr>)
      else if key = ''max_ws_connections_per_ip'' then map_option (\<lambda>i. c\<lparr>gc_max_connections := i\<rparr>) (parse_int v)
      else if key = ''max_ws_messages_per_sec'' then map_option (\<lambda>i. c\<lparr>gc_max_messages := i\<rparr>) (parse_int v)
      else if key = ''max_http_qps_per_ip'' then map_option (\<lambda>i. c\<lparr>gc_max_http_qps := i\<rparr>) (parse_int v)
      else if key = ''ban_seconds_on_abuse'' then map_option (\<lambda>i. c\<lparr>gc_ban_seconds := i\<rparr>) (parse_int v)
      else if key = ''trust_x_forwarded_for'' then Some (c\<lparr>gc_trust_forwarded := ParseBool v\<rparr>)
      else Some c)"

definition set_gateway_key :: "gateway_config \<Rightarrow> string \<Rightarrow> string \<Rightarrow> string \<Rightarrow> gateway_config option" where
  "set_gateway_key c section key v =
     (if section = ''gateway'' then set_gateway c key v
      else if section = ''auth'' then
        (if key = ''token_secret'' then Some (c\<lparr>gc_token_secret := v\<rparr>)
         else if key = ''token_ttl_seconds'' then map_option (\<lambda>i. c\<lparr>gc_token_ttl := i\<rparr>) (parse_long v)
         else Some c)
      else if section = ''log'' then
        (if key = ''level'' then Some (c\<lparr>gc_log_level := v\<rparr>)
         else if key = ''dir'' then Some (c\<lparr>gc_log_dir := v\<rparr>) else Some c)
      else if section = ''security'' then set_security c key v
      else if section = ''observability'' then
        (if key = ''enable_structured_log'' then Some (c\<lparr>gc_structured_log := ParseBool v\<rparr>)
         else if key = ''metrics_report_interval_ms'' then map_option (\<lambda>i. c\<lparr>gc_metrics_interval := i\<rparr>) (parse_long v)
         else Some c)
      else Some c)"

text \<open>\<open>in_list\<close> is \<^verbatim>\<open>active_list_key\<close>, which is only ever empty or \<^verbatim>\<open>allowed_origins\<close>. A line
  of an open list is taken (\<open>Inl\<close>) or goes on to the other rules (\<open>Inr\<close>).\<close>

definition list_line :: "string \<Rightarrow> bool \<Rightarrow> string \<Rightarrow> gateway_config \<Rightarrow> gateway_config + bool" where
  "list_line section in_list cleaned c =
     (if \<not> in_list then Inr False
      else if hd cleaned = CHR ''-'' then
        (let item = NormalizeOrigin (Unquote (Trim (tl cleaned))) in
         if item \<noteq> [] \<and> section = ''security'' then Inl (c\<lparr>gc_origins := gc_origins c @ [item]\<rparr>) else Inr True)
      else if CHR '':'' \<notin> set cleaned then Inl c
      else Inr False)"

definition top_level :: "string \<Rightarrow> bool" where
  "top_level line \<longleftrightarrow> line \<noteq> [] \<and> hd line \<noteq> CHR '' '' \<and> hd line \<noteq> CHR 0x09"

text \<open>One line: the section, whether a list is open, and the configuration after it; \<open>None\<close> is an
  exception.\<close>

definition gateway_line ::
    "string \<Rightarrow> string \<Rightarrow> bool \<Rightarrow> gateway_config \<Rightarrow> (string \<times> bool \<times> gateway_config) option" where
  "gateway_line line section in_list c =
     (let cleaned = Trim (StripComment line) in
      if cleaned = [] then Some (section, in_list, c)
      else case list_line section in_list cleaned c of
             Inl c' \<Rightarrow> Some (section, in_list, c')
           | Inr in_list' \<Rightarrow>
               if top_level line \<and> section_line cleaned then Some (Trim (butlast cleaned), False, c)
               else case cut_at CHR '':'' cleaned of
                      None \<Rightarrow> Some (section, in_list', c)
                    | Some (k, v) \<Rightarrow>
                        map_option (\<lambda>c'. (section, in_list' \<or> section = ''security'' \<and> Trim k = ''allowed_origins'', c'))
                          (set_gateway_key c section (Trim k) (Unquote v)))"

fun load_gateway_lines ::
    "string list \<Rightarrow> nat \<Rightarrow> string \<Rightarrow> bool \<Rightarrow> gateway_config \<Rightarrow> gateway_config \<times> nat option" where
  "load_gateway_lines [] n section in_list c = (c, None)"
| "load_gateway_lines (line # ls) n section in_list c =
     (case gateway_line line section in_list c of
        None \<Rightarrow> (c, Some (n + 1))
      | Some (section', in_list', c') \<Rightarrow> load_gateway_lines ls (n + 1) section' in_list' c')"

fun dedup_origins :: "string list \<Rightarrow> string list \<Rightarrow> string list" where
  "dedup_origins [] seen = []"
| "dedup_origins (raw # rs) seen =
     (let origin = NormalizeOrigin raw in
      if origin = [] \<or> origin \<in> set seen then dedup_origins rs seen
      else origin # dedup_origins rs (origin # seen))"

definition gateway_config_ok :: "gateway_config \<Rightarrow> bool" where
  "gateway_config_ok c \<longleftrightarrow>
     \<not> (gc_listen_port c = 0 \<or> gc_upstream_port c = 0 \<or> gc_max_packet_size c < 20 \<or> gc_token_ttl c \<le> 0 \<or>
        gc_heartbeat_timeout c \<le> 0 \<or> gc_reconnect_backoff c \<le> 0 \<or> gc_origins c = [] \<or>
        gc_max_connections c \<le> 0 \<or> gc_max_messages c \<le> 0 \<or> gc_max_http_qps c \<le> 0 \<or>
        gc_ban_seconds c \<le> 0 \<or> gc_metrics_interval c \<le> 0)"

definition LoadGatewayFromFile ::
    "string \<Rightarrow> string \<Rightarrow> string option \<Rightarrow> gateway_config \<Rightarrow> gateway_config \<times> string option" where
  "LoadGatewayFromFile what path file c =
     (case file of
        None \<Rightarrow> (c, Some (open_error path))
      | Some content \<Rightarrow>
          (case load_gateway_lines (getlines newline content) 0 [] False c of
             (c1, Some n) \<Rightarrow> (c1, Some (parse_error what n))
           | (c1, None) \<Rightarrow>
               let c2 = c1\<lparr>gc_origins := dedup_origins (gc_origins c1) []\<rparr> in
               (c2, if gateway_config_ok c2 then None else Some ''invalid gateway config'')))"

subsection \<open>Reading back a written file\<close>

text \<open>Lines as they are written by hand: a section, a quoted text, a plain number or flag.\<close>

definition sec_line :: "string \<Rightarrow> string" where
  "sec_line s = s @ '':''"

definition text_line :: "string \<Rightarrow> string \<Rightarrow> string" where
  "text_line k v = ''  '' @ k @ '': '' @ [CHR 0x22] @ v @ [CHR 0x22]"

definition plain_line :: "string \<Rightarrow> string \<Rightarrow> string" where
  "plain_line k v = ''  '' @ k @ '': '' @ v"

text \<open>Names without spaces, colons and comments; texts without comments and line ends.\<close>

definition name_ok :: "string \<Rightarrow> bool" where
  "name_ok s \<longleftrightarrow> s \<noteq> [] \<and> list_all (\<lambda>c. \<not> is_space c \<and> c \<noteq> CHR '':'' \<and> c \<noteq> CHR ''#'' \<and> c \<noteq> CHR 0x22 \<and> c \<noteq> CHR 0x27) s"

definition text_ok :: "string \<Rightarrow> bool" where
  "text_ok s \<longleftrightarrow> CHR ''#'' \<notin> set s \<and> newline \<notin> set s"

lemma Trim_id: "s \<noteq> [] \<Longrightarrow> \<not> is_space (hd s) \<Longrightarrow> \<not> is_space (last s) \<Longrightarrow> Trim s = s"
proof -
  assume s: "s \<noteq> []" "\<not> is_space (hd s)" "\<not> is_space (last s)"
  have "dropWhile is_space s = s" using s(1,2) by (cases s) auto
  moreover have "dropWhile is_space (rev s) = rev s" using s(1,3) by (cases s rule: rev_cases) auto
  ultimately show "Trim s = s" by (simp add: Trim_def)
qed

lemma Trim_spaces: "list_all is_space a \<Longrightarrow> s \<noteq> [] \<Longrightarrow> \<not> is_space (hd s) \<Longrightarrow> \<not> is_space (last s) \<Longrightarrow> Trim (a @ s) = s"
proof -
  assume a: "list_all is_space a" and s: "s \<noteq> []" "\<not> is_space (hd s)" "\<not> is_space (last s)"
  have "dropWhile is_space (a @ s) = s"
    using a s(1,2) by (induction a) (auto simp: neq_Nil_conv)
  then have "Trim (a @ s) = Trim s" using s(1,2) by (simp add: Trim_def) (cases s; simp)
  then show ?thesis using Trim_id [OF s] by simp
qed

lemma spaces [simp]: "is_space CHR '' ''" "\<not> is_space CHR '':''" "\<not> is_space CHR 0x22"
  by (simp_all add: is_space_def)

lemma StripComment_id: "CHR ''#'' \<notin> set s \<Longrightarrow> StripComment s = s"
  by (simp add: StripComment_def cut_at_None [THEN iffD2])

lemma load_section:
  assumes "name_ok s"
  shows "load_lines (sec_line s # ls) n sec c = load_lines ls (n + 1) s c"
proof -
  have n: "CHR ''#'' \<notin> set s" "CHR '':'' \<notin> set s" "s \<noteq> []" "\<not> is_space (hd s)" "\<not> is_space (last s)"
    using assms by (auto simp: name_ok_def list_all_iff)
  have t: "Trim (StripComment (sec_line s)) = s @ '':''"
    using n by (simp add: sec_line_def StripComment_id Trim_id)
  have "section_line (s @ '':'')" using n(2) by (simp add: section_line_def)
  moreover have "Trim s = s" using n by (intro Trim_id) auto
  ultimately show ?thesis unfolding load_lines.simps Let_def t by simp
qed

lemma load_kv:
  assumes k: "name_ok k" and w: "w \<noteq> []" "CHR ''#'' \<notin> set w" "\<not> is_space (hd w)" "\<not> is_space (last w)"
    "last w \<noteq> CHR '':''"
  shows "load_lines ((''  '' @ k @ '': '' @ w) # ls) n sec c =
    (case set_key c sec k (Unquote w) of
       None \<Rightarrow> (c, Some (n + 1)) | Some c' \<Rightarrow> load_lines ls (n + 1) sec c')"
proof -
  have n: "CHR ''#'' \<notin> set k" "CHR '':'' \<notin> set k" "k \<noteq> []" "\<not> is_space (hd k)" "\<not> is_space (last k)"
    using k by (auto simp: name_ok_def list_all_iff)
  let ?s = "k @ '': '' @ w"
  have "Trim (''  '' @ ?s) = ?s"
    using n w by (intro Trim_spaces) auto
  then have t: "Trim (StripComment (''  '' @ ?s)) = ?s" using n(1) w(2) by (simp add: StripComment_id)
  have sl: "\<not> section_line ?s" using w(1,5) by (simp add: section_line_def)
  have ct: "cut_at CHR '':'' ?s = Some (k, '' '' @ w)" using n(2) by simp
  have uq: "Unquote ('' '' @ w) = Unquote w"
  proof -
    have "Trim ('' '' @ w) = w" using w by (intro Trim_spaces) auto
    moreover have "Trim w = w" using w by (intro Trim_id) auto
    ultimately show ?thesis by (simp only: Unquote_def)
  qed
  have "Trim k = k" using n by (intro Trim_id) auto
  then show ?thesis using n(3) w(1) sl ct uq unfolding load_lines.simps Let_def t by simp
qed

lemma load_text:
  assumes "name_ok k" "text_ok v"
  shows "load_lines (text_line k v # ls) n sec c =
    (case set_key c sec k v of None \<Rightarrow> (c, Some (n + 1)) | Some c' \<Rightarrow> load_lines ls (n + 1) sec c')"
proof -
  let ?w = "[CHR 0x22] @ v @ [CHR 0x22]"
  have "Unquote ?w = v"
  proof -
    have "Trim ?w = ?w" by (rule Trim_id) auto
    then show ?thesis by (simp add: Unquote_def Let_def butlast_append)
  qed
  then show ?thesis
    using load_kv [OF assms(1), of ?w ls n sec c] assms(2) by (simp add: text_line_def text_ok_def)
qed

lemma load_plain:
  assumes "name_ok k" "name_ok v"
  shows "load_lines (plain_line k v # ls) n sec c =
    (case set_key c sec k v of None \<Rightarrow> (c, Some (n + 1)) | Some c' \<Rightarrow> load_lines ls (n + 1) sec c')"
proof -
  have v: "v \<noteq> []" "\<not> is_space (hd v)" "\<not> is_space (last v)" "CHR ''#'' \<notin> set v" "last v \<noteq> CHR '':''"
    "hd v \<noteq> CHR 0x22" "hd v \<noteq> CHR 0x27"
    using assms(2) by (auto simp: name_ok_def list_all_iff)
  have "Unquote v = v" using v(6,7) Trim_id [OF v(1-3)] by (simp add: Unquote_def Let_def)
  then show ?thesis
    using load_kv [OF assms(1), of v ls n sec c] v by (simp add: plain_line_def)
qed

definition bool_text :: "bool \<Rightarrow> string" where
  "bool_text b = (if b then ''true'' else ''false'')"

definition render_server :: "app_config \<Rightarrow> string list" where
  "render_server c =
     [sec_line ''server'', text_line ''host'' (ac_host c), plain_line ''port'' (int_str (ac_port c)),
      plain_line ''io_threads'' (int_str (ac_io_threads c)),
      plain_line ''max_packet_size'' (int_str (ac_max_packet_size c)),
      plain_line ''heartbeat_timeout_ms'' (int_str (ac_heartbeat_timeout c)),
      plain_line ''match_timeout_ms'' (int_str (ac_match_timeout c)),
      sec_line ''log'', text_line ''level'' (ac_log_level c), text_line ''dir'' (ac_log_dir c)]"

definition render_mysql :: "mysql_config \<Rightarrow> string list" where
  "render_mysql m =
     [sec_line ''mysql'', plain_line ''enabled'' (bool_text (my_enabled m)), text_line ''host'' (my_host m),
      plain_line ''port'' (int_str (my_port m)), text_line ''user'' (my_user m),
      text_line ''password'' (my_password m), text_line ''database'' (my_database m),
      plain_line ''pool_size'' (int_str (my_pool_size m))]"

definition render_redis :: "redis_config \<Rightarrow> string list" where
  "render_redis r =
     [sec_line ''redis'', plain_line ''enabled'' (bool_text (rc_enabled r)), text_line ''host'' (rc_host r),
      plain_line ''port'' (int_str (rc_port r)), plain_line ''db'' (int_str (rc_db r)),
      text_line ''password'' (rc_password r)]"

definition render_rest :: "app_config \<Rightarrow> string list" where
  "render_rest c =
     [sec_line ''auth'', text_line ''token_secret'' (ac_token_secret c),
      plain_line ''token_ttl_seconds'' (int_str (ac_token_ttl c)),
      sec_line ''observability'', plain_line ''enable_structured_log'' (bool_text (ac_structured_log c)),
      plain_line ''metrics_report_interval_ms'' (int_str (ac_metrics_interval c)),
      sec_line ''perf'', plain_line ''soft_threshold_enabled'' (bool_text (ac_soft_threshold c))]"

definition render_config :: "app_config \<Rightarrow> string list" where
  "render_config c = render_server c @ render_mysql (ac_mysql c) @ render_redis (ac_redis c) @ render_rest c"

text \<open>A configuration that fits its types: the texts are clean and the numbers have their widths.\<close>

definition config_fits :: "app_config \<Rightarrow> bool" where
  "config_fits c \<longleftrightarrow>
     list_all text_ok [ac_host c, ac_log_level c, ac_log_dir c, my_host (ac_mysql c), my_user (ac_mysql c),
       my_password (ac_mysql c), my_database (ac_mysql c), rc_host (ac_redis c), rc_password (ac_redis c),
       ac_token_secret c] \<and>
     list_all (\<lambda>p. 0 \<le> p \<and> p < 65536) [ac_port c, my_port (ac_mysql c), rc_port (ac_redis c)] \<and>
     list_all in_i32 [ac_io_threads c, my_pool_size (ac_mysql c), rc_db (ac_redis c)] \<and>
     0 \<le> ac_max_packet_size c \<and> ac_max_packet_size c < 2 ^ 32 \<and>
     list_all in_i64 [ac_heartbeat_timeout c, ac_match_timeout c, ac_token_ttl c, ac_metrics_interval c]"

lemma keys_ok [simp]:
  "name_ok ''server''" "name_ok ''host''" "name_ok ''port''" "name_ok ''io_threads''" "name_ok ''max_packet_size''"
  "name_ok ''heartbeat_timeout_ms''" "name_ok ''match_timeout_ms''" "name_ok ''log''" "name_ok ''level''" "name_ok ''dir''"
  "name_ok ''mysql''" "name_ok ''enabled''" "name_ok ''user''" "name_ok ''password''" "name_ok ''database''"
  "name_ok ''pool_size''" "name_ok ''redis''" "name_ok ''db''" "name_ok ''auth''" "name_ok ''token_secret''"
  "name_ok ''token_ttl_seconds''" "name_ok ''observability''" "name_ok ''enable_structured_log''"
  "name_ok ''metrics_report_interval_ms''" "name_ok ''perf''" "name_ok ''soft_threshold_enabled''"
  by code_simp+

lemma values_ok [simp]: "name_ok (int_str i)" "name_ok (bool_text b)"
proof -
  have "is_digit c \<or> c = CHR ''-'' \<Longrightarrow> \<not> is_space c \<and> c \<noteq> CHR '':'' \<and> c \<noteq> CHR ''#'' \<and> c \<noteq> CHR 0x22 \<and> c \<noteq> CHR 0x27" for c
    using is_space_digit [of c] by (auto simp: is_digit_def is_space_def)
  then show "name_ok (int_str i)" using int_str_chars by (auto simp: name_ok_def list_all_iff)
  have "name_ok ''true''" "name_ok ''false''" by code_simp+
  then show "name_ok (bool_text b)" by (simp add: bool_text_def)
qed

lemma parse_back [simp]:
  "ParseBool (bool_text b) = b"
  "in_i32 i \<Longrightarrow> parse_int (int_str i) = Some i"
  "in_i64 i \<Longrightarrow> parse_long (int_str i) = Some i"
  "0 \<le> i \<Longrightarrow> i < 65536 \<Longrightarrow> parse_unsigned 16 (int_str i) = Some i"
  "0 \<le> i \<Longrightarrow> i < 4294967296 \<Longrightarrow> parse_unsigned 32 (int_str i) = Some i"
proof -
  have "ParseBool ''true''" "\<not> ParseBool ''false''" by code_simp+
  then show "ParseBool (bool_text b) = b" by (simp add: bool_text_def)
qed (simp_all add: parse_int_def parse_long_def parse_unsigned_def stoull_int_str)

declare load_lines.simps [simp del]

lemmas load_line = load_section load_text load_plain

lemma load_server:
  assumes "text_ok (ac_host c)" "0 \<le> ac_port c" "ac_port c < 65536" "in_i32 (ac_io_threads c)"
    "0 \<le> ac_max_packet_size c" "ac_max_packet_size c < 4294967296" "in_i64 (ac_heartbeat_timeout c)"
    "in_i64 (ac_match_timeout c)" "text_ok (ac_log_level c)" "text_ok (ac_log_dir c)"
  shows "\<exists>n'. load_lines (render_server c @ ls) n sec c0 =
    load_lines ls n' ''log'' (c0\<lparr>ac_host := ac_host c, ac_port := ac_port c, ac_io_threads := ac_io_threads c,
      ac_max_packet_size := ac_max_packet_size c, ac_heartbeat_timeout := ac_heartbeat_timeout c,
      ac_match_timeout := ac_match_timeout c, ac_log_level := ac_log_level c, ac_log_dir := ac_log_dir c\<rparr>)"
  using assms by (simp add: render_server_def load_line set_key_def set_server_def set_log_def) blast

lemma load_mysql:
  assumes "text_ok (my_host m)" "0 \<le> my_port m" "my_port m < 65536" "text_ok (my_user m)" "text_ok (my_password m)"
    "text_ok (my_database m)" "in_i32 (my_pool_size m)"
  shows "\<exists>n'. load_lines (render_mysql m @ ls) n sec c0 = load_lines ls n' ''mysql'' (c0\<lparr>ac_mysql := m\<rparr>)"
  using assms by (cases m; cases "ac_mysql c0") (auto simp: render_mysql_def load_line set_key_def set_mysql_def)

lemma load_redis:
  assumes "text_ok (rc_host r)" "0 \<le> rc_port r" "rc_port r < 65536" "in_i32 (rc_db r)" "text_ok (rc_password r)"
  shows "\<exists>n'. load_lines (render_redis r @ ls) n sec c0 = load_lines ls n' ''redis'' (c0\<lparr>ac_redis := r\<rparr>)"
  using assms by (cases r; cases "ac_redis c0") (auto simp: render_redis_def load_line set_key_def set_redis_def)

lemma load_rest:
  assumes "text_ok (ac_token_secret c)" "in_i64 (ac_token_ttl c)" "in_i64 (ac_metrics_interval c)"
  shows "load_lines (render_rest c) n sec c0 =
    (c0\<lparr>ac_token_secret := ac_token_secret c, ac_token_ttl := ac_token_ttl c, ac_structured_log := ac_structured_log c,
      ac_metrics_interval := ac_metrics_interval c, ac_soft_threshold := ac_soft_threshold c\<rparr>, None)"
  using assms by (simp add: render_rest_def load_line set_key_def set_rest_def load_lines.simps(1))

lemma load_rendered:
  assumes "config_fits c"
  shows "load_lines (render_config c) n sec c0 = (c, None)"
proof -
  have fit: "list_all text_ok [ac_host c, ac_log_level c, ac_log_dir c, my_host (ac_mysql c), my_user (ac_mysql c),
       my_password (ac_mysql c), my_database (ac_mysql c), rc_host (ac_redis c), rc_password (ac_redis c),
       ac_token_secret c]" using assms by (simp add: config_fits_def)
  let ?c1 = "c0\<lparr>ac_host := ac_host c, ac_port := ac_port c, ac_io_threads := ac_io_threads c,
      ac_max_packet_size := ac_max_packet_size c, ac_heartbeat_timeout := ac_heartbeat_timeout c,
      ac_match_timeout := ac_match_timeout c, ac_log_level := ac_log_level c, ac_log_dir := ac_log_dir c\<rparr>"
  obtain n1 where s: "load_lines (render_config c) n sec c0 =
      load_lines (render_mysql (ac_mysql c) @ render_redis (ac_redis c) @ render_rest c) n1 ''log'' ?c1"
    using load_server [of c _ n sec c0] assms fit by (force simp: render_config_def config_fits_def)
  obtain n2 where m: "load_lines (render_mysql (ac_mysql c) @ render_redis (ac_redis c) @ render_rest c) n1 ''log'' ?c1 =
      load_lines (render_redis (ac_redis c) @ render_rest c) n2 ''mysql'' (?c1\<lparr>ac_mysql := ac_mysql c\<rparr>)"
    using load_mysql [of "ac_mysql c" "render_redis (ac_redis c) @ render_rest c" n1 "''log''" ?c1] assms fit
    by (auto simp: config_fits_def)
  obtain n3 where r: "load_lines (render_redis (ac_redis c) @ render_rest c) n2 ''mysql'' (?c1\<lparr>ac_mysql := ac_mysql c\<rparr>) =
      load_lines (render_rest c) n3 ''redis'' (?c1\<lparr>ac_mysql := ac_mysql c, ac_redis := ac_redis c\<rparr>)"
    using load_redis [of "ac_redis c" "render_rest c" n2 "''mysql''" "?c1\<lparr>ac_mysql := ac_mysql c\<rparr>"] assms fit
    by (auto simp: config_fits_def)
  show ?thesis unfolding s m r using load_rest [of c n3 "''redis''"] assms fit
    by (simp add: config_fits_def)
qed

lemma render_lines:
  assumes "config_fits c"
  shows "list_all (\<lambda>l. newline \<notin> set l) (render_config c)" "render_config c \<noteq> []" "last (render_config c) \<noteq> []"
proof -
  have nl: "newline = CHR 0x0A" by (simp add: newline_def)
  have i: "newline \<notin> set (int_str i)" for i
    using int_str_chars [of newline i] by (auto simp: newline_def is_digit_def)
  have b: "newline \<notin> set (bool_text b)" for b by (simp add: bool_text_def newline_def)
  have fit: "list_all (\<lambda>s. newline \<notin> set s) [ac_host c, ac_log_level c, ac_log_dir c, my_host (ac_mysql c), my_user (ac_mysql c),
       my_password (ac_mysql c), my_database (ac_mysql c), rc_host (ac_redis c), rc_password (ac_redis c),
       ac_token_secret c]" using assms by (simp add: config_fits_def text_ok_def)
  have line: "newline \<notin> set v \<Longrightarrow> newline \<notin> set k \<Longrightarrow> newline \<notin> set (text_line k v) \<and> newline \<notin> set (plain_line k v)" for k v
    by (simp add: text_line_def plain_line_def nl)
  have sec: "newline \<notin> set k \<Longrightarrow> newline \<notin> set (sec_line k)" for k by (simp add: sec_line_def nl)
  have keys: "list_all (\<lambda>k. newline \<notin> set k) [''server'', ''host'', ''port'', ''io_threads'', ''max_packet_size'',
    ''heartbeat_timeout_ms'', ''match_timeout_ms'', ''log'', ''level'', ''dir'', ''mysql'', ''enabled'', ''user'',
    ''password'', ''database'', ''pool_size'', ''redis'', ''db'', ''auth'', ''token_secret'', ''token_ttl_seconds'',
    ''observability'', ''enable_structured_log'', ''metrics_report_interval_ms'', ''perf'', ''soft_threshold_enabled'']"
    by code_simp
  show "list_all (\<lambda>l. newline \<notin> set l) (render_config c)"
    using fit keys i b
    by (simp add: render_config_def render_server_def render_mysql_def render_redis_def render_rest_def line sec)
  show "render_config c \<noteq> []" "last (render_config c) \<noteq> []"
    by (simp_all add: render_config_def render_server_def render_rest_def plain_line_def)
qed

subsection \<open>Properties\<close>

text \<open>A configuration file that writes down every setting of a configuration is loaded as exactly
  that configuration, whatever the settings were before: texts between quotes, also empty ones
  and ones with colons or spaces, numbers within their widths, and flags.\<close>

theorem config_roundtrip:
  assumes "config_fits c"
  shows "LoadFromFile what path (Some (join [newline] (render_config c))) c0 = (c, None)"
proof -
  have "getlines newline (join [newline] (render_config c)) = render_config c"
    by (rule getlines_join) (use render_lines [OF assms] in auto)
  then show ?thesis by (simp add: LoadFromFile_def load_rendered [OF assms])
qed

theorem config_roundtrip_witness:
  "LoadFromFile [] ''server.yaml'' (Some (join [newline] (render_config (default_config\<lparr>ac_port := 9100\<rparr>)))) default_config =
     (default_config\<lparr>ac_port := 9100\<rparr>, None)"
proof -
  have "list_all text_ok [''0.0.0.0'', ''info'', ''./logs'', ''127.0.0.1'', ''ddz'', ''ddz_pass'', [], ''dev_change_me'']"
    by code_simp
  then have "config_fits (default_config\<lparr>ac_port := 9100\<rparr>)"
    by (simp add: config_fits_def default_config_def in_i32_def in_i64_def)
  then show ?thesis by (rule config_roundtrip)
qed

lemma dedup_origins_ok:
  "distinct (dedup_origins rs seen) \<and> set (dedup_origins rs seen) \<inter> set seen = {} \<and> [] \<notin> set (dedup_origins rs seen) \<and>
   set (dedup_origins rs seen) = NormalizeOrigin ` set rs - {[]} - set seen"
proof (induction rs seen rule: dedup_origins.induct)
  case (2 raw rs seen)
  show ?case
  proof (cases "NormalizeOrigin raw = [] \<or> NormalizeOrigin raw \<in> set seen")
    case True
    then show ?thesis using 2(1) [OF refl True] by (auto simp: Let_def)
  next
    case False
    then show ?thesis using 2(2) [OF refl False] by (auto simp: Let_def)
  qed
qed simp

text \<open>What the parsers of the port, size and number fields can return.\<close>

definition gateway_types :: "gateway_config \<Rightarrow> bool" where
  "gateway_types c \<longleftrightarrow>
     0 \<le> gc_listen_port c \<and> gc_listen_port c < 2 ^ 16 \<and> 0 \<le> gc_upstream_port c \<and> gc_upstream_port c < 2 ^ 16 \<and>
     0 \<le> gc_max_packet_size c \<and> gc_max_packet_size c < 2 ^ 32 \<and>
     in_i32 (gc_max_connections c) \<and> in_i32 (gc_max_messages c) \<and> in_i32 (gc_max_http_qps c) \<and>
     in_i32 (gc_ban_seconds c) \<and> in_i64 (gc_heartbeat_timeout c) \<and> in_i64 (gc_reconnect_backoff c) \<and>
     in_i64 (gc_token_ttl c) \<and> in_i64 (gc_metrics_interval c)"

lemma parse_ranges:
  "parse_unsigned bits s = Some i \<Longrightarrow> 0 \<le> i \<and> i < 2 ^ bits" "parse_int s = Some i \<Longrightarrow> in_i32 i"
  "parse_long s = Some i \<Longrightarrow> in_i64 i"
  by (auto simp: parse_unsigned_def parse_int_def parse_long_def stoi_def stoll_def Let_def split: option.splits if_splits)

lemma if_either: "(if b then x else y) = z \<Longrightarrow> (x = z \<Longrightarrow> P) \<Longrightarrow> (y = z \<Longrightarrow> P) \<Longrightarrow> P"
  by (simp split: if_splits)

lemma set_gateway_key_types:
  assumes "set_gateway_key c sec k v = Some c'" "gateway_types c"
  shows "gateway_types c'"
proof -
  have u: "parse_unsigned 16 v = Some i \<Longrightarrow> 0 \<le> i \<and> i < 65536" "parse_unsigned 32 v = Some i \<Longrightarrow> 0 \<le> i \<and> i < 4294967296" for i
    using parse_ranges(1) [of 16 v i] parse_ranges(1) [of 32 v i] by simp_all
  note r = u parse_ranges(2,3) [of v] and t = assms(2) [unfolded gateway_types_def]
  have "set_gateway c k v = Some c' \<Longrightarrow> gateway_types c'"
    unfolding set_gateway_def by (elim if_either; use t in \<open>clarsimp simp: gateway_types_def r\<close>)
  moreover have "set_security c k v = Some c' \<Longrightarrow> gateway_types c'"
    unfolding set_security_def by (elim if_either; use t in \<open>clarsimp simp: gateway_types_def r\<close>)
  ultimately show ?thesis
    using assms(1) unfolding set_gateway_key_def
    by (elim if_either; use t in \<open>clarsimp simp: gateway_types_def r\<close>)
qed

lemma gateway_line_types:
  assumes "gateway_line line sec l c = Some (sec', l', c')" "gateway_types c"
  shows "gateway_types c'"
proof -
  have "gateway_types d" if "list_line sec l x c = Inl d" for x d
    using that assms(2) by (auto simp: list_line_def gateway_types_def Let_def split: if_splits)
  then show ?thesis
    using assms
    by (auto simp: gateway_line_def Let_def split: if_splits sum.splits option.splits prod.splits dest: set_gateway_key_types)
qed

lemma load_gateway_types:
  "load_gateway_lines ls n sec l c = (c', r) \<Longrightarrow> gateway_types c \<Longrightarrow> gateway_types c'"
  by (induction ls n sec l c rule: load_gateway_lines.induct)
    (auto split: option.splits prod.splits dest: gateway_line_types)

text \<open>A gateway configuration that is accepted is usable: ports, packet size, limits and times
  are positive and fit their types, and the allowed origins are a non-empty list of distinct,
  non-empty origins, the normal forms of the ones the file lists. Otherwise the loader reports
  an error.\<close>

theorem gateway_config_bounds:
  assumes "gateway_types c0" "LoadGatewayFromFile what path file c0 = (c, err)"
  shows "gateway_types c \<and>
    (err = None \<longrightarrow>
       1 \<le> gc_listen_port c \<and> gc_listen_port c \<le> 65535 \<and> 1 \<le> gc_upstream_port c \<and> gc_upstream_port c \<le> 65535 \<and>
       20 \<le> gc_max_packet_size c \<and> 0 < gc_token_ttl c \<and> 0 < gc_heartbeat_timeout c \<and> 0 < gc_reconnect_backoff c \<and>
       0 < gc_max_connections c \<and> 0 < gc_max_messages c \<and> 0 < gc_max_http_qps c \<and> 0 < gc_ban_seconds c \<and>
       0 < gc_metrics_interval c \<and> gc_origins c \<noteq> [] \<and> distinct (gc_origins c) \<and> [] \<notin> set (gc_origins c)) \<and>
    (file = None \<longrightarrow> err \<noteq> None \<and> c = c0)"
proof (cases "file")
  case None
  then show ?thesis using assms by (auto simp: LoadGatewayFromFile_def)
next
  case (Some content)
  obtain c1 r where L: "load_gateway_lines (getlines newline content) 0 [] False c0 = (c1, r)" by fastforce
  have t: "gateway_types c1" by (rule load_gateway_types [OF L assms(1)])
  show ?thesis
  proof (cases r)
    case (Some n)
    then have "c = c1" "err \<noteq> None"
      using assms(2) L \<open>file = Some content\<close> by (auto simp: LoadGatewayFromFile_def)
    then show ?thesis using t \<open>file = Some content\<close> by auto
  next
    case None
    let ?c = "c1\<lparr>gc_origins := dedup_origins (gc_origins c1) []\<rparr>"
    have "c = ?c" "err = None \<Longrightarrow> gateway_config_ok ?c"
      using assms(2) L None \<open>file = Some content\<close> by (auto simp: LoadGatewayFromFile_def Let_def split: if_splits)
    moreover have "gateway_types ?c" using t by (simp add: gateway_types_def)
    moreover have "distinct (gc_origins ?c)" "[] \<notin> set (gc_origins ?c)"
      using dedup_origins_ok [of "gc_origins c1" "[]"] by simp_all
    ultimately show ?thesis
      using \<open>file = Some content\<close> by (auto simp: gateway_config_ok_def gateway_types_def)
  qed
qed

theorem gateway_config_bounds_witness:
  "snd (LoadGatewayFromFile [] ''g'' None default_gateway_config) \<noteq> None"
proof -
  have "gateway_types default_gateway_config"
    by (simp add: gateway_types_def default_gateway_config_def in_i32_def in_i64_def)
  from gateway_config_bounds [OF this, of "[]" "''g''" None] show ?thesis by (simp add: LoadGatewayFromFile_def)
qed

end
