(* ===== verification/DdzMetrics.thy ===== *)
theory DdzMetrics
  imports DdzSession
begin

text \<open>
  Metrics, \<^verbatim>\<open>service/observability/observability_service.cpp\<close>: counters and a bounded window of
  latencies for each kind of event, and the report with its percentiles. The gateway keeps the
  same counters in a class of its own, so the window is a locale, \<open>bounded_window\<close>. The iteration
  order of the \<^verbatim>\<open>unordered_map\<close> is the parameter \<open>order\<close> of the report.
\<close>

record event_stats =
  es_total :: "64 word"
  es_success :: "64 word"
  es_fail :: "64 word"
  es_latencies :: "millis list"

definition empty_stats :: event_stats where
  "empty_stats = \<lparr>es_total = 0, es_success = 0, es_fail = 0, es_latencies = []\<rparr>"

record metrics =
  me_structured :: bool
  me_interval :: millis
  me_last_report :: millis
  me_stats :: "string \<rightharpoonup> event_stats"

definition default_metrics :: metrics where
  "default_metrics = \<lparr>me_structured = True, me_interval = 30000, me_last_report = 0, me_stats = Map.empty\<rparr>"

definition ConfigureMetrics :: "metrics \<Rightarrow> bool \<Rightarrow> millis \<Rightarrow> metrics" where
  "ConfigureMetrics m structured interval =
     (let m1 = m\<lparr>me_structured := structured\<rparr>
      in if interval > 0 then m1\<lparr>me_interval := interval\<rparr> else m1)"

text \<open>The window of latencies: at most 20000, and when it grows beyond that the oldest 10000 go.\<close>

definition push_latency :: "millis list \<Rightarrow> millis \<Rightarrow> millis list" where
  "push_latency ls x =
     (if x \<ge> 0 then (let ls' = ls @ [x] in if length ls' > 20000 then drop 10000 ls' else ls') else ls)"

text \<open>The code is its number: a code read from a response need not be one of the enumerators.\<close>

definition Record :: "metrics \<Rightarrow> string \<Rightarrow> int \<Rightarrow> millis \<Rightarrow> metrics" where
  "Record m event code latency =
     (let s = (case me_stats m event of Some s \<Rightarrow> s | None \<Rightarrow> empty_stats);
          s1 = s\<lparr>es_total := es_total s + 1\<rparr>;
          s2 = (if code = code_num OK then s1\<lparr>es_success := es_success s1 + 1\<rparr> else s1\<lparr>es_fail := es_fail s1 + 1\<rparr>);
          s3 = s2\<lparr>es_latencies := push_latency (es_latencies s2) latency\<rparr>
      in m\<lparr>me_stats := (me_stats m)(event \<mapsto> s3)\<rparr>)"

definition Percentile :: "millis list \<Rightarrow> nat \<Rightarrow> millis" where
  "Percentile vals percentile =
     (if vals = [] then 0
      else
        let sorted = sort vals;
            pos = percentile * (length sorted - 1) div 100
        in sorted ! (if pos \<ge> length sorted then length sorted - 1 else pos))"

definition report_event :: "string \<Rightarrow> event_stats \<Rightarrow> string" where
  "report_event name s =
     (if es_total s = 0 then []
      else
        '' '' @ name @ ''.total='' @ nat_str (unat (es_total s)) @
        '' '' @ name @ ''.success='' @ nat_str (unat (es_success s)) @
        '' '' @ name @ ''.fail='' @ nat_str (unat (es_fail s)) @
        (if es_latencies s = [] then []
         else
           '' '' @ name @ ''.p50_ms='' @ int_str (Percentile (es_latencies s) 50) @
           '' '' @ name @ ''.p95_ms='' @ int_str (Percentile (es_latencies s) 95) @
           '' '' @ name @ ''.p99_ms='' @ int_str (Percentile (es_latencies s) 99)))"

definition TryBuildMetricsSnapshot :: "string list \<Rightarrow> metrics \<Rightarrow> millis \<Rightarrow> metrics \<times> string option" where
  "TryBuildMetricsSnapshot order m now =
     (if me_last_report m \<noteq> 0 \<and> now - me_last_report m < me_interval m then (m, None)
      else
        (m\<lparr>me_last_report := now\<rparr>,
         Some (''event=metrics_snapshot trace_id=system'' @
               concat (map (\<lambda>name. case me_stats m name of None \<Rightarrow> [] | Some s \<Rightarrow> report_event name s) order))))"

subsection \<open>A bounded window\<close>

text \<open>Pushing keeps the bound, and what is kept is the end of what was pushed.\<close>

locale bounded_window =
  fixes cap :: nat and push :: "'a list \<Rightarrow> 'a \<Rightarrow> 'a list"
  assumes push_cap: "length xs \<le> cap \<Longrightarrow> length (push xs x) \<le> cap"
    and push_tail: "\<exists>k. push xs x = drop k (xs @ [x]) \<or> push xs x = drop k xs"
begin

lemma pushed_cap: "length xs \<le> cap \<Longrightarrow> length (foldl push xs ys) \<le> cap"
  by (induction ys arbitrary: xs) (auto intro: push_cap)

lemma pushed_members: "set (foldl push xs ys) \<subseteq> set xs \<union> set ys"
proof (induction ys arbitrary: xs)
  case (Cons y ys)
  have "set (push xs y) \<subseteq> insert y (set xs)"
    using push_tail [of xs y] set_drop_subset [of _ "xs @ [y]"] set_drop_subset [of _ xs] by fastforce
  then show ?case using Cons [of "push xs y"] by auto
qed simp

end

interpretation latencies: bounded_window 20000 push_latency
proof (unfold_locales, goal_cases)
  case (2 xs x)
  have "push_latency xs x = drop 10000 (xs @ [x]) \<or> push_latency xs x = drop 0 (xs @ [x]) \<or> push_latency xs x = drop 0 xs"
    by (simp add: push_latency_def Let_def)
  then show ?case by blast
next
  case (1 xs x)
  then show ?case by (auto simp: push_latency_def Let_def)
qed

lemma Percentile_nth:
  "vals \<noteq> [] \<Longrightarrow> p \<le> 100 \<Longrightarrow>
     Percentile vals p = sort vals ! (p * (length vals - 1) div 100) \<and>
     p * (length vals - 1) div 100 < length vals"
proof -
  assume v: "vals \<noteq> []" and p: "p \<le> 100"
  have "p * (length vals - 1) \<le> 100 * (length vals - 1)" using p by simp
  then have "p * (length vals - 1) div 100 \<le> length vals - 1" by linarith
  then have "p * (length vals - 1) div 100 < length vals" using v by (cases vals) auto
  then show ?thesis by (simp add: Percentile_def Let_def v)
qed

lemma Percentile_mono:
  assumes "p \<le> q" "q \<le> 100"
  shows "Percentile vals p \<le> Percentile vals q"
proof (cases "vals = []")
  case False
  have "p * (length vals - 1) div 100 \<le> q * (length vals - 1) div 100" using assms(1) by (intro div_le_mono mult_le_mono1)
  then show ?thesis
    using Percentile_nth [OF False, of p] Percentile_nth [OF False, of q] assms
    by (auto intro!: sorted_nth_mono)
qed (simp add: Percentile_def)

lemma Percentile_member:
  assumes "vals \<noteq> []" "p \<le> 100"
  shows "Percentile vals p \<in> set vals"
proof -
  have "sort vals ! (p * (length vals - 1) div 100) \<in> set (sort vals)"
    using Percentile_nth [OF assms] by (intro nth_mem) simp
  then show ?thesis using Percentile_nth [OF assms] by simp
qed

subsection \<open>Properties\<close>

text \<open>The counters after a run of recorded events.\<close>

definition record_all :: "metrics \<Rightarrow> (string \<times> int \<times> millis) list \<Rightarrow> metrics" where
  "record_all m events = foldl (\<lambda>m (e, c, l). Record m e c l) m events"

definition stats_of :: "metrics \<Rightarrow> string \<Rightarrow> event_stats" where
  "stats_of m e = (case me_stats m e of Some s \<Rightarrow> s | None \<Rightarrow> empty_stats)"

lemma stats_of_Record:
  "stats_of (Record m e' c l) e =
     (if e = e'
      then let s = stats_of m e in
        \<lparr>es_total = es_total s + 1, es_success = es_success s + (if c = code_num OK then 1 else 0),
         es_fail = es_fail s + (if c = code_num OK then 0 else 1), es_latencies = push_latency (es_latencies s) l\<rparr>
      else stats_of m e)"
  by (auto simp: stats_of_def Record_def Let_def empty_stats_def split: option.split)

text \<open>After any run of recorded events the counter of an event is how often it was recorded, the
  successes and the failures add up to it, and at most 20000 latencies are kept, all of them
  recorded; a percentile is one of the kept latencies and larger percentiles are not smaller.\<close>

theorem metrics_count:
  assumes "m = record_all default_metrics events"
  shows "es_total (stats_of m e) = word_of_nat (length (filter (\<lambda>x. fst x = e) events)) \<and>
    es_success (stats_of m e) + es_fail (stats_of m e) = es_total (stats_of m e) \<and>
    length (es_latencies (stats_of m e)) \<le> 20000 \<and>
    set (es_latencies (stats_of m e)) \<subseteq> {l. \<exists>c. (e, c, l) \<in> set events} \<and>
    (es_latencies (stats_of m e) \<noteq> [] \<longrightarrow>
       Percentile (es_latencies (stats_of m e)) 50 \<in> set (es_latencies (stats_of m e))) \<and>
    Percentile (es_latencies (stats_of m e)) 50 \<le> Percentile (es_latencies (stats_of m e)) 95 \<and>
    Percentile (es_latencies (stats_of m e)) 95 \<le> Percentile (es_latencies (stats_of m e)) 99"
proof -
  have "es_total (stats_of (record_all default_metrics events) e) = word_of_nat (length (filter (\<lambda>x. fst x = e) events)) \<and>
    es_success (stats_of (record_all default_metrics events) e) + es_fail (stats_of (record_all default_metrics events) e) =
      es_total (stats_of (record_all default_metrics events) e) \<and>
    es_latencies (stats_of (record_all default_metrics events) e) =
      foldl push_latency [] [l. (e', c, l) \<leftarrow> events, e' = e]"
  proof (induction events rule: rev_induct)
    case Nil
    then show ?case by (simp add: record_all_def stats_of_def default_metrics_def empty_stats_def)
  next
    case (snoc x events)
    obtain e' c l where x: "x = (e', c, l)" by (cases x)
    have "record_all default_metrics (events @ [x]) = Record (record_all default_metrics events) e' c l"
      by (simp add: record_all_def x)
    then show ?case using snoc by (auto simp: stats_of_Record Let_def x algebra_simps)
  qed
  moreover have "set (foldl push_latency [] [l. (e', c, l) \<leftarrow> events, e' = e]) \<subseteq> {l. \<exists>c. (e, c, l) \<in> set events}"
    using latencies.pushed_members [of "[]" "[l. (e', c, l) \<leftarrow> events, e' = e]"] by force
  moreover have "length (foldl push_latency [] [l. (e', c, l) \<leftarrow> events, e' = e]) \<le> 20000"
    by (rule latencies.pushed_cap) simp
  ultimately show ?thesis unfolding assms by (simp add: Percentile_mono Percentile_member)
qed

theorem metrics_count_witness:
  "es_total (stats_of (record_all default_metrics [(''login'', 0, 3), (''match'', 0, 2), (''login'', 4, 5)]) ''login'') = 2"
  using metrics_count [OF refl, of "[(''login'', 0, 3), (''match'', 0, 2), (''login'', 4, 5)]" "''login''"]
  by simp

end
