(* ===== verification/DdzServer.thy ===== *)
theory DdzServer
  imports DdzLogin DdzConfig DdzMetrics
begin

text \<open>
  The game server, \<^verbatim>\<open>server/game_server.cpp\<close>: the handlers of the client messages over the
  services, the notifications they send, the closing of a connection, and the timer. The state
  owns every manager; what goes to the network is the list \<open>sv_out\<close> of effects, in order. Log
  lines are not modelled. The environment is what the server does not decide: the shell, the
  shuffle, the clock (\<open>en_clock e i\<close> is the i-th reading of \<^verbatim>\<open>NowMs()\<close>) and the iteration order of
  the session map. The network is up, so \<^verbatim>\<open>tcp_server_\<close> is never null.
\<close>

record 'w env =
  en_shell :: "'w shell"
  en_shuffle :: "64 word \<Rightarrow> card list \<Rightarrow> card list"
  en_clock :: "nat \<Rightarrow> millis"
  en_order :: "session_manager \<Rightarrow> player_id list"

datatype effect = Send conn_id packet | CloseConn conn_id | CloseIdle millis

record 'w server =
  sv_cfg :: app_config
  sv_front :: "'w front"
  sv_store :: "'w storage"
  sv_settling :: "room_id set"
  sv_metrics :: metrics
  sv_out :: "effect list"
  sv_ticks :: nat
  sv_trace :: "64 word"
  sv_running :: bool

definition sv_core :: "'w server \<Rightarrow> core" where
  "sv_core s = fo_core (sv_front s)"

definition upd_core :: "(core \<Rightarrow> core) \<Rightarrow> 'w server \<Rightarrow> 'w server" where
  "upd_core f s = s\<lparr>sv_front := (sv_front s)\<lparr>fo_core := f (fo_core (sv_front s))\<rparr>\<rparr>"

definition upd_rooms :: "(room_manager \<Rightarrow> room_manager) \<Rightarrow> 'w server \<Rightarrow> 'w server" where
  "upd_rooms f = upd_core (\<lambda>c. c\<lparr>co_rooms := f (co_rooms c)\<rparr>)"

definition NowMs :: "'w env \<Rightarrow> 'w server \<Rightarrow> 'w server \<times> millis" where
  "NowMs e s = (s\<lparr>sv_ticks := sv_ticks s + 1\<rparr>, en_clock e (sv_ticks s))"

definition emit :: "effect \<Rightarrow> 'w server \<Rightarrow> 'w server" where
  "emit x s = s\<lparr>sv_out := sv_out s @ [x]\<rparr>"

definition ttl_ms :: "'w server \<Rightarrow> millis" where
  "ttl_ms s = ac_token_ttl (sv_cfg s) * 1000"

subsection \<open>Message identifiers\<close>

definition MSG_LOGIN_REQ :: "32 word" where "MSG_LOGIN_REQ = 1001"
definition MSG_LOGIN_RESP :: "32 word" where "MSG_LOGIN_RESP = 1002"
definition MSG_HEARTBEAT_REQ :: "32 word" where "MSG_HEARTBEAT_REQ = 1101"
definition MSG_HEARTBEAT_RESP :: "32 word" where "MSG_HEARTBEAT_RESP = 1102"
definition MSG_MATCH_REQ :: "32 word" where "MSG_MATCH_REQ = 2001"
definition MSG_MATCH_RESP :: "32 word" where "MSG_MATCH_RESP = 2002"
definition MSG_CANCEL_MATCH_REQ :: "32 word" where "MSG_CANCEL_MATCH_REQ = 2003"
definition MSG_CANCEL_MATCH_RESP :: "32 word" where "MSG_CANCEL_MATCH_RESP = 2004"
definition MSG_MATCH_SUCCESS_NOTIFY :: "32 word" where "MSG_MATCH_SUCCESS_NOTIFY = 2005"
definition MSG_MATCH_TIMEOUT_NOTIFY :: "32 word" where "MSG_MATCH_TIMEOUT_NOTIFY = 2006"
definition MSG_ROOM_SNAPSHOT_NOTIFY :: "32 word" where "MSG_ROOM_SNAPSHOT_NOTIFY = 3001"
definition MSG_PRIVATE_HAND_NOTIFY :: "32 word" where "MSG_PRIVATE_HAND_NOTIFY = 3002"
definition MSG_PLAYER_RECONNECT_NOTIFY :: "32 word" where "MSG_PLAYER_RECONNECT_NOTIFY = 3003"
definition MSG_PLAYER_ACTION_REQ :: "32 word" where "MSG_PLAYER_ACTION_REQ = 4001"
definition MSG_PLAYER_ACTION_RESP :: "32 word" where "MSG_PLAYER_ACTION_RESP = 4002"
definition MSG_ROOM_STATE_PUSH :: "32 word" where "MSG_ROOM_STATE_PUSH = 4003"
definition MSG_GAME_RESULT_PUSH :: "32 word" where "MSG_GAME_RESULT_PUSH = 4004"
definition MSG_ROOM_STATE_PUSH_V2 :: "32 word" where "MSG_ROOM_STATE_PUSH_V2 = 4005"
definition MSG_GAME_OVER_NOTIFY :: "32 word" where "MSG_GAME_OVER_NOTIFY = 5001"
definition MSG_SETTLEMENT_REQ :: "32 word" where "MSG_SETTLEMENT_REQ = 5002"
definition MSG_SETTLEMENT_RESP :: "32 word" where "MSG_SETTLEMENT_RESP = 5003"
definition MSG_RECONNECT_REQ :: "32 word" where "MSG_RECONNECT_REQ = 6001"
definition MSG_RECONNECT_RESP :: "32 word" where "MSG_RECONNECT_RESP = 6002"
definition MSG_SESSION_REFRESH_REQ :: "32 word" where "MSG_SESSION_REFRESH_REQ = 6103"
definition MSG_SESSION_REFRESH_RESP :: "32 word" where "MSG_SESSION_REFRESH_RESP = 6104"

subsection \<open>Helper functions\<close>

text \<open>\<open>None\<close> is \<^verbatim>\<open>*ok = false\<close>.\<close>

fun parse_cards :: "string list \<Rightarrow> int list option" where
  "parse_cards [] = Some []"
| "parse_cards (item # items) =
     (if item = [] then None
      else case stoll_all item of
             None \<Rightarrow> None
           | Some v \<Rightarrow> map_option (\<lambda>out. to_i32 v # out) (parse_cards items))"

definition ParseCardList :: "string \<Rightarrow> int list option" where
  "ParseCardList text = (if text = [] then Some [] else parse_cards (getlines CHR '','' text))"

definition JoinNumberList :: "int list \<Rightarrow> string" where
  "JoinNumberList vals = join '','' (map int_str vals)"

definition BuildCardCountList :: "(player_id \<times> int) list \<Rightarrow> string" where
  "BuildCardCountList counts = join '','' (map (\<lambda>(p, n). int_str p @ '':'' @ int_str n) counts)"

definition GenerateTraceId :: "'w env \<Rightarrow> 'w server \<Rightarrow> conn_id \<Rightarrow> 32 word \<Rightarrow> 'w server \<times> string" where
  "GenerateTraceId e s conn seq_id =
     (case NowMs e s of
        (s1, now) \<Rightarrow>
          (s1\<lparr>sv_trace := sv_trace s1 + 1\<rparr>,
           int_str now @ ''-'' @ int_str conn @ ''-'' @ nat_str (unat seq_id) @ ''-'' @ nat_str (unat (sv_trace s1))))"

definition EventNameByMsgId :: "32 word \<Rightarrow> string" where
  "EventNameByMsgId m =
     (if m = MSG_LOGIN_REQ then ''login''
      else if m = MSG_HEARTBEAT_REQ then ''heartbeat''
      else if m = MSG_MATCH_REQ then ''match''
      else if m = MSG_CANCEL_MATCH_REQ then ''cancel_match''
      else if m = MSG_RECONNECT_REQ then ''reconnect''
      else if m = MSG_SESSION_REFRESH_REQ then ''session_refresh''
      else if m = MSG_PLAYER_ACTION_REQ then ''player_action''
      else if m = MSG_SETTLEMENT_REQ then ''settlement_request''
      else ''unknown'')"

definition ParseCodeFromResponseBody :: "string \<Rightarrow> int" where
  "ParseCodeFromResponseBody body =
     (case ParseKvBody body ''code'' of
        None \<Rightarrow> code_num UNKNOWN_ERROR
      | Some v \<Rightarrow> (case stoi v of None \<Rightarrow> code_num UNKNOWN_ERROR | Some (i, _) \<Rightarrow> i))"

definition ParseGatewayTraceFields :: "string \<Rightarrow> string \<times> string" where
  "ParseGatewayTraceFields body =
     (let kv = ParseKvBody body; field = (\<lambda>k. case kv k of Some v \<Rightarrow> v | None \<Rightarrow> [])
      in (field ''h5_request_id'', field ''gateway_trace_id''))"

definition AppendKvFieldIfMissing :: "string \<Rightarrow> string \<Rightarrow> string \<Rightarrow> string" where
  "AppendKvFieldIfMissing body key v =
     (if v = [] then body
      else if ParseKvBody body key \<noteq> None then body
      else (if body \<noteq> [] then body @ '';'' else body) @ key @ ''='' @ v)"

fun has_substring :: "string \<Rightarrow> string \<Rightarrow> bool" where
  "has_substring pat [] = (pat = [])"
| "has_substring pat (c # s) = (take (length pat) (c # s) = pat \<or> has_substring pat s)"

definition NormalizeActionReason :: "string \<Rightarrow> string" where
  "NormalizeActionReason err =
     (if err = ''not player turn'' then ''not_your_turn''
      else if has_substring ''action not allowed'' err then ''action_not_allowed''
      else if err = ''invalid card combo'' then ''invalid_combo''
      else if err = ''combo cannot beat previous'' then ''cannot_beat_previous''
      else if err = ''cards not in hand'' then ''cards_not_in_hand''
      else if has_substring ''invalid'' err then ''invalid_packet''
      else ''action_failed'')"

definition flag :: "bool \<Rightarrow> string" where
  "flag b = (if b then ''1'' else ''0'')"

definition code_field :: "error_code \<Rightarrow> string \<times> string" where
  "code_field c = (''code'', int_str (code_num c))"

subsection \<open>Notifications\<close>

definition notify :: "32 word \<Rightarrow> player_id \<Rightarrow> (string \<times> string) list \<Rightarrow> packet" where
  "notify msg p fs = \<lparr>pk_msg_id = msg, pk_seq_id = 0, pk_player_id = p, pk_body = BuildKvBody fs\<rparr>"

text \<open>The loop over players that skips those without a connection.\<close>

definition for_online ::
    "('w server \<Rightarrow> player_id \<Rightarrow> conn_id \<Rightarrow> 'w server) \<Rightarrow> 'w server \<Rightarrow> player_id list \<Rightarrow> 'w server" where
  "for_online f s ps =
     foldl (\<lambda>s p. case GetConnectionIdByPlayer (co_sessions (sv_core s)) p of
                    None \<Rightarrow> s
                  | Some conn \<Rightarrow> f s p conn) s ps"

text \<open>\<^verbatim>\<open>if (redis_store_.enabled()) redis_store_.UpsertSession(...)\<close>, the result ignored.\<close>

definition redis_session :: "'w env \<Rightarrow> 'w server \<Rightarrow> player_id \<Rightarrow> room_id \<Rightarrow> 'w server" where
  "redis_session e s p rid =
     (if redis_ready (sv_front s)
      then s\<lparr>sv_front := fst (with_redis (\<lambda>r w. UpsertSession (en_shell e) 0 r w p rid (ttl_ms s)) (sv_front s))\<rparr>
      else s)"

definition redis_presence :: "'w env \<Rightarrow> 'w server \<Rightarrow> player_id \<Rightarrow> bool \<Rightarrow> room_id \<Rightarrow> 'w server" where
  "redis_presence e s p online rid =
     (if redis_ready (sv_front s)
      then redis_session e
        (s\<lparr>sv_front := fst (with_redis (\<lambda>r w. SetOnline (en_shell e) 0 r w p online (ttl_ms s)) (sv_front s))\<rparr>) p rid
      else s)"

definition NotifyMatchSuccess :: "'w env \<Rightarrow> 'w server \<Rightarrow> room_id \<Rightarrow> int \<Rightarrow> player_id list \<Rightarrow> 'w server" where
  "NotifyMatchSuccess e s rid mode ps =
     for_online (\<lambda>s p conn.
       let s1 = emit (Send conn (notify MSG_MATCH_SUCCESS_NOTIFY p
                   [(''room_id'', int_str rid), (''mode'', int_str mode), (''players'', JoinNumberList ps)])) s;
           s2 = upd_rooms (\<lambda>m. fst (MarkPlayerOnline m p)) s1
       in redis_session e s2 p rid) s ps"

definition NotifyMatchTimeout :: "'w server \<Rightarrow> (player_id \<times> int) list \<Rightarrow> 'w server" where
  "NotifyMatchTimeout s events =
     foldl (\<lambda>s (p, mode).
       case GetConnectionIdByPlayer (co_sessions (sv_core s)) p of
         None \<Rightarrow> s
       | Some conn \<Rightarrow>
           emit (Send conn (notify MSG_MATCH_TIMEOUT_NOTIFY p [code_field MATCH_TIMEOUT, (''mode'', int_str mode)])) s)
       s events"

definition snapshot_fields :: "room_snapshot \<Rightarrow> (string \<times> string) list" where
  "snapshot_fields sn =
     [(''room_id'', int_str (sn_room_id sn)), (''room_state'', int_str (sn_room_state sn)),
      (''players'', JoinNumberList (sn_players sn)), (''current_operator_player_id'', int_str (sn_operator sn)),
      (''landlord_player_id'', int_str (sn_landlord sn)), (''base_coin'', int_str (sn_base_coin sn)),
      (''snapshot_version'', int_str (sn_version sn)), (''last_action_seq'', int_str (sn_action_seq sn)),
      (''players_online_bitmap'', sn_online_bitmap sn), (''trustee_players'', sn_trustee_players sn),
      (''nearest_offline_deadline_ms'', int_str (sn_nearest_deadline sn))]"

definition NotifyRoomSnapshot :: "'w server \<Rightarrow> player_id \<Rightarrow> conn_id \<Rightarrow> room_snapshot \<Rightarrow> 'w server" where
  "NotifyRoomSnapshot s p conn sn =
     emit (Send conn (notify MSG_ROOM_SNAPSHOT_NOTIFY p
       [(''room_id'', int_str (sn_room_id sn)), (''mode'', int_str (sn_mode sn)),
        (''room_state'', int_str (sn_room_state sn)), (''players'', JoinNumberList (sn_players sn)),
        (''current_operator_player_id'', int_str (sn_operator sn)),
        (''remain_seconds'', int_str (sn_remain_seconds sn)),
        (''landlord_player_id'', int_str (sn_landlord sn)), (''base_coin'', int_str (sn_base_coin sn)),
        (''snapshot_version'', int_str (sn_version sn)), (''last_action_seq'', int_str (sn_action_seq sn)),
        (''players_online_bitmap'', sn_online_bitmap sn), (''trustee_players'', sn_trustee_players sn),
        (''nearest_offline_deadline_ms'', int_str (sn_nearest_deadline sn))])) s"

definition NotifyPrivateHandByConnection ::
    "'w server \<Rightarrow> player_id \<Rightarrow> conn_id \<Rightarrow> room_id \<Rightarrow> int \<Rightarrow> 'w server" where
  "NotifyPrivateHandByConnection s p conn rid version =
     (if rid \<le> 0 then s
      else case GetPlayerHand (co_rooms (sv_core s)) rid p of
             None \<Rightarrow> s
           | Some hand \<Rightarrow>
               emit (Send conn (notify MSG_PRIVATE_HAND_NOTIFY p
                 [(''room_id'', int_str rid), (''player_id'', int_str p), (''cards'', JoinNumberList hand),
                  (''card_count'', int_str (int (length hand))), (''snapshot_version'', int_str version)])) s)"

definition NotifyPrivateHandsInRoom :: "'w server \<Rightarrow> room_id \<Rightarrow> int \<Rightarrow> 'w server" where
  "NotifyPrivateHandsInRoom s rid version =
     (if rid \<le> 0 then s
      else case GetRoomById (co_rooms (sv_core s)) rid of
             None \<Rightarrow> s
           | Some r \<Rightarrow>
               if \<not> rm_dealt r then s
               else for_online (\<lambda>s p conn. NotifyPrivateHandByConnection s p conn rid version) s (rm_players r))"

definition NotifyPlayerReconnectInRoom :: "'w server \<Rightarrow> room_id \<Rightarrow> player_id \<Rightarrow> 'w server" where
  "NotifyPlayerReconnectInRoom s rid who =
     (case GetRoomById (co_rooms (sv_core s)) rid of
        None \<Rightarrow> s
      | Some r \<Rightarrow>
          for_online (\<lambda>s p conn. emit (Send conn (notify MSG_PLAYER_RECONNECT_NOTIFY p
              [(''room_id'', int_str rid), (''player_id'', int_str who)])) s)
            s (filter (\<lambda>p. p \<noteq> who) (rm_players r)))"

definition NotifyRoomStatePush :: "'w server \<Rightarrow> room_id \<Rightarrow> room_snapshot \<Rightarrow> 'w server" where
  "NotifyRoomStatePush s rid sn =
     (case GetRoomById (co_rooms (sv_core s)) rid of
        None \<Rightarrow> s
      | Some r \<Rightarrow>
          for_online (\<lambda>s p conn. emit (Send conn (notify MSG_ROOM_STATE_PUSH p (snapshot_fields sn))) s)
            s (rm_players r))"

definition push_fields :: "push_snapshot \<Rightarrow> (string \<times> string) list" where
  "push_fields v2 =
     snapshot_fields (ps_base v2) @
     [(''last_play_player_id'', int_str (ps_last_player v2)),
      (''last_play_cards'', JoinNumberList (ps_last_cards v2)),
      (''player_card_counts'', BuildCardCountList (ps_card_counts v2)),
      (''landlord_bottom_cards'', JoinNumberList (ps_bottom v2)),
      (''action_deadline_ms'', int_str (ps_deadline v2))]"

definition NotifyRoomStatePushV2 :: "'w server \<Rightarrow> room_id \<Rightarrow> push_snapshot \<Rightarrow> 'w server" where
  "NotifyRoomStatePushV2 s rid v2 =
     (case GetRoomById (co_rooms (sv_core s)) rid of
        None \<Rightarrow> s
      | Some r \<Rightarrow>
          for_online (\<lambda>s p conn. emit (Send conn (notify MSG_ROOM_STATE_PUSH_V2 p (push_fields v2))) s)
            s (rm_players r))"

text \<open>\<^verbatim>\<open>if (const auto push_v2 = room_manager_.BuildPushSnapshotV2ByRoomId(...); ...)\<close>.\<close>

definition push_v2 :: "'w server \<Rightarrow> room_id \<Rightarrow> 'w server" where
  "push_v2 s rid =
     (case BuildPushSnapshotV2ByRoomId (co_rooms (sv_core s)) rid of
        None \<Rightarrow> s
      | Some v2 \<Rightarrow> NotifyRoomStatePushV2 s rid v2)"

definition NotifyGameOver :: "'w env \<Rightarrow> 'w server \<Rightarrow> settlement_result \<Rightarrow> 'w server" where
  "NotifyGameOver e s res =
     foldl (\<lambda>s x.
       case GetConnectionIdByPlayer (co_sessions (sv_core s)) (sp_player x) of
         None \<Rightarrow> s
       | Some conn \<Rightarrow>
           let n = notify MSG_GAME_OVER_NOTIFY (sp_player x)
                 [(''room_id'', int_str (se_room res)), (''winner_player_id'', int_str (se_winner res)),
                  (''coin_change'', int_str (sp_change x)), (''after_coin'', int_str (sp_after x))]
           in redis_session e (emit (Send conn (n\<lparr>pk_msg_id := MSG_GAME_RESULT_PUSH\<rparr>)) (emit (Send conn n) s))
                (sp_player x) 0)
       s (se_players res)"

subsection \<open>Settlement from the server\<close>

text \<open>\<^verbatim>\<open>SettleByServerResult\<close> on the server's state, with the clock readings around it and the
  record of its duration. The commands of the storage and of Redis act on the same world.\<close>

definition settle_now ::
    "'w env \<Rightarrow> string \<Rightarrow> 'w server \<Rightarrow> decision \<Rightarrow> 'w server \<times> settlement_result" where
  "settle_now e event s0 d =
     (case NowMs e s0 of
        (s1, begin) \<Rightarrow>
          (case NowMs e s1 of
             (s2, now) \<Rightarrow>
               (case SettleByServerResult (en_shell e)
                   \<lparr>ts_core = sv_core s2, ts_store = (sv_store s2)\<lparr>st_world := fo_world (sv_front s2)\<rparr>,
                    ts_settling = sv_settling s2\<rparr> d now of
                  (ts, res) \<Rightarrow>
                    let s3 = s2\<lparr>sv_front := (sv_front s2)\<lparr>fo_core := ts_core ts, fo_world := st_world (ts_store ts)\<rparr>,
                                sv_store := ts_store ts, sv_settling := ts_settling ts\<rparr>
                    in (case NowMs e s3 of
                          (s4, stop) \<Rightarrow>
                            (s4\<lparr>sv_metrics := Record (sv_metrics s4) event (code_num (se_code res)) (stop - begin)\<rparr>,
                             res)))))"

text \<open>\<^verbatim>\<open>if (settle_result.code == ErrorCode::OK) NotifyGameOver(settle_result)\<close>.\<close>

definition settle_and_notify ::
    "'w env \<Rightarrow> string \<Rightarrow> 'w server \<Rightarrow> decision \<Rightarrow> 'w server \<times> settlement_result" where
  "settle_and_notify e event s d =
     (case settle_now e event s d of
        (s', res) \<Rightarrow> (if se_code res = OK then NotifyGameOver e s' res else s', res))"

text \<open>What both the player's and the trustee's action push to the room.\<close>

definition push_action :: "'w server \<Rightarrow> room_id \<Rightarrow> room_snapshot \<Rightarrow> 'w server" where
  "push_action s rid sn =
     NotifyPrivateHandsInRoom (push_v2 (NotifyRoomStatePush s rid sn) rid) rid (sn_version sn)"

subsection \<open>The handlers\<close>

definition reply :: "32 word \<Rightarrow> packet \<Rightarrow> player_id \<Rightarrow> (string \<times> string) list \<Rightarrow> packet" where
  "reply msg request p fs =
     \<lparr>pk_msg_id = msg, pk_seq_id = pk_seq_id request, pk_player_id = p, pk_body = BuildKvBody fs\<rparr>"

definition kick :: "conn_id option \<Rightarrow> conn_id \<Rightarrow> 'w server \<Rightarrow> 'w server" where
  "kick old conn s = (case old of None \<Rightarrow> s | Some c \<Rightarrow> if c \<noteq> conn then emit (CloseConn c) s else s)"

text \<open>What a player gets who comes back to a room, after a login or a reconnection.\<close>

definition resume_room :: "'w server \<Rightarrow> player_id \<Rightarrow> conn_id \<Rightarrow> room_id \<Rightarrow> room_snapshot \<Rightarrow> 'w server" where
  "resume_room s p conn rid sn =
     (let s1 = upd_rooms (\<lambda>m. fst (MarkPlayerOnline m p)) s;
          s2 = NotifyRoomSnapshot s1 p conn sn;
          s3 = NotifyPrivateHandByConnection s2 p conn rid (sn_version sn);
          s4 = push_v2 s3 rid
      in NotifyPlayerReconnectInRoom s4 rid p)"

definition version_of :: "room_snapshot option \<Rightarrow> int" where
  "version_of sn = (case sn of Some x \<Rightarrow> sn_version x | None \<Rightarrow> 0)"

definition on_login :: "'w env \<Rightarrow> 'w server handler" where
  "on_login e s request conn =
     (case NowMs e s of
        (s1, now) \<Rightarrow>
          (case HandleLogin (en_shell e) (sv_front s1) conn (pk_body request) now of
             (fr, r) \<Rightarrow>
               let s2 = s1\<lparr>sv_front := fr\<rparr>;
                   sn = (if lr_code r = OK \<and> lr_reconnect r \<and> lr_room r > 0
                         then BuildSnapshotByRoomId (co_rooms (sv_core s2)) (lr_room r) else None);
                   response = reply MSG_LOGIN_RESP request (lr_player r)
                     [code_field (lr_code r), (''player_id'', int_str (lr_player r)), (''nickname'', lr_nickname r),
                      (''coin'', int_str (lr_coin r)), (''room_id'', int_str (lr_room r)),
                      (''reconnect_mode'', flag (lr_reconnect r)), (''snapshot_version'', int_str (version_of sn)),
                      (''token'', lr_token r), (''expire_at_ms'', int_str (lr_expire r))];
                   s3 = kick (lr_kick r) conn s2;
                   s4 = (case sn of
                           Some x \<Rightarrow> if lr_code r = OK \<and> lr_reconnect r
                                     then resume_room s3 (lr_player r) conn (lr_room r) x else s3
                         | None \<Rightarrow> s3)
               in (s4, Some (response, True))))"

definition on_heartbeat :: "'w env \<Rightarrow> 'w server handler" where
  "on_heartbeat e s request conn =
     (case NowMs e s of
        (s1, now) \<Rightarrow>
          (case UpdateHeartbeatByConnection (co_sessions (sv_core s1)) conn now of
             (sm, ok) \<Rightarrow>
               let s2 = upd_core (\<lambda>c. c\<lparr>co_sessions := sm\<rparr>) s1;
                   response = reply MSG_HEARTBEAT_RESP request (pk_player_id request)
               in if \<not> ok then (s2, Some (response [code_field NOT_LOGIN], True))
                  else
                    let s3 = (case GetPlayerIdByConnection (co_sessions (sv_core s2)) conn of
                                None \<Rightarrow> s2
                              | Some p \<Rightarrow>
                                  (case GetSessionByPlayer (co_sessions (sv_core s2)) p of
                                     None \<Rightarrow> s2
                                   | Some x \<Rightarrow> redis_presence e s2 p True (ss_room x)))
                    in (s3, Some (response [code_field OK], True))))"

definition on_match :: "'w env \<Rightarrow> 'w server handler" where
  "on_match e s request conn =
     (case NowMs e s of
        (s1, now) \<Rightarrow>
          (case HandleMatch (sv_core s1) conn (pk_body request) now of
             (c, r) \<Rightarrow>
               let s2 = upd_core (\<lambda>_. c) s1;
                   s3 = (if mr_matched r then NotifyMatchSuccess e s2 (mr_room r) (mr_mode r) (mr_players r) else s2)
               in (s3, Some (reply MSG_MATCH_RESP request (mr_player r) [code_field (mr_code r)], True))))"

definition on_cancel_match :: "'w env \<Rightarrow> 'w server handler" where
  "on_cancel_match e s request conn =
     (case HandleCancelMatch (sv_core s) conn of
        (c, code, p) \<Rightarrow>
          (upd_core (\<lambda>_. c) s, Some (reply MSG_CANCEL_MATCH_RESP request p [code_field code], True)))"

definition on_reconnect :: "'w env \<Rightarrow> 'w server handler" where
  "on_reconnect e s request conn =
     (case NowMs e s of
        (s1, now) \<Rightarrow>
          (case HandleReconnect (en_shell e) (sv_front s1) conn (pk_body request) now of
             (fr, r) \<Rightarrow>
               let s2 = s1\<lparr>sv_front := fr\<rparr>;
                   response = reply MSG_RECONNECT_RESP request (rr_player r)
                     [code_field (rr_code r), (''player_id'', int_str (rr_player r)), (''room_id'', int_str (rr_room r)),
                      (''snapshot_version'', int_str (version_of (rr_snapshot r))),
                      (''reason'', if rr_reason r = [] then ''unknown_error'' else rr_reason r)];
                   s3 = kick (rr_kick r) conn s2;
                   s4 = (case rr_snapshot r of
                           Some x \<Rightarrow> if rr_code r = OK \<or> rr_code r = SNAPSHOT_VERSION_CONFLICT
                                     then resume_room s3 (rr_player r) conn (sn_room_id x) x else s3
                         | None \<Rightarrow> s3)
               in (s4, Some (response, True))))"

definition on_session_refresh :: "'w env \<Rightarrow> 'w server handler" where
  "on_session_refresh e s request conn =
     (case NowMs e s of
        (s1, now) \<Rightarrow>
          (case HandleSessionRefresh (en_shell e) (sv_front s1) (pk_body request) now of
             (fr, r) \<Rightarrow>
               (s1\<lparr>sv_front := fr\<rparr>,
                Some (reply MSG_SESSION_REFRESH_RESP request (rf_player r)
                  [code_field (rf_code r), (''player_id'', int_str (rf_player r)), (''room_id'', int_str (rf_room r)),
                   (''token'', rf_token r), (''expire_at_ms'', int_str (rf_expire r)),
                   (''reason'', if rf_reason r = [] then ''unknown_error'' else rf_reason r)], True))))"

text \<open>The fields of an action request. Numbers are read by \<^verbatim>\<open>std::stoll\<close> without a check of what
  follows them, and cut to 32 bits; \<open>None\<close> is the answer \<^verbatim>\<open>invalid_packet\<close>.\<close>

definition action_number :: "kv_map \<Rightarrow> string \<Rightarrow> int option" where
  "action_number kv key =
     (case kv key of None \<Rightarrow> None | Some v \<Rightarrow> map_option (\<lambda>(i, _). to_i32 i) (stoll v))"

definition read_action :: "kv_map \<Rightarrow> int \<Rightarrow> action_request option" where
  "read_action kv t =
     (if t = 1 then
        map_option (\<lambda>n. empty_request\<lparr>rq_type := ActCallScore, rq_call_score := n\<rparr>) (action_number kv ''score'')
      else if t = 2 then
        map_option (\<lambda>n. empty_request\<lparr>rq_type := ActRobLandlord, rq_rob := n\<rparr>) (action_number kv ''rob'')
      else if t = 3 then
        (case kv ''cards'' of
           None \<Rightarrow> None
         | Some text \<Rightarrow>
             map_option (\<lambda>cs. empty_request\<lparr>rq_type := ActPlayCards, rq_cards := cs\<rparr>) (ParseCardList text))
      else if t = 4 then Some (empty_request\<lparr>rq_type := ActPass\<rparr>)
      else None)"

definition ParseActionBody :: "string \<Rightarrow> (room_id \<times> action_request) option" where
  "ParseActionBody body =
     (let kv = ParseKvBody body in
      case (kv ''room_id'', kv ''action_type'') of
        (Some room_text, Some type_text) \<Rightarrow>
          (case (stoll room_text, stoll type_text) of
             (Some (rid, _), Some (t, _)) \<Rightarrow>
               if rid \<le> 0 \<or> to_i32 t \<le> 0 then None
               else map_option (\<lambda>q. (rid, q)) (read_action kv (to_i32 t))
           | _ \<Rightarrow> None)
      | _ \<Rightarrow> None)"

definition action_fields :: "error_code \<Rightarrow> action_result \<Rightarrow> int \<Rightarrow> (string \<times> string) list" where
  "action_fields code res record =
     (let sn = ar_snapshot res in
      [code_field code, (''reason'', if code = OK then ''ok'' else ''settlement_failed''),
       (''room_id'', int_str (sn_room_id sn)), (''room_state'', int_str (sn_room_state sn)),
       (''current_operator_player_id'', int_str (sn_operator sn)),
       (''landlord_player_id'', int_str (sn_landlord sn)), (''base_coin'', int_str (sn_base_coin sn)),
       (''snapshot_version'', int_str (sn_version sn)), (''last_action_seq'', int_str (sn_action_seq sn)),
       (''game_over'', flag (ar_game_over res)), (''winner_player_id'', int_str (ar_winner res)),
       (''record_id'', int_str record)])"

text \<open>After an accepted action: the pushes, and the settlement when the game is over.\<close>

definition finish_action ::
    "'w env \<Rightarrow> 'w server \<Rightarrow> room_id \<Rightarrow> action_result \<Rightarrow> 'w server \<times> error_code \<times> int" where
  "finish_action e s rid res =
     (let s1 = push_action s rid (ar_snapshot res) in
      if \<not> ar_game_over res then (s1, OK, 0)
      else
        (case settle_and_notify e ''auto_settlement'' s1
            \<lparr>de_room = rid, de_winner = ar_winner res, de_base = ar_base_coin res\<rparr> of
           (s2, r) \<Rightarrow> if se_code r = OK then (s2, OK, se_record r) else (s2, se_code r, 0)))"

definition on_player_action :: "'w env \<Rightarrow> 'w server handler" where
  "on_player_action e s request conn =
     (let response = reply MSG_PLAYER_ACTION_RESP request;
          answer = (\<lambda>s p code reason. (s, Some (response p [code_field code, (''reason'', reason)], True))) in
      case GetPlayerIdByConnection (co_sessions (sv_core s)) conn of
        None \<Rightarrow> answer s 0 NOT_LOGIN ''not_login''
      | Some p \<Rightarrow>
          (case ParseActionBody (pk_body request) of
             None \<Rightarrow> answer s p INVALID_PACKET ''invalid_packet''
           | Some (rid, q) \<Rightarrow>
               (case ApplyPlayerAction (en_shuffle e) (co_rooms (sv_core s)) rid p q of
                  (rooms, Inl err) \<Rightarrow>
                    answer (upd_rooms (\<lambda>_. rooms) s) p INVALID_PLAYER_STATE (NormalizeActionReason err)
                | (rooms, Inr res) \<Rightarrow>
                    (case finish_action e (upd_rooms (\<lambda>_. rooms) s) rid res of
                       (s', code, record) \<Rightarrow> (s', Some (response p (action_fields code res record), True))))))"

definition on_settlement_request :: "'w env \<Rightarrow> 'w server handler" where
  "on_settlement_request e s request conn =
     (s, Some (reply MSG_SETTLEMENT_RESP request (pk_player_id request)
        [code_field INVALID_PACKET, (''reason'', ''invalid_packet'')], True))"

definition RegisterHandlers :: "'w env \<Rightarrow> 'w server dispatcher \<Rightarrow> 'w server dispatcher" where
  "RegisterHandlers e d =
     foldl (\<lambda>d (m, h). Register d m h) d
       [(MSG_LOGIN_REQ, on_login e), (MSG_HEARTBEAT_REQ, on_heartbeat e), (MSG_MATCH_REQ, on_match e),
        (MSG_CANCEL_MATCH_REQ, on_cancel_match e), (MSG_RECONNECT_REQ, on_reconnect e),
        (MSG_SESSION_REFRESH_REQ, on_session_refresh e), (MSG_PLAYER_ACTION_REQ, on_player_action e),
        (MSG_SETTLEMENT_REQ, on_settlement_request e)]"

definition server_dispatcher :: "'w env \<Rightarrow> 'w server dispatcher" where
  "server_dispatcher e = RegisterHandlers e Map.empty"

subsection \<open>A message, a closed connection, a tick of the timer\<close>

definition OnMessage :: "'w env \<Rightarrow> 'w server \<Rightarrow> conn_id \<Rightarrow> packet \<Rightarrow> 'w server" where
  "OnMessage e s0 conn packet =
     (case NowMs e s0 of
        (s1, begin) \<Rightarrow>
          (case GenerateTraceId e s1 conn (pk_seq_id packet) of
             (s2, trace) \<Rightarrow>
               (case ParseGatewayTraceFields (pk_body packet) of
                  (h5, gateway) \<Rightarrow>
                    (case Dispatch (server_dispatcher e) s2 packet conn of
                       (s3, response, True) \<Rightarrow>
                         let body = AppendKvFieldIfMissing (AppendKvFieldIfMissing (AppendKvFieldIfMissing
                               (pk_body response) ''h5_request_id'' h5) ''gateway_trace_id'' gateway)
                               ''server_trace_id'' trace;
                             s4 = emit (Send conn (response\<lparr>pk_body := body\<rparr>)) s3
                         in (case NowMs e s4 of
                               (s5, stop) \<Rightarrow>
                                 s5\<lparr>sv_metrics := Record (sv_metrics s5) (EventNameByMsgId (pk_msg_id packet))
                                      (ParseCodeFromResponseBody body) (stop - begin)\<rparr>)
                     | (s3, response, False) \<Rightarrow>
                         (case NowMs e s3 of
                            (s4, stop) \<Rightarrow>
                              s4\<lparr>sv_metrics := Record (sv_metrics s4) (EventNameByMsgId (pk_msg_id packet))
                                   (code_num UNKNOWN_ERROR) (stop - begin)\<rparr>)))))"

definition OnConnectionClosed :: "'w env \<Rightarrow> 'w server \<Rightarrow> conn_id \<Rightarrow> 'w server" where
  "OnConnectionClosed e s0 conn =
     (case GetPlayerIdByConnection (co_sessions (sv_core s0)) conn of
        None \<Rightarrow> s0
      | Some p \<Rightarrow>
          let session = GetSessionByPlayer (co_sessions (sv_core s0)) p;
              s1 = (if GetState (co_players (sv_core s0)) p = Matching
                    then upd_core (\<lambda>c. c\<lparr>co_match := fst (Cancel (co_match c) p)\<rparr>) s0 else s0)
          in (case NowMs e s1 of
                (s2, now) \<Rightarrow>
                  let s3 = upd_core (\<lambda>c. c\<lparr>co_sessions := fst (MarkOfflineByConnection (co_sessions c) conn now),
                                          co_players := ForceState (co_players c) p Offline\<rparr>) s2
                  in (case NowMs e s3 of
                        (s4, offline_at) \<Rightarrow>
                          redis_presence e (upd_rooms (\<lambda>m. fst (MarkPlayerOffline m p offline_at)) s4) p False
                            (case session of Some x \<Rightarrow> ss_room x | None \<Rightarrow> 0))))"

definition kTrusteeEnterMs :: millis where
  "kTrusteeEnterMs = 30000"

definition kOfflineLoseMs :: millis where
  "kOfflineLoseMs = 120000"

text \<open>The trustee acts for the player whose turn it is.\<close>

definition trustee_turn :: "'w env \<Rightarrow> 'w server \<Rightarrow> session \<Rightarrow> 'w server" where
  "trustee_turn e s x =
     (case GetRoomById (co_rooms (sv_core s)) (ss_room x) of
        None \<Rightarrow> s
      | Some r \<Rightarrow>
          if rm_operator r \<noteq> ss_player x then s
          else
            (case ApplyTrusteeAction (en_shuffle e) (co_rooms (sv_core s)) (ss_room x) (ss_player x) of
               (rooms, Inl err) \<Rightarrow> upd_rooms (\<lambda>_. rooms) s
             | (rooms, Inr res) \<Rightarrow>
                 let s1 = push_action (upd_rooms (\<lambda>_. rooms) s) (ss_room x) (ar_snapshot res) in
                 if ar_game_over res
                 then fst (settle_and_notify e ''trustee_auto_settlement'' s1
                        \<lparr>de_room = ss_room x, de_winner = ar_winner res, de_base = ar_base_coin res\<rparr>)
                 else s1))"

definition offline_loss :: "'w env \<Rightarrow> 'w server \<Rightarrow> session \<Rightarrow> 'w server" where
  "offline_loss e s x =
     (case PickWinnerForOfflineLose (co_rooms (sv_core s)) (ss_room x) (ss_player x) of
        None \<Rightarrow> s
      | Some w \<Rightarrow>
          fst (settle_and_notify e ''offline_timeout_settlement'' s
            \<lparr>de_room = ss_room x, de_winner = w, de_base = 1\<rparr>))"

text \<open>The body of the loop over the copy of the sessions.\<close>

definition timer_session :: "'w env \<Rightarrow> millis \<Rightarrow> 'w server \<Rightarrow> session \<Rightarrow> 'w server" where
  "timer_session e now s x =
     (if ss_room x \<le> 0 then s
      else if ss_online x then upd_rooms (\<lambda>m. fst (MarkPlayerOnline m (ss_player x))) s
      else if ss_offline_at x \<le> 0 then s
      else
        let s1 = upd_rooms (\<lambda>m. fst (MarkPlayerOffline m (ss_player x) (ss_offline_at x))) s;
            offline = now - ss_offline_at x;
            s2 = (if offline \<ge> kTrusteeEnterMs
                  then trustee_turn e (upd_rooms (\<lambda>m. fst (MarkPlayerTrustee m (ss_player x) True)) s1) x else s1)
        in if offline \<ge> kOfflineLoseMs then offline_loss e s2 x else s2)"

text \<open>One iteration of \<^verbatim>\<open>TimerLoop\<close>; the text of the metrics report is only logged.\<close>

definition TimerTick :: "'w env \<Rightarrow> 'w server \<Rightarrow> 'w server" where
  "TimerTick e s0 =
     (case NowMs e s0 of
        (s1, now) \<Rightarrow>
          let s2 = emit (CloseIdle (ac_heartbeat_timeout (sv_cfg s1))) s1 in
          (case HandleMatchTimeout (sv_core s2) now (ac_match_timeout (sv_cfg s2)) of
             (c, late) \<Rightarrow>
               let s3 = upd_core (\<lambda>_. c) s2;
                   s4 = (if late = [] then s3 else NotifyMatchTimeout s3 late);
                   s5 = foldl (timer_session e now) s4
                          (GetAllSessions (en_order e (co_sessions (sv_core s4))) (co_sessions (sv_core s4)))
               in s5\<lparr>sv_metrics := fst (TryBuildMetricsSnapshot [] (sv_metrics s5) now)\<rparr>))"

subsection \<open>Starting and stopping\<close>

definition config_error :: "app_config \<Rightarrow> string option" where
  "config_error c =
     (if ac_max_packet_size c < int kHeaderSize
      then Some (''invalid server.max_packet_size, must be >= '' @ nat_str kHeaderSize)
      else if ac_heartbeat_timeout c \<le> 0 then Some ''invalid server.heartbeat_timeout_ms, must be > 0''
      else if ac_match_timeout c \<le> 0 then Some ''invalid server.match_timeout_ms, must be > 0''
      else if ac_io_threads c \<le> 0 then Some ''invalid server.io_threads, must be > 0''
      else if ac_token_ttl c \<le> 0 then Some ''invalid auth.token_ttl_seconds, must be > 0''
      else if ac_metrics_interval c \<le> 0 then Some ''invalid observability.metrics_report_interval_ms, must be > 0''
      else None)"

text \<open>The store of the front, which \<^verbatim>\<open>GameServer\<close> always has, initialised.\<close>

definition init_redis :: "'w env \<Rightarrow> 'w server \<Rightarrow> 'w server \<times> string option" where
  "init_redis e s =
     (case fo_redis (sv_front s) of
        None \<Rightarrow> (s, None)
      | Some r \<Rightarrow>
          (case RedisInit (en_shell e) r (fo_world (sv_front s)) (ac_redis (sv_cfg s)) of
             (w, r', err) \<Rightarrow> (s\<lparr>sv_front := (sv_front s)\<lparr>fo_redis := Some r', fo_world := w\<rparr>\<rparr>, err)))"

definition init_storage :: "'w env \<Rightarrow> 'w server \<Rightarrow> 'w server \<times> string option" where
  "init_storage e s =
     (case StorageInit (en_shell e) ((sv_store s)\<lparr>st_world := fo_world (sv_front s)\<rparr>) (ac_mysql (sv_cfg s)) of
        (st, err) \<Rightarrow> (s\<lparr>sv_store := st, sv_front := (sv_front s)\<lparr>fo_world := st_world st\<rparr>\<rparr>, err))"

text \<open>\<open>log_err\<close> and \<open>tcp_err\<close> are the outcomes of \<^verbatim>\<open>Logger::Init\<close> and \<^verbatim>\<open>TcpServer::Start\<close>. The result
  is the message of a failure; a second start of a running server succeeds and does nothing.\<close>

definition Start ::
    "'w env \<Rightarrow> string \<Rightarrow> string \<Rightarrow> string option \<Rightarrow> string option \<Rightarrow> string option \<Rightarrow> 'w server
     \<Rightarrow> 'w server \<times> string option" where
  "Start e what path file log_err tcp_err s0 =
     (if sv_running s0 then (s0, None)
      else
        (case LoadFromFile what path file (sv_cfg s0) of
           (cfg, load_err) \<Rightarrow>
             let s1 = s0\<lparr>sv_cfg := cfg\<rparr> in
             (case (load_err, config_error cfg, log_err) of
                (Some err, _, _) \<Rightarrow> (s1, Some err)
              | (None, Some err, _) \<Rightarrow> (s1, Some err)
              | (None, None, Some err) \<Rightarrow> (s1, Some err)
              | (None, None, None) \<Rightarrow>
                  (case init_storage e s1 of
                     (s2, Some err) \<Rightarrow> (s2, Some err)
                   | (s2, None) \<Rightarrow>
                       (case init_redis e s2 of
                          (s3, Some err) \<Rightarrow> (s3, Some err)
                        | (s3, None) \<Rightarrow>
                            let s4 = s3\<lparr>sv_front := (sv_front s3)\<lparr>fo_auth := Configure (fo_auth (sv_front s3))
                                          (ac_token_secret cfg) (ac_token_ttl cfg)\<rparr>,
                                        sv_metrics := ConfigureMetrics (sv_metrics s3)
                                          (ac_structured_log cfg) (ac_metrics_interval cfg)\<rparr>
                            in (case tcp_err of
                                  Some err \<Rightarrow> (s4, Some err)
                                | None \<Rightarrow> (s4\<lparr>sv_running := True\<rparr>, None)))))))"

definition Stop :: "'w server \<Rightarrow> 'w server" where
  "Stop s = (if sv_running s then s\<lparr>sv_running := False\<rparr> else s)"

end
