(* ===== verification/DdzServerProps.thy ===== *)
theory DdzServerProps
  imports DdzServer
begin

text \<open>
  What holds of the whole server. Every handler is composed of a few moves of the managers and
  of notifications; the relation \<open>tells\<close> is what all of them have in common: the invariant across
  the managers is kept, no player changes connection, everything sent is sent where it belongs,
  and the players' places (away, waiting, seated in a room) change as the abstract lobby of
  \<open>lobby_step\<close> allows. It is reflexive and transitive, so the steps of the server are proved by
  composing the facts about their parts.
\<close>

subsection \<open>The abstract lobby\<close>

datatype place = Away | Waiting | Seated room_id

inductive lobby_step :: "(player_id \<Rightarrow> place) \<Rightarrow> (player_id \<Rightarrow> place) \<Rightarrow> bool" where
  wait: "f p = Away \<Longrightarrow> lobby_step f (f(p := Waiting))"
| leave: "f p = Waiting \<Longrightarrow> lobby_step f (f(p := Away))"
| seat: "distinct ps \<Longrightarrow> length ps = 3 \<Longrightarrow> \<forall>p \<in> set ps. f p = Waiting \<Longrightarrow> \<forall>p. f p \<noteq> Seated rid \<Longrightarrow>
    lobby_step f (\<lambda>p. if p \<in> set ps then Seated rid else f p)"
| close: "lobby_step f (\<lambda>p. if f p = Seated rid then Away else f p)"

definition place :: "core \<Rightarrow> player_id \<Rightarrow> place" where
  "place c p =
     (case GetRoomIdByPlayer (co_rooms c) p of
        Some rid \<Rightarrow> Seated rid
      | None \<Rightarrow> if waits c p then Waiting else Away)"

definition conn_of :: "'w server \<Rightarrow> player_id \<Rightarrow> conn_id option" where
  "conn_of s p = GetConnectionIdByPlayer (co_sessions (sv_core s)) p"

text \<open>A message with a hand goes to the connection of the player it is for. What makes it one is its
  identifier and its body: the answer to an unknown request may have the same identifier.\<close>

definition is_hand :: "packet \<Rightarrow> bool" where
  "is_hand pk \<longleftrightarrow> pk_msg_id pk = MSG_PRIVATE_HAND_NOTIFY \<and> take 8 (pk_body pk) = ''room_id=''"

definition well_sent :: "(player_id \<Rightarrow> conn_id option) \<Rightarrow> effect \<Rightarrow> bool" where
  "well_sent conns x \<longleftrightarrow>
     (case x of
        Send conn pk \<Rightarrow> is_hand pk \<longrightarrow> conns (pk_player_id pk) = Some conn
      | _ \<Rightarrow> True)"

definition tells :: "'w server \<Rightarrow> 'w server \<Rightarrow> bool" where
  "tells s s' \<longleftrightarrow>
     (core_ok (sv_core s) \<longrightarrow>
        core_ok (sv_core s') \<and> conn_of s' = conn_of s \<and>
        lobby_step\<^sup>*\<^sup>* (place (sv_core s)) (place (sv_core s')) \<and>
        (\<exists>xs. sv_out s' = sv_out s @ xs \<and> list_all (well_sent (conn_of s)) xs))"

lemma tells_refl [simp, intro]: "tells s s"
  by (simp add: tells_def)

lemma tells_trans [trans]: "tells s t \<Longrightarrow> tells t u \<Longrightarrow> tells s u"
  unfolding tells_def by (auto intro: rtranclp_trans)

lemma tells_foldl:
  "(\<And>s x. x \<in> set xs \<Longrightarrow> tells s (f s x)) \<Longrightarrow> tells s (foldl f s xs)"
proof (induction xs arbitrary: s)
  case (Cons x xs)
  then show ?case using tells_trans [of s "f s x"] by simp
qed simp

text \<open>A change that no player can see: clock, metrics, storage, the world.\<close>

lemma tells_same:
  "sv_core s' = sv_core s \<Longrightarrow> sv_out s' = sv_out s \<Longrightarrow> tells s s'"
  by (simp add: tells_def conn_of_def [abs_def])

lemma tells_emit: "well_sent (conn_of s) x \<Longrightarrow> tells s (emit x s)"
  by (simp add: tells_def emit_def sv_core_def conn_of_def [abs_def])

lemma emit_frame [simp]:
  "sv_core (emit x s) = sv_core s" "sv_front (emit x s) = sv_front s" "sv_cfg (emit x s) = sv_cfg s"
  by (simp_all add: emit_def sv_core_def)

lemma sv_core_upd [simp]: "sv_core (upd_core f s) = f (sv_core s)"
  by (simp add: sv_core_def upd_core_def)

lemma sv_out_upd [simp]: "sv_out (upd_core f s) = sv_out s" "sv_out (upd_rooms g s) = sv_out s"
  by (simp_all add: upd_core_def upd_rooms_def)

lemma sv_core_rooms [simp]: "sv_core (upd_rooms g s) = (sv_core s)\<lparr>co_rooms := g (co_rooms (sv_core s))\<rparr>"
  by (simp add: upd_rooms_def)

lemma NowMs_frame [simp]:
  "sv_core (fst (NowMs e s)) = sv_core s" "sv_out (fst (NowMs e s)) = sv_out s"
  "sv_front (fst (NowMs e s)) = sv_front s" "sv_cfg (fst (NowMs e s)) = sv_cfg s"
  by (simp_all add: NowMs_def sv_core_def)

lemma tells_NowMs [intro]: "tells s (fst (NowMs e s))"
  by (rule tells_same) simp_all

subsection \<open>Rooms\<close>

text \<open>Operations on the rooms that keep every player's room.\<close>

definition keeps_seats :: "(room_manager \<Rightarrow> room_manager) \<Rightarrow> bool" where
  "keeps_seats g \<longleftrightarrow>
     (\<forall>m. manager_ok m \<longrightarrow> manager_ok (g m) \<and> mg_player_room (g m) = mg_player_room m \<and> mg_next_id (g m) = mg_next_id m)"

lemma place_rooms: "mg_player_room m = mg_player_room (co_rooms c) \<Longrightarrow> place (c\<lparr>co_rooms := m\<rparr>) = place c"
  by (rule ext) (simp add: place_def GetRoomIdByPlayer_def waits_def)

lemma tells_rooms:
  assumes "keeps_seats g"
  shows "tells s (upd_rooms g s)"
proof -
  have "core_ok (sv_core s) \<Longrightarrow> manager_ok (g (co_rooms (sv_core s))) \<and>
      mg_player_room (g (co_rooms (sv_core s))) = mg_player_room (co_rooms (sv_core s)) \<and>
      mg_next_id (g (co_rooms (sv_core s))) = mg_next_id (co_rooms (sv_core s))"
    using assms core_okD(1) by (auto simp: keeps_seats_def)
  then show ?thesis
    using core_rooms_only [of "sv_core s"] core_okD(3) [of "sv_core s"]
    by (auto simp: tells_def conn_of_def [abs_def] place_rooms)
qed

lemma store_room_frame [simp]:
  "mg_player_room (store_room m rid r) = mg_player_room m" "mg_next_id (store_room m rid r) = mg_next_id m"
  by (simp_all add: store_room_def)

lemma update_player_room_frame:
  "mg_player_room (fst (update_player_room f m p)) = mg_player_room m"
  "mg_next_id (fst (update_player_room f m p)) = mg_next_id m"
  by (simp_all add: update_player_room_def split: option.split)

lemma Mark_keeps_seats [intro]:
  "keeps_seats (\<lambda>m. fst (MarkPlayerOnline m p))" "keeps_seats (\<lambda>m. fst (MarkPlayerOffline m p t))"
  "keeps_seats (\<lambda>m. fst (MarkPlayerTrustee m p b))"
  by (auto simp: keeps_seats_def Mark_ok)
    (simp_all add: MarkPlayerOnline_def MarkPlayerOffline_def MarkPlayerTrustee_def update_player_room_frame)

lemma Apply_keeps_seats:
  assumes "is_shuffle shuf"
  shows "keeps_seats (\<lambda>m. fst (ApplyPlayerAction shuf m rid p q))"
    "keeps_seats (\<lambda>m. fst (ApplyTrusteeAction shuf m rid p))"
proof -
  show A: "keeps_seats (\<lambda>m. fst (ApplyPlayerAction shuf m rid p q))" for q
    unfolding keeps_seats_def using ApplyPlayerAction_ok [OF assms]
    by (auto simp: ApplyPlayerAction_def split: option.split prod.split)
  show "keeps_seats (\<lambda>m. fst (ApplyTrusteeAction shuf m rid p))"
    unfolding keeps_seats_def using ApplyTrusteeAction_ok [OF assms] A
    by (auto simp: keeps_seats_def ApplyTrusteeAction_def split: option.split sum.split)
qed

text \<open>Storing the result of an operation is applying it.\<close>

lemma upd_rooms_const: "upd_rooms (\<lambda>_. g (co_rooms (sv_core s))) s = upd_rooms g s"
  by (simp add: upd_rooms_def upd_core_def sv_core_def)

subsection \<open>Notifications\<close>

lemma redis_frame [simp]:
  "sv_core (redis_session e s p rid) = sv_core s" "sv_out (redis_session e s p rid) = sv_out s"
  "sv_core (redis_presence e s p b rid) = sv_core s" "sv_out (redis_presence e s p b rid) = sv_out s"
  by (simp_all add: redis_session_def redis_presence_def sv_core_def with_redis_frame)

lemma tells_for_online:
  assumes "\<And>s p conn. conn_of s p = Some conn \<Longrightarrow> tells s (f s p conn)"
  shows "tells s (for_online f s ps)"
  unfolding for_online_def
  by (rule tells_foldl) (use assms in \<open>auto simp: conn_of_def split: option.split\<close>)

lemma msg_ids [simp]:
  "MSG_MATCH_SUCCESS_NOTIFY \<noteq> MSG_PRIVATE_HAND_NOTIFY" "MSG_MATCH_TIMEOUT_NOTIFY \<noteq> MSG_PRIVATE_HAND_NOTIFY"
  "MSG_ROOM_SNAPSHOT_NOTIFY \<noteq> MSG_PRIVATE_HAND_NOTIFY" "MSG_PLAYER_RECONNECT_NOTIFY \<noteq> MSG_PRIVATE_HAND_NOTIFY"
  "MSG_ROOM_STATE_PUSH \<noteq> MSG_PRIVATE_HAND_NOTIFY" "MSG_ROOM_STATE_PUSH_V2 \<noteq> MSG_PRIVATE_HAND_NOTIFY"
  "MSG_GAME_OVER_NOTIFY \<noteq> MSG_PRIVATE_HAND_NOTIFY" "MSG_GAME_RESULT_PUSH \<noteq> MSG_PRIVATE_HAND_NOTIFY"
  by (simp_all add: MSG_MATCH_SUCCESS_NOTIFY_def MSG_MATCH_TIMEOUT_NOTIFY_def MSG_ROOM_SNAPSHOT_NOTIFY_def
      MSG_PLAYER_RECONNECT_NOTIFY_def MSG_ROOM_STATE_PUSH_def MSG_ROOM_STATE_PUSH_V2_def
      MSG_GAME_OVER_NOTIFY_def MSG_GAME_RESULT_PUSH_def MSG_PRIVATE_HAND_NOTIFY_def)

lemma well_sent_notify:
  "msg \<noteq> MSG_PRIVATE_HAND_NOTIFY \<or> conns p = Some conn \<Longrightarrow> well_sent conns (Send conn (notify msg p fs))"
  by (auto simp: well_sent_def notify_def is_hand_def)

lemma tells_push_v2: "tells s (push_v2 s rid)"
  by (auto simp: push_v2_def NotifyRoomStatePushV2_def intro!: tells_for_online tells_emit well_sent_notify split: option.split)

lemma tells_NotifyRoomStatePush: "tells s (NotifyRoomStatePush s rid sn)"
  by (auto simp: NotifyRoomStatePush_def intro!: tells_for_online tells_emit well_sent_notify split: option.split)

lemma tells_NotifyPlayerReconnect: "tells s (NotifyPlayerReconnectInRoom s rid p)"
  by (auto simp: NotifyPlayerReconnectInRoom_def intro!: tells_for_online tells_emit well_sent_notify split: option.split)

lemma tells_private_hand: "conn_of s p = Some conn \<Longrightarrow> tells s (NotifyPrivateHandByConnection s p conn rid v)"
  by (auto simp: NotifyPrivateHandByConnection_def intro!: tells_emit well_sent_notify split: option.split)

lemma tells_private_hands: "tells s (NotifyPrivateHandsInRoom s rid v)"
  by (auto simp: NotifyPrivateHandsInRoom_def intro!: tells_for_online tells_private_hand split: option.split)

lemma tells_snapshot: "tells s (NotifyRoomSnapshot s p conn sn)"
  by (auto simp: NotifyRoomSnapshot_def intro!: tells_emit well_sent_notify)

lemma tells_push_action: "tells s (push_action s rid sn)"
  unfolding push_action_def
  by (meson tells_trans tells_NotifyRoomStatePush tells_push_v2 tells_private_hands)

lemma tells_match_timeout: "tells s (NotifyMatchTimeout s events)"
  unfolding NotifyMatchTimeout_def
  by (rule tells_foldl) (auto intro!: tells_emit well_sent_notify split: option.split)

lemma tells_match_success: "tells s (NotifyMatchSuccess e s rid mode ps)"
  unfolding NotifyMatchSuccess_def Let_def
proof (rule tells_for_online)
  fix s :: "'a server" and p conn
  let ?s1 = "emit (Send conn (notify MSG_MATCH_SUCCESS_NOTIFY p
    [(''room_id'', int_str rid), (''mode'', int_str mode), (''players'', JoinNumberList ps)])) s"
  let ?s2 = "upd_rooms (\<lambda>m. fst (MarkPlayerOnline m p)) ?s1"
  have "tells s ?s1" by (rule tells_emit) (simp add: well_sent_notify)
  also have "tells ?s1 ?s2" by (rule tells_rooms) blast
  also have "tells ?s2 (redis_session e ?s2 p rid)" by (rule tells_same) simp_all
  finally show "tells s (redis_session e ?s2 p rid)" .
qed

lemma tells_game_over: "tells s (NotifyGameOver e s res)"
  unfolding NotifyGameOver_def
proof (rule tells_foldl)
  fix s :: "'a server" and x
  show "tells s (case GetConnectionIdByPlayer (co_sessions (sv_core s)) (sp_player x) of
         None \<Rightarrow> s
       | Some conn \<Rightarrow>
           let n = notify MSG_GAME_OVER_NOTIFY (sp_player x)
                 [(''room_id'', int_str (se_room res)), (''winner_player_id'', int_str (se_winner res)),
                  (''coin_change'', int_str (sp_change x)), (''after_coin'', int_str (sp_after x))]
           in redis_session e (emit (Send conn (n\<lparr>pk_msg_id := MSG_GAME_RESULT_PUSH\<rparr>)) (emit (Send conn n) s))
                (sp_player x) 0)"
  proof (cases "GetConnectionIdByPlayer (co_sessions (sv_core s)) (sp_player x)")
    case (Some conn)
    let ?n = "notify MSG_GAME_OVER_NOTIFY (sp_player x)
      [(''room_id'', int_str (se_room res)), (''winner_player_id'', int_str (se_winner res)),
       (''coin_change'', int_str (sp_change x)), (''after_coin'', int_str (sp_after x))]"
    have "tells s (emit (Send conn ?n) s)" by (rule tells_emit) (simp add: well_sent_notify)
    also have "tells \<dots> (emit (Send conn (?n\<lparr>pk_msg_id := MSG_GAME_RESULT_PUSH\<rparr>)) (emit (Send conn ?n) s))"
      by (rule tells_emit) (simp add: well_sent_def is_hand_def)
    also have "tells \<dots> (redis_session e \<dots> (sp_player x) 0)" by (rule tells_same) simp_all
    finally show ?thesis using Some by (simp add: Let_def)
  qed simp
qed

subsection \<open>Settlement\<close>

lemma place_frame:
  "mg_player_room (co_rooms c') = mg_player_room (co_rooms c) \<Longrightarrow> co_match c' = co_match c \<Longrightarrow> place c' = place c"
  by (rule ext) (simp add: place_def GetRoomIdByPlayer_def waits_def)

lemma place_Seated: "place c p = Seated rid \<longleftrightarrow> mg_player_room (co_rooms c) p = Some rid"
  by (simp add: place_def GetRoomIdByPlayer_def split: option.split)

lemma place_Waiting: "core_ok c \<Longrightarrow> place c p = Waiting \<longleftrightarrow> waits c p"
  using core_okD(4) [of c p] by (auto simp: place_def in_room_def split: option.split)

lemma settled_core_match: "co_match (settled_core c r d) = co_match c"
  by (simp add: settled_core_def release_players_sel)

lemma settled_place:
  assumes "core_ok c" "mg_rooms (co_rooms c) (de_room d) = Some r"
    "\<forall>p \<in> set (rm_players r). co_players c p \<noteq> None"
  shows "place (settled_core c r d) = (\<lambda>p. if place c p = Seated (de_room d) then Away else place c p)"
proof
  fix p
  have seat: "mg_player_room (co_rooms c) p = Some (de_room d) \<longleftrightarrow> p \<in> set (rm_players r)"
    using manager_ok_seat [OF core_okD(1) [OF assms(1)], of p "de_room d"] assms(2) by simp
  have "\<not> waits c p" if "p \<in> set (rm_players r)"
    using seat that core_okD(4) [OF assms(1), of p] by (auto simp: in_room_def GetRoomIdByPlayer_def)
  then show "place (settled_core c r d) p = (if place c p = Seated (de_room d) then Away else place c p)"
    using seat settled_core_sel(4) [OF assms, of p]
    by (auto simp: place_def waits_def settled_core_match GetRoomIdByPlayer_def split: option.splits)
qed

lemma settled_conns:
  "sm_sessions (co_sessions c') = sm_sessions (co_sessions c) \<Longrightarrow>
   GetConnectionIdByPlayer (co_sessions c') p = GetConnectionIdByPlayer (co_sessions c) p"
  by (simp add: GetConnectionIdByPlayer_def)

text \<open>The managers after a settlement are the old ones, or marked, or settled.\<close>

lemma settle_core_step:
  assumes c: "core_ok (ts_core s)" and H: "SettleByServerResult sh s d now = (s', res)"
  shows "core_ok (ts_core s')"
    "lobby_step\<^sup>*\<^sup>* (place (ts_core s)) (place (ts_core s'))"
    "GetConnectionIdByPlayer (co_sessions (ts_core s')) p = GetConnectionIdByPlayer (co_sessions (ts_core s)) p"
proof (atomize (full), cases "se_code res = OK")
  case True
  then obtain r where r: "mg_rooms (co_rooms (ts_core s)) (de_room d) = Some r"
      "\<forall>p \<in> set (rm_players r). co_players (ts_core s) p \<noteq> None" "ts_core s' = settled_core (ts_core s) r d"
    using settle_ok_cases [OF c H] by blast
  show "core_ok (ts_core s') \<and> lobby_step\<^sup>*\<^sup>* (place (ts_core s)) (place (ts_core s')) \<and>
    GetConnectionIdByPlayer (co_sessions (ts_core s')) p = GetConnectionIdByPlayer (co_sessions (ts_core s)) p"
    using settled_core_ok [OF c r(1,2)] lobby_step.close [of "place (ts_core s)" "de_room d"]
      settled_core_sel(5) [OF c r(1,2), of p]
    unfolding r(3) settled_place [OF c r(1,2)]
    by (auto simp: GetConnectionIdByPlayer_def split: option.split)
next
  case False
  then have "ts_core s' = ts_core s \<or>
      ts_core s' = (ts_core s)\<lparr>co_rooms := fst (MarkSettling (co_rooms (ts_core s)) (de_room d))\<rparr>"
    using settle_failed_cases [OF c H] by blast
  then show "core_ok (ts_core s') \<and> lobby_step\<^sup>*\<^sup>* (place (ts_core s)) (place (ts_core s')) \<and>
    GetConnectionIdByPlayer (co_sessions (ts_core s')) p = GetConnectionIdByPlayer (co_sessions (ts_core s)) p"
  proof
    assume E: "ts_core s' = (ts_core s)\<lparr>co_rooms := fst (MarkSettling (co_rooms (ts_core s)) (de_room d))\<rparr>"
    have "place (ts_core s') = place (ts_core s)"
      by (rule place_frame) (simp_all add: E MarkSettling_def mark_state_frame)
    then show ?thesis using core_marked [OF c] E by simp
  qed (use c in simp)
qed

lemma settle_now_frame:
  obtains ts res0 st now where
    "SettleByServerResult (en_shell e) \<lparr>ts_core = sv_core s, ts_store = st, ts_settling = sv_settling s\<rparr> d now = (ts, res0)"
    "snd (settle_now e event s d) = res0" "sv_core (fst (settle_now e event s d)) = ts_core ts"
    "sv_out (fst (settle_now e event s d)) = sv_out s"
    "sv_settling (fst (settle_now e event s d)) = ts_settling ts"
  by (rule that [OF prod.collapse [symmetric]])
    (auto simp: settle_now_def NowMs_def sv_core_def Let_def split_beta)

lemma tells_settle: "tells s (fst (settle_and_notify e event s d))"
proof -
  obtain ts res st now where
    H: "SettleByServerResult (en_shell e) \<lparr>ts_core = sv_core s, ts_store = st, ts_settling = sv_settling s\<rparr> d now = (ts, res)"
    and S: "sv_core (fst (settle_now e event s d)) = ts_core ts" "sv_out (fst (settle_now e event s d)) = sv_out s"
    by (rule settle_now_frame)
  have "tells s (fst (settle_now e event s d))"
    using settle_core_step [OF _ H] S by (auto simp: tells_def conn_of_def [abs_def])
  then show ?thesis
    using tells_trans [OF _ tells_game_over] by (auto simp: settle_and_notify_def split_beta)
qed

subsection \<open>Actions and the timer\<close>

lemma tells_apply_action:
  assumes "is_shuffle (en_shuffle e)"
  shows "tells s (upd_rooms (\<lambda>_. fst (ApplyPlayerAction (en_shuffle e) (co_rooms (sv_core s)) rid p q)) s)"
    "tells s (upd_rooms (\<lambda>_. fst (ApplyTrusteeAction (en_shuffle e) (co_rooms (sv_core s)) rid p)) s)"
  using Apply_keeps_seats [OF assms] tells_rooms
    upd_rooms_const [of "\<lambda>m. fst (ApplyPlayerAction (en_shuffle e) m rid p q)"]
    upd_rooms_const [of "\<lambda>m. fst (ApplyTrusteeAction (en_shuffle e) m rid p)"] by metis+

lemma tells_finish: "tells s (fst (finish_action e s rid res))"
proof -
  have "tells (push_action s rid (ar_snapshot res)) (fst (finish_action e s rid res))"
    using tells_settle [of "push_action s rid (ar_snapshot res)" e "''auto_settlement''"
        "\<lparr>de_room = rid, de_winner = ar_winner res, de_base = ar_base_coin res\<rparr>"]
    by (auto simp: finish_action_def Let_def split_beta)
  then show ?thesis by (rule tells_trans [OF tells_push_action])
qed

lemma tells_trustee_turn:
  assumes "is_shuffle (en_shuffle e)"
  shows "tells s (trustee_turn e s x)"
proof (cases "GetRoomById (co_rooms (sv_core s)) (ss_room x)")
  case (Some r)
  obtain rooms res where A:
    "ApplyTrusteeAction (en_shuffle e) (co_rooms (sv_core s)) (ss_room x) (ss_player x) = (rooms, res)" by fastforce
  have U: "tells s (upd_rooms (\<lambda>_. rooms) s)"
    using tells_apply_action(2) [OF assms, of s "ss_room x" "ss_player x"] A by simp
  show ?thesis
  proof (cases res)
    case (Inr y)
    let ?s1 = "push_action (upd_rooms (\<lambda>_. rooms) s) (ss_room x) (ar_snapshot y)"
    have "tells s ?s1" using tells_trans [OF U tells_push_action] .
    moreover have "tells s (fst (settle_and_notify e ''trustee_auto_settlement'' ?s1
        \<lparr>de_room = ss_room x, de_winner = ar_winner y, de_base = ar_base_coin y\<rparr>))"
      using tells_trans [OF calculation tells_settle] .
    ultimately show ?thesis by (simp add: trustee_turn_def Some A Inr Let_def)
  qed (use U in \<open>simp add: trustee_turn_def Some A\<close>)
qed (simp add: trustee_turn_def)

lemma tells_offline_loss: "tells s (offline_loss e s x)"
  by (auto simp: offline_loss_def tells_settle split: option.split)

lemma tells_timer_session:
  assumes "is_shuffle (en_shuffle e)"
  shows "tells s (timer_session e now s x)"
proof -
  let ?s1 = "upd_rooms (\<lambda>m. fst (MarkPlayerOffline m (ss_player x) (ss_offline_at x))) s"
  let ?t = "upd_rooms (\<lambda>m. fst (MarkPlayerTrustee m (ss_player x) True)) ?s1"
  let ?s2 = "if now - ss_offline_at x \<ge> kTrusteeEnterMs then trustee_turn e ?t x else ?s1"
  have on: "tells s (upd_rooms (\<lambda>m. fst (MarkPlayerOnline m (ss_player x))) s)" by (rule tells_rooms) blast
  have "tells s ?s1" by (rule tells_rooms) blast
  moreover have "tells ?s1 ?t" by (rule tells_rooms) blast
  moreover have "tells ?t (trustee_turn e ?t x)" by (rule tells_trustee_turn [OF assms])
  ultimately have "tells s (trustee_turn e ?t x)" "tells s ?s1" by (blast intro: tells_trans)+
  then have "tells s ?s2" by (simp split: if_split)
  moreover from this have "tells s (offline_loss e ?s2 x)" by (rule tells_trans [OF _ tells_offline_loss])
  ultimately show ?thesis using on unfolding timer_session_def Let_def by (simp split: if_split)
qed

subsection \<open>The queue\<close>

lemma place_iff:
  assumes "core_ok c"
  shows "place c p = Away \<longleftrightarrow> \<not> waits c p \<and> \<not> in_room c p"
  by (auto simp: place_def in_room_def split: option.split)

lemma fresh_room: "manager_ok m \<Longrightarrow> mg_player_room m p \<noteq> Some (mg_next_id m)"
  unfolding manager_ok_seat by (metis less_irrefl manager_ok_def rooms_ok_def)

lemma match_place:
  assumes c: "core_ok c" and H: "HandleMatch c conn body now = (c', r)"
  shows "lobby_step\<^sup>*\<^sup>* (place c) (place c')"
proof (cases "\<exists>p. GetPlayerIdByConnection (co_sessions c) conn = Some p \<and> ParseMode body = Some 3 \<and>
    GetState (co_players c) p = Lobby \<and> \<not> waits c p")
  case False
  have "c' = c"
  proof (cases "GetPlayerIdByConnection (co_sessions c) conn")
    case None
    then show ?thesis using H HandleMatch_refused(1) [OF c None] by simp
  next
    case (Some p)
    show ?thesis
      using False Some H HandleMatch_refused(2-4) [OF c Some] ParseMode_3 [of body]
      by (cases "ParseMode body"; cases "GetState (co_players c) p = Lobby") auto
  qed
  then show ?thesis by simp
next
  case True
  then obtain p where p: "GetPlayerIdByConnection (co_sessions c) conn = Some p" "ParseMode body = Some 3"
      "GetState (co_players c) p = Lobby" "\<not> waits c p" by blast
  define ws where "ws = waiting_players (co_match c) 3 @ [p]"
  note A = HandleMatch_full [OF c p ws_def H]
  note M = HandleMatch_moves [OF c p ws_def H]
  have away: "place c p = Away" using place_iff [OF c] p(4) core_okD(8) [OF c p(3)] by blast
  let ?f = "(place c)(p := Waiting)"
  have w: "lobby_step (place c) ?f" using lobby_step.wait [of "place c" p] away by simp
  show ?thesis
  proof (cases "length ws < 3")
    case True
    then have "place c' = ?f" using M away by (auto simp: place_def fun_eq_iff split: option.splits if_splits)
    then show ?thesis using w by auto
  next
    case False
    define ps where "ps = take 3 ws"
    have d: "distinct ws" using match_okD(2) [OF core_okD(2) [OF c], of 3] p(4)
      unfolding ws_def waits_iff [OF core_okD(2) [OF c]] by auto
    have q: "?f q = Waiting" if "q \<in> set ps" for q
      using in_set_takeD [OF that [unfolded ps_def]] waits_iff [OF core_okD(2) [OF c], of q] place_Waiting [OF c, of q]
      by (auto simp: ws_def)
    have "lobby_step ?f (\<lambda>x. if x \<in> set ps then Seated (mr_room r) else ?f x)"
    proof (rule seat)
      show "distinct ps" "length ps = 3" using d False by (simp_all add: ps_def)
      show "\<forall>x. ?f x \<noteq> Seated (mr_room r)"
        using A False fresh_room [OF core_okD(1) [OF c]] by (simp add: place_Seated)
    qed (use q in blast)
    moreover have E: "place c' x = (if x \<in> set ps then Seated (mr_room r) else ?f x)" for x
    proof (cases "x \<in> set ps")
      case True
      then show ?thesis using A False by (simp add: place_def ps_def)
    next
      case out: False
      then show ?thesis using M [of x] away False by (auto simp: place_def ps_def split: option.splits)
    qed
    have "place c' = (\<lambda>x. if x \<in> set ps then Seated (mr_room r) else ?f x)" by (rule ext) (rule E)
    ultimately have "lobby_step ?f (place c')" by simp
    then show ?thesis using w by (meson r_into_rtranclp rtranclp.rtrancl_into_rtrancl)
  qed
qed

lemma match_conns: "GetConnectionIdByPlayer (co_sessions (fst (HandleMatch c conn body now))) q =
    GetConnectionIdByPlayer (co_sessions c) q" if "core_ok c"
proof (cases "\<exists>p. GetPlayerIdByConnection (co_sessions c) conn = Some p \<and> ParseMode body = Some 3 \<and>
    GetState (co_players c) p = Lobby \<and> \<not> waits c p")
  case True
  then show ?thesis using HandleMatch_moves(3) [OF that _ _ _ _ refl prod.collapse [symmetric]] by blast
next
  case False
  then show ?thesis
    using HandleMatch_refused [OF that, of conn] ParseMode_3 [of body]
    by (cases "GetPlayerIdByConnection (co_sessions c) conn"; cases "ParseMode body") (auto, metis fst_conv)
qed

lemma leave_all:
  "\<forall>p \<in> set ps. f p = Waiting \<Longrightarrow> lobby_step\<^sup>*\<^sup>* f (\<lambda>p. if p \<in> set ps then Away else f p)"
proof (induction ps rule: rev_induct)
  case (snoc p ps)
  let ?g = "\<lambda>q. if q \<in> set ps then Away else f q"
  have "lobby_step\<^sup>*\<^sup>* ?g (\<lambda>q. if q \<in> set (ps @ [p]) then Away else f q)"
  proof (cases "p \<in> set ps")
    case True
    then have "set (ps @ [p]) = set ps" by auto
    then show ?thesis by (simp only: rtranclp.rtrancl_refl)
  next
    case False
    then have "lobby_step ?g (?g(p := Away))" using snoc.prems by (intro leave) simp
    moreover have "?g(p := Away) = (\<lambda>q. if q \<in> set (ps @ [p]) then Away else f q)" by auto
    ultimately show ?thesis by auto
  qed
  moreover have "lobby_step\<^sup>*\<^sup>* f ?g" by (rule snoc.IH) (use snoc.prems in simp)
  ultimately show ?case by (rule rtranclp_trans [rotated])
qed simp

lemma timeout_place:
  assumes c: "core_ok c" and H: "HandleMatchTimeout c now timeout = (c', late)"
  shows "lobby_step\<^sup>*\<^sup>* (place c) (place c')"
proof -
  let ?late = "map mp_player (snd (PopTimeoutPlayers (co_match c) now timeout))"
  note m = core_okD(2) [OF c]
  have "\<forall>p \<in> set ?late. place c p = Waiting"
    using late_waits [OF m, of _ now timeout] place_Waiting [OF c] by (simp add: waits_def)
  moreover have E: "place c' p = (if p \<in> set ?late then Away else place c p)" for p
  proof -
    have r: "co_rooms c' = co_rooms c" and w: "waits c' p \<longleftrightarrow> waits c p \<and> p \<notin> set ?late"
      using H PopTimeout_waits [OF m, of now timeout p] by (auto simp: HandleMatchTimeout_def waits_def split_beta)
    have "GetRoomIdByPlayer (co_rooms c) p = None" if "p \<in> set ?late"
      using late_waits [OF m, of p now timeout] core_okD(4) [OF c, of p] that by (simp add: waits_def in_room_def)
    then show ?thesis using w by (auto simp: place_def r split: option.split)
  qed
  have "place c' = (\<lambda>p. if p \<in> set ?late then Away else place c p)" by (rule ext) (rule E)
  ultimately show ?thesis using leave_all [of ?late "place c"] by simp
qed

lemma cancel_place:
  assumes c: "core_ok c" and p: "GetState (co_players c) p = Matching"
    and c': "co_rooms c' = co_rooms c" "co_match c' = fst (Cancel (co_match c) p)"
  shows "lobby_step (place c) (place c')"
proof -
  have w: "waits c' q \<longleftrightarrow> waits c q \<and> q \<noteq> p" for q
    by (simp add: waits_def c' waits_Cancel [OF core_okD(2) [OF c]])
  have pw: "waits c p" by (rule core_okD(7) [OF c p])
  then have "place c' = (place c)(p := Away)"
    using w core_okD(4) [OF c pw] by (auto simp: place_def c'(1) in_room_def fun_eq_iff split: option.split)
  moreover have "place c p = Waiting" using pw place_Waiting [OF c] by simp
  ultimately show ?thesis using leave by metis
qed

subsection \<open>The handlers\<close>

text \<open>Like \<open>tells\<close>, but players may change connection first: a hand goes to the connection that its
  player has afterwards.\<close>

definition serves :: "'w server \<Rightarrow> 'w server \<Rightarrow> bool" where
  "serves s s' \<longleftrightarrow>
     (core_ok (sv_core s) \<longrightarrow>
        core_ok (sv_core s') \<and> lobby_step\<^sup>*\<^sup>* (place (sv_core s)) (place (sv_core s')) \<and>
        (\<exists>xs. sv_out s' = sv_out s @ xs \<and> list_all (well_sent (conn_of s')) xs))"

lemma tells_serves: "tells s s' \<Longrightarrow> serves s s'"
  by (auto simp: tells_def serves_def)

lemma serves_tells: "serves s t \<Longrightarrow> tells t u \<Longrightarrow> serves s u"
  unfolding serves_def tells_def by (auto intro: rtranclp_trans)

lemma tells_then_serves: "tells s t \<Longrightarrow> sv_out t = sv_out s \<Longrightarrow> serves t u \<Longrightarrow> serves s u"
  unfolding serves_def tells_def by (auto intro: rtranclp_trans)

lemma serves_moved:
  "(core_ok (sv_core s) \<Longrightarrow> core_ok (sv_core t) \<and> lobby_step\<^sup>*\<^sup>* (place (sv_core s)) (place (sv_core t))) \<Longrightarrow>
   sv_out t = sv_out s \<Longrightarrow> serves s t"
  by (auto simp: serves_def)

lemma tells_moved:
  "(core_ok (sv_core s) \<Longrightarrow> core_ok (sv_core t) \<and> lobby_step\<^sup>*\<^sup>* (place (sv_core s)) (place (sv_core t)) \<and>
      (\<forall>p. conn_of t p = conn_of s p)) \<Longrightarrow> sv_out t = sv_out s \<Longrightarrow> tells s t"
  by (auto simp: tells_def fun_eq_iff)

lemma tells_kick: "tells s (kick old conn s)"
  by (auto simp: kick_def well_sent_def intro!: tells_emit split: option.split)

lemma kick_core [simp]: "sv_core (kick old conn s) = sv_core s"
  by (simp add: kick_def split: option.split)

lemma tells_resume:
  assumes "conn_of s p = Some conn"
  shows "tells s (resume_room s p conn rid sn)"
proof -
  let ?s1 = "upd_rooms (\<lambda>m. fst (MarkPlayerOnline m p)) s"
  let ?s2 = "NotifyRoomSnapshot ?s1 p conn sn"
  let ?s3 = "NotifyPrivateHandByConnection ?s2 p conn rid (sn_version sn)"
  have "conn_of ?s2 p = Some conn" using assms by (simp add: conn_of_def NotifyRoomSnapshot_def)
  then have h: "tells ?s2 ?s3" by (rule tells_private_hand)
  have "tells s ?s1" by (rule tells_rooms) blast
  also have "tells ?s1 ?s2" by (rule tells_snapshot)
  also note h
  also have "tells ?s3 (push_v2 ?s3 rid)" by (rule tells_push_v2)
  also have "tells \<dots> (NotifyPlayerReconnectInRoom (push_v2 ?s3 rid) rid p)" by (rule tells_NotifyPlayerReconnect)
  finally show ?thesis by (simp add: resume_room_def Let_def)
qed

text \<open>What a login and a reconnection do before the player's room is resumed.\<close>

lemma login_serves:
  assumes H: "HandleLogin sh (sv_front s) conn body now = (fr, r)"
  shows "serves s (s\<lparr>sv_front := fr\<rparr>)"
    "lr_code r = OK \<Longrightarrow> conn_of (s\<lparr>sv_front := fr\<rparr>) (lr_player r) = Some conn"
proof -
  have core: "fo_core fr = fo_core (sv_front s) \<and> lr_code r \<noteq> OK \<or>
      (\<exists>p nick. fo_core fr = fst (login_core (fo_core (sv_front s)) p conn nick now) \<and>
         (lr_code r = OK \<longrightarrow> lr_player r = p))"
  proof (cases rule: HandleLogin_cases [where sh = sh and f = "sv_front s" and conn = conn and body = body and now = now])
    case (refused r')
    then show ?thesis using H by (auto split: option.splits if_splits)
  next
    case (accepted f' r' ticket p a t)
    then show ?thesis using H by auto
  qed
  show "serves s (s\<lparr>sv_front := fr\<rparr>)"
  proof (rule serves_moved)
    assume ok: "core_ok (sv_core s)"
    have "place (fo_core fr) = place (fo_core (sv_front s))"
      using core by (auto intro!: place_frame simp: login_core_sel)
    then show "core_ok (sv_core (s\<lparr>sv_front := fr\<rparr>)) \<and>
        lobby_step\<^sup>*\<^sup>* (place (sv_core s)) (place (sv_core (s\<lparr>sv_front := fr\<rparr>)))"
      using HandleLogin_ok [of "sv_front s" sh conn body now] ok H by (simp add: sv_core_def)
  qed simp
  show "lr_code r = OK \<Longrightarrow> conn_of (s\<lparr>sv_front := fr\<rparr>) (lr_player r) = Some conn"
    using core by (auto simp: conn_of_def sv_core_def login_core_sel conn_BindLogin)
qed

lemma reconnect_serves:
  assumes H: "HandleReconnect sh (sv_front s) conn body now = (fr, r)"
  shows "serves s (s\<lparr>sv_front := fr\<rparr>)"
    "rr_snapshot r \<noteq> None \<Longrightarrow> conn_of (s\<lparr>sv_front := fr\<rparr>) (rr_player r) = Some conn"
proof -
  have core: "fo_core fr = fo_core (sv_front s) \<and> rr_snapshot r = None \<or>
      fo_core fr = reconnect_core (fo_core (sv_front s)) (rr_player r) conn now \<and>
      sm_sessions (co_sessions (fo_core (sv_front s))) (rr_player r) \<noteq> None"
  proof (cases rule: HandleReconnect_cases [where sh = sh and f = "sv_front s" and conn = conn and body = body and now = now])
    case (refused f' r')
    then show ?thesis using H by simp
  next
    case (accepted f' r' q)
    then show ?thesis using H by simp
  qed
  show "serves s (s\<lparr>sv_front := fr\<rparr>)"
  proof (rule serves_moved)
    assume ok: "core_ok (sv_core s)"
    have "place (fo_core fr) = place (fo_core (sv_front s))"
      using core by (auto intro!: place_frame simp: reconnect_core_def)
    then show "core_ok (sv_core (s\<lparr>sv_front := fr\<rparr>)) \<and>
        lobby_step\<^sup>*\<^sup>* (place (sv_core s)) (place (sv_core (s\<lparr>sv_front := fr\<rparr>)))"
      using HandleReconnect_ok [of "sv_front s" sh conn body now] ok H by (simp add: sv_core_def)
  qed simp
  show "rr_snapshot r \<noteq> None \<Longrightarrow> conn_of (s\<lparr>sv_front := fr\<rparr>) (rr_player r) = Some conn"
    using core by (auto simp: conn_of_def sv_core_def reconnect_core_def RebindForReconnect_def
        GetConnectionIdByPlayer_def Let_def)
qed

text \<open>What every handler does: it answers the request under the given identifier.\<close>

definition answers :: "32 word \<Rightarrow> 'w server \<Rightarrow> packet \<Rightarrow> 'w server \<times> (packet \<times> bool) option \<Rightarrow> bool" where
  "answers msg s request x \<longleftrightarrow>
     serves s (fst x) \<and>
     (\<exists>response. snd x = Some (response, True) \<and> pk_msg_id response = msg \<and>
        pk_seq_id response = pk_seq_id request)"

lemma reply_sel [simp]: "pk_msg_id (reply msg request p fs) = msg" "pk_seq_id (reply msg request p fs) = pk_seq_id request"
  by (simp_all add: reply_def)

lemma answersI: "serves s s' \<Longrightarrow> answers msg s request (s', Some (reply msg request p fs, True))"
  by (simp add: answers_def)

lemma on_login_answers: "answers MSG_LOGIN_RESP s request (on_login e s request conn)"
proof -
  obtain s1 now where N: "NowMs e s = (s1, now)" by fastforce
  obtain fr r where H: "HandleLogin (en_shell e) (sv_front s1) conn (pk_body request) now = (fr, r)" by fastforce
  let ?s2 = "s1\<lparr>sv_front := fr\<rparr>" and ?s3 = "kick (lr_kick r) conn (s1\<lparr>sv_front := fr\<rparr>)"
  have n: "tells s s1" "sv_out s1 = sv_out s" using tells_NowMs [of s e] NowMs_frame(2) [of e s] N by simp_all
  have s3: "serves s ?s3"
    using tells_then_serves [OF n login_serves(1) [OF H]] tells_kick by (rule serves_tells)
  have "serves s (resume_room ?s3 (lr_player r) conn rid sn)" if "lr_code r = OK" for rid sn
    by (rule serves_tells [OF s3 tells_resume]) (use login_serves(2) [OF H that] in \<open>simp add: conn_of_def\<close>)
  then show ?thesis unfolding on_login_def N H prod.case Let_def
    by (intro answersI) (use s3 in \<open>auto split: option.split\<close>)
qed

lemma on_reconnect_answers: "answers MSG_RECONNECT_RESP s request (on_reconnect e s request conn)"
proof -
  obtain s1 now where N: "NowMs e s = (s1, now)" by fastforce
  obtain fr r where H: "HandleReconnect (en_shell e) (sv_front s1) conn (pk_body request) now = (fr, r)" by fastforce
  let ?s2 = "s1\<lparr>sv_front := fr\<rparr>" and ?s3 = "kick (rr_kick r) conn (s1\<lparr>sv_front := fr\<rparr>)"
  have n: "tells s s1" "sv_out s1 = sv_out s" using tells_NowMs [of s e] NowMs_frame(2) [of e s] N by simp_all
  have s3: "serves s ?s3"
    using tells_then_serves [OF n reconnect_serves(1) [OF H]] tells_kick by (rule serves_tells)
  have "serves s (resume_room ?s3 (rr_player r) conn rid sn)" if "rr_snapshot r \<noteq> None" for rid sn
    by (rule serves_tells [OF s3 tells_resume]) (use reconnect_serves(2) [OF H that] in \<open>simp add: conn_of_def\<close>)
  then show ?thesis unfolding on_reconnect_def N H prod.case Let_def
    by (intro answersI) (use s3 in \<open>auto split: option.split\<close>)
qed

lemma heartbeat_core:
  assumes "core_ok c" "UpdateHeartbeatByConnection (co_sessions c) conn now = (sm, ok)"
  shows "core_ok (c\<lparr>co_sessions := sm\<rparr>)" "GetConnectionIdByPlayer sm p = GetConnectionIdByPlayer (co_sessions c) p"
proof -
  note D = core_okD [OF assms(1)]
  have sm: "sm_conn sm = sm_conn (co_sessions c)"
    "sm_sessions sm q = None \<longleftrightarrow> sm_sessions (co_sessions c) q = None"
    "sm_sessions (co_sessions c) q = Some x \<Longrightarrow> \<exists>y. sm_sessions sm q = Some y \<and> ss_room y = ss_room x" for q x
    using assms(2) by (auto simp: UpdateHeartbeatByConnection_def split: option.splits if_splits)
  have "core_ok (c\<lparr>co_players := co_players c, co_sessions := sm\<rparr>)"
  proof (rule core_players_sessions [OF assms(1)])
    show "sm_conn sm d = Some q \<Longrightarrow> sm_sessions sm q \<noteq> None" for d q
      using D(9) [of d q] sm(1) sm(2) [of q] by simp
    show "sm_sessions sm q \<noteq> None \<Longrightarrow> 0 < q" for q using D(10) [of q] sm(2) [of q] by simp
  qed (use D(7,8) sm(3) in blast)+
  then show "core_ok (c\<lparr>co_sessions := sm\<rparr>)" by simp
  show "GetConnectionIdByPlayer sm p = GetConnectionIdByPlayer (co_sessions c) p"
    using assms(2) by (auto simp: UpdateHeartbeatByConnection_def GetConnectionIdByPlayer_def split: option.splits if_splits)
qed

lemma on_heartbeat_answers: "answers MSG_HEARTBEAT_RESP s request (on_heartbeat e s request conn)"
proof -
  obtain s1 now where N: "NowMs e s = (s1, now)" by fastforce
  obtain sm ok where U: "UpdateHeartbeatByConnection (co_sessions (sv_core s1)) conn now = (sm, ok)" by fastforce
  let ?s2 = "upd_core (\<lambda>c. c\<lparr>co_sessions := sm\<rparr>) s1"
  have "tells s1 ?s2"
    by (rule tells_moved)
      (use heartbeat_core [OF _ U] place_frame [of "(sv_core s1)\<lparr>co_sessions := sm\<rparr>" "sv_core s1"]
       in \<open>simp_all add: conn_of_def\<close>)
  then have s2: "tells s ?s2" using tells_NowMs [of s e] N tells_trans [of s s1 ?s2] by simp
  have "tells s (redis_presence e ?s2 p True rid)" for p rid
    by (rule tells_trans [OF s2 tells_same]) simp_all
  then show ?thesis unfolding on_heartbeat_def N U prod.case Let_def
    by (simp split: if_split) (auto intro!: answersI tells_serves s2 split: option.split)
qed

lemma on_match_answers: "answers MSG_MATCH_RESP s request (on_match e s request conn)"
proof -
  obtain s1 now where N: "NowMs e s = (s1, now)" by fastforce
  obtain c r where H: "HandleMatch (sv_core s1) conn (pk_body request) now = (c, r)" by fastforce
  have "tells s1 (upd_core (\<lambda>_. c) s1)"
    by (rule tells_moved)
      (use match_place [OF _ H] match_conns [of "sv_core s1"] HandleMatch_ok [of "sv_core s1"] H
       in \<open>simp_all add: conn_of_def, metis fst_conv\<close>)
  then have s2: "tells s (upd_core (\<lambda>_. c) s1)" using tells_NowMs [of s e] N tells_trans [of s s1] by simp
  then have "tells s (NotifyMatchSuccess e (upd_core (\<lambda>_. c) s1) (mr_room r) (mr_mode r) (mr_players r))"
    by (rule tells_trans [OF _ tells_match_success])
  then show ?thesis unfolding on_match_def N H prod.case Let_def
    by (intro answersI tells_serves) (use s2 in simp)
qed

lemma on_cancel_answers: "answers MSG_CANCEL_MATCH_RESP s request (on_cancel_match e s request conn)"
proof -
  obtain c code p where H: "HandleCancelMatch (sv_core s) conn = (c, code, p)" by (metis prod_cases3)
  have "tells s (upd_core (\<lambda>_. c) s)"
  proof (rule tells_moved)
    assume ok: "core_ok (sv_core s)"
    have "core_ok c" using HandleCancelMatch_ok [OF ok, of conn] H by simp
    moreover have "lobby_step\<^sup>*\<^sup>* (place (sv_core s)) (place c)"
      using H cancel_place [OF ok] unfolding HandleCancelMatch_cases [OF ok]
      by (auto split: option.splits if_splits intro!: r_into_rtranclp)
    moreover have "GetConnectionIdByPlayer (co_sessions c) q = GetConnectionIdByPlayer (co_sessions (sv_core s)) q" for q
      using H unfolding HandleCancelMatch_cases [OF ok] by (auto split: option.splits if_splits)
    ultimately show "core_ok (sv_core (upd_core (\<lambda>_. c) s)) \<and>
        lobby_step\<^sup>*\<^sup>* (place (sv_core s)) (place (sv_core (upd_core (\<lambda>_. c) s))) \<and>
        (\<forall>q. conn_of (upd_core (\<lambda>_. c) s) q = conn_of s q)"
      by (simp add: conn_of_def)
  qed simp
  then show ?thesis by (simp add: on_cancel_match_def H answersI tells_serves)
qed

lemma on_refresh_answers: "answers MSG_SESSION_REFRESH_RESP s request (on_session_refresh e s request conn)"
proof -
  obtain s1 now where N: "NowMs e s = (s1, now)" by fastforce
  obtain fr r where H: "HandleSessionRefresh (en_shell e) (sv_front s1) (pk_body request) now = (fr, r)" by fastforce
  have "tells s1 (s1\<lparr>sv_front := fr\<rparr>)"
    by (rule tells_same) (use HandleSessionRefresh_cases(1) [OF H] in \<open>simp_all add: sv_core_def\<close>)
  then have "tells s (s1\<lparr>sv_front := fr\<rparr>)" using tells_NowMs [of s e] N tells_trans [of s s1] by simp
  then show ?thesis by (simp add: on_session_refresh_def N H answersI tells_serves)
qed

lemma on_action_answers:
  assumes "is_shuffle (en_shuffle e)"
  shows "answers MSG_PLAYER_ACTION_RESP s request (on_player_action e s request conn)"
proof (cases "GetPlayerIdByConnection (co_sessions (sv_core s)) conn")
  case None
  then show ?thesis by (simp add: on_player_action_def answersI tells_serves Let_def)
next
  case (Some p)
  show ?thesis
  proof (cases "ParseActionBody (pk_body request)")
    case None
    then show ?thesis by (simp add: on_player_action_def Some answersI tells_serves Let_def)
  next
    case (Some b)
    obtain rid q where b: "b = (rid, q)" by fastforce
    obtain rooms x where A: "ApplyPlayerAction (en_shuffle e) (co_rooms (sv_core s)) rid p q = (rooms, x)" by fastforce
    have U: "tells s (upd_rooms (\<lambda>_. rooms) s)" using tells_apply_action(1) [OF assms, of s rid p q] A by simp
    have F: "tells s (fst (finish_action e (upd_rooms (\<lambda>_. rooms) s) rid res))" for res
      by (rule tells_trans [OF U tells_finish])
    show ?thesis
      using U F \<open>GetPlayerIdByConnection (co_sessions (sv_core s)) conn = Some p\<close>
      by (auto simp: on_player_action_def Some b A Let_def split_beta intro!: answersI tells_serves split: sum.split)
  qed
qed

lemma on_settlement_answers: "answers MSG_SETTLEMENT_RESP s request (on_settlement_request e s request conn)"
  by (simp add: on_settlement_request_def answersI tells_serves)

subsection \<open>Messages, closed connections, the timer\<close>

lemmas msg_id_defs =
  MSG_LOGIN_REQ_def MSG_LOGIN_RESP_def MSG_HEARTBEAT_REQ_def MSG_HEARTBEAT_RESP_def MSG_MATCH_REQ_def
  MSG_MATCH_RESP_def MSG_CANCEL_MATCH_REQ_def MSG_CANCEL_MATCH_RESP_def MSG_RECONNECT_REQ_def
  MSG_RECONNECT_RESP_def MSG_SESSION_REFRESH_REQ_def MSG_SESSION_REFRESH_RESP_def
  MSG_PLAYER_ACTION_REQ_def MSG_PLAYER_ACTION_RESP_def MSG_SETTLEMENT_REQ_def MSG_SETTLEMENT_RESP_def

definition request_ids :: "32 word set" where
  "request_ids = {MSG_LOGIN_REQ, MSG_HEARTBEAT_REQ, MSG_MATCH_REQ, MSG_CANCEL_MATCH_REQ, MSG_RECONNECT_REQ,
     MSG_SESSION_REFRESH_REQ, MSG_PLAYER_ACTION_REQ, MSG_SETTLEMENT_REQ}"

lemma server_dispatcher_eq:
  "server_dispatcher e =
     [MSG_LOGIN_REQ \<mapsto> on_login e, MSG_HEARTBEAT_REQ \<mapsto> on_heartbeat e, MSG_MATCH_REQ \<mapsto> on_match e,
      MSG_CANCEL_MATCH_REQ \<mapsto> on_cancel_match e, MSG_RECONNECT_REQ \<mapsto> on_reconnect e,
      MSG_SESSION_REFRESH_REQ \<mapsto> on_session_refresh e, MSG_PLAYER_ACTION_REQ \<mapsto> on_player_action e,
      MSG_SETTLEMENT_REQ \<mapsto> on_settlement_request e]"
  by (simp add: server_dispatcher_def RegisterHandlers_def Register_def)

lemma server_dispatcher_cases:
  obtains (known) h msg where "server_dispatcher e m = Some h" "m \<in> request_ids" "msg = m + 1"
      "h = on_login e \<and> msg = MSG_LOGIN_RESP \<or> h = on_heartbeat e \<and> msg = MSG_HEARTBEAT_RESP \<or>
       h = on_match e \<and> msg = MSG_MATCH_RESP \<or> h = on_cancel_match e \<and> msg = MSG_CANCEL_MATCH_RESP \<or>
       h = on_reconnect e \<and> msg = MSG_RECONNECT_RESP \<or> h = on_session_refresh e \<and> msg = MSG_SESSION_REFRESH_RESP \<or>
       h = on_player_action e \<and> msg = MSG_PLAYER_ACTION_RESP \<or>
       h = on_settlement_request e \<and> msg = MSG_SETTLEMENT_RESP"
  | (unknown) "server_dispatcher e m = None" "m \<notin> request_ids"
proof (cases "m \<in> request_ids")
  case True
  then show ?thesis
    by (intro known [of "the (server_dispatcher e m)" "m + 1"])
      (auto simp: server_dispatcher_eq request_ids_def msg_id_defs)
next
  case False
  then show ?thesis by (intro unknown) (simp_all add: server_dispatcher_eq request_ids_def)
qed

text \<open>The answer alone needs no assumption on the state.\<close>

lemma replies:
  "\<exists>p fs. snd (on_login e s request conn) = Some (reply MSG_LOGIN_RESP request p fs, True)"
  "\<exists>p fs. snd (on_heartbeat e s request conn) = Some (reply MSG_HEARTBEAT_RESP request p fs, True)"
  "\<exists>p fs. snd (on_match e s request conn) = Some (reply MSG_MATCH_RESP request p fs, True)"
  "\<exists>p fs. snd (on_cancel_match e s request conn) = Some (reply MSG_CANCEL_MATCH_RESP request p fs, True)"
  "\<exists>p fs. snd (on_reconnect e s request conn) = Some (reply MSG_RECONNECT_RESP request p fs, True)"
  "\<exists>p fs. snd (on_session_refresh e s request conn) = Some (reply MSG_SESSION_REFRESH_RESP request p fs, True)"
  "\<exists>p fs. snd (on_player_action e s request conn) = Some (reply MSG_PLAYER_ACTION_RESP request p fs, True)"
  "\<exists>p fs. snd (on_settlement_request e s request conn) = Some (reply MSG_SETTLEMENT_RESP request p fs, True)"
proof -
  show "\<exists>p fs. snd (on_player_action e s request conn) = Some (reply MSG_PLAYER_ACTION_RESP request p fs, True)"
    by (cases "GetPlayerIdByConnection (co_sessions (sv_core s)) conn"; cases "ParseActionBody (pk_body request)")
      (auto simp: on_player_action_def Let_def split_beta split: prod.split sum.split)
  show "\<exists>p fs. snd (on_heartbeat e s request conn) = Some (reply MSG_HEARTBEAT_RESP request p fs, True)"
    by (cases "snd (UpdateHeartbeatByConnection (co_sessions (sv_core (fst (NowMs e s)))) conn (snd (NowMs e s)))")
      (simp_all add: on_heartbeat_def Let_def split_beta, blast+)
qed (simp_all add: on_login_def on_match_def on_cancel_match_def on_reconnect_def
    on_session_refresh_def on_settlement_request_def Let_def split_beta split del: if_split, blast+)

lemma dispatched:
  assumes "Dispatch (server_dispatcher e) s request conn = (s', response, b)"
  shows "b" "pk_msg_id response = pk_msg_id request + 1" "pk_seq_id response = pk_seq_id request"
    "pk_msg_id request \<notin> request_ids \<Longrightarrow> s' = s \<and> response = reply_error request ''ERR:UNHANDLED_MSG''"
    "is_shuffle (en_shuffle e) \<Longrightarrow> serves s s'"
proof -
  have "b \<and> pk_msg_id response = pk_msg_id request + 1 \<and> pk_seq_id response = pk_seq_id request \<and>
      (pk_msg_id request \<notin> request_ids \<longrightarrow> s' = s \<and> response = reply_error request ''ERR:UNHANDLED_MSG'') \<and>
      (is_shuffle (en_shuffle e) \<longrightarrow> serves s s')"
  proof (cases rule: server_dispatcher_cases [of e "pk_msg_id request"])
  case (known h msg)
  obtain p fs where R: "snd (h s request conn) = Some (reply msg request p fs, True)"
    using known(4) replies by metis
  obtain t where T: "h s request conn = (t, Some (reply msg request p fs, True))"
    using R by (cases "h s request conn") auto
  have "serves s t" if sh: "is_shuffle (en_shuffle e)"
  proof -
    have "answers msg s request (h s request conn)"
      using known(4) on_login_answers on_heartbeat_answers on_match_answers on_cancel_answers on_reconnect_answers
        on_refresh_answers on_action_answers [OF sh] on_settlement_answers by metis
    then show ?thesis by (simp add: answers_def T)
  qed
  then show ?thesis
    using assms T known(1,2,3) by (auto simp: Dispatch_def)
next
  case unknown
  then show ?thesis
    using assms by (auto simp: Dispatch_def reply_error_def tells_serves)
  qed
  then show "b" "pk_msg_id response = pk_msg_id request + 1" "pk_seq_id response = pk_seq_id request"
    "pk_msg_id request \<notin> request_ids \<Longrightarrow> s' = s \<and> response = reply_error request ''ERR:UNHANDLED_MSG''"
    "is_shuffle (en_shuffle e) \<Longrightarrow> serves s s'"
    by blast+
qed

lemma Append_grows: "\<exists>xs. AppendKvFieldIfMissing body key v = body @ xs"
  by (simp add: AppendKvFieldIfMissing_def)

lemma trace_body_prefix:
  "\<exists>xs. AppendKvFieldIfMissing (AppendKvFieldIfMissing (AppendKvFieldIfMissing body k1 v1) k2 v2) k3 v3 = body @ xs"
  using Append_grows by (metis append_assoc)

lemma response_not_hand:
  assumes "Dispatch (server_dispatcher e) s request conn = (s', response, b)"
  shows "\<not> is_hand (response\<lparr>pk_body := pk_body response @ xs\<rparr>)"
proof (cases "pk_msg_id request \<in> request_ids")
  case True
  then have "pk_msg_id response \<noteq> MSG_PRIVATE_HAND_NOTIFY"
    unfolding dispatched(2) [OF assms] by (auto simp: request_ids_def msg_id_defs MSG_PRIVATE_HAND_NOTIFY_def)
  then show ?thesis by (simp add: is_hand_def)
next
  case False
  then show ?thesis using dispatched(4) [OF assms] by (simp add: is_hand_def reply_error_def)
qed

text \<open>Measuring, tracing and reporting touch neither the managers nor what was sent.\<close>

lemma Trace_frame [simp]:
  "sv_core (fst (GenerateTraceId e s conn seq)) = sv_core s" "sv_out (fst (GenerateTraceId e s conn seq)) = sv_out s"
  by (simp_all add: GenerateTraceId_def NowMs_def sv_core_def)

lemma OnMessage_eq:
  fixes e :: "'w env"
  obtains s2 s3 :: "'w server" and response xs where
    "sv_core s2 = sv_core s" "sv_out s2 = sv_out s" "sv_front s2 = sv_front s" "sv_store s2 = sv_store s"
    "sv_settling s2 = sv_settling s"
    "Dispatch (server_dispatcher e) s2 pk conn = (s3, response, True)"
    "sv_core (OnMessage e s conn pk) = sv_core s3" "sv_front (OnMessage e s conn pk) = sv_front s3"
    "sv_store (OnMessage e s conn pk) = sv_store s3" "sv_settling (OnMessage e s conn pk) = sv_settling s3"
    "sv_out (OnMessage e s conn pk) = sv_out s3 @ [Send conn (response\<lparr>pk_body := pk_body response @ xs\<rparr>)]"
proof -
  obtain s1 start where N: "NowMs e s = (s1, start)" by fastforce
  obtain s2 trace where G: "GenerateTraceId e s1 conn (pk_seq_id pk) = (s2, trace)" by fastforce
  obtain s3 response b where D: "Dispatch (server_dispatcher e) s2 pk conn = (s3, response, b)" by (metis prod_cases3)
  obtain h5 gw where P: "ParseGatewayTraceFields (pk_body pk) = (h5, gw)" by fastforce
  have b: "b" by (rule dispatched(1) [OF D])
  obtain xs where X: "AppendKvFieldIfMissing (AppendKvFieldIfMissing (AppendKvFieldIfMissing
      (pk_body response) ''h5_request_id'' h5) ''gateway_trace_id'' gw) ''server_trace_id'' trace = pk_body response @ xs"
    using trace_body_prefix by metis
  show thesis
  proof (rule that [of s2 s3 response xs])
    show "Dispatch (server_dispatcher e) s2 pk conn = (s3, response, True)" using D b by simp
    show "sv_core s2 = sv_core s" "sv_out s2 = sv_out s" "sv_front s2 = sv_front s" "sv_store s2 = sv_store s"
      "sv_settling s2 = sv_settling s"
      using N G by (auto simp: GenerateTraceId_def NowMs_def sv_core_def)
  qed (simp_all add: OnMessage_def N G P D b X Let_def, simp_all add: NowMs_def emit_def sv_core_def)
qed

lemma OnMessage_serves:
  assumes "is_shuffle (en_shuffle e)"
  shows "serves s (OnMessage e s conn pk)"
proof -
  obtain s2 s3 response xs where
    2: "sv_core s2 = sv_core s" "sv_out s2 = sv_out s" and
    D: "Dispatch (server_dispatcher e) s2 pk conn = (s3, response, True)" and
    M: "sv_core (OnMessage e s conn pk) = sv_core s3"
      "sv_out (OnMessage e s conn pk) = sv_out s3 @ [Send conn (response\<lparr>pk_body := pk_body response @ xs\<rparr>)]"
    by (rule OnMessage_eq [of s e pk conn])
  have "serves s s3" by (rule tells_then_serves [OF tells_same [OF 2] 2(2) dispatched(5) [OF D assms]])
  moreover have "tells s3 (OnMessage e s conn pk)"
    using response_not_hand [OF D] by (simp add: tells_def M conn_of_def [abs_def] well_sent_def)
  ultimately show ?thesis by (rule serves_tells)
qed

lemma closed_core:
  fixes now :: millis
  assumes c: "core_ok c" and p: "sm_conn (co_sessions c) conn = Some p"
  defines "mm \<equiv> if GetState (co_players c) p = Matching then fst (Cancel (co_match c) p) else co_match c"
  defines "c' \<equiv> c\<lparr>co_match := mm, co_sessions := fst (MarkOfflineByConnection (co_sessions c) conn now),
      co_players := ForceState (co_players c) p Offline\<rparr>"
  shows "core_ok c'" "lobby_step\<^sup>*\<^sup>* (place c) (place c')"
proof -
  note D = core_okD [OF c]
  let ?pm = "ForceState (co_players c) p Offline"
  have mm: "match_ok mm" "IsMatching mm q \<longleftrightarrow> waits c q \<and> (GetState (co_players c) p = Matching \<longrightarrow> q \<noteq> p)" for q
    using Cancel_ok [OF D(2), of p] D(2) by (auto simp: mm_def waits_Cancel [OF D(2)] waits_def)
  have "core_ok (c\<lparr>co_players := ?pm, co_match := mm\<rparr>)"
  proof (rule core_match_only [OF c mm(1)])
    show "IsMatching mm q \<Longrightarrow> \<not> in_room c q \<and> sm_sessions (co_sessions c) q \<noteq> None" for q
      using mm(2) D(4) [of q] D(5) [of q] by blast
    show "GetState ?pm q = Matching \<Longrightarrow> IsMatching mm q" for q
      using mm(2) D(7) [of q] by (auto split: if_splits)
    show "GetState ?pm q = Lobby \<Longrightarrow> \<not> in_room c q" for q
      using D(8) [of q] by (auto split: if_splits)
  qed
  note E = core_okD [OF this]
  have "core_ok ((c\<lparr>co_players := ?pm, co_match := mm\<rparr>)\<lparr>co_players := ?pm,
      co_sessions := fst (MarkOfflineByConnection (co_sessions c) conn now)\<rparr>)"
    by (rule core_players_sessions [OF \<open>core_ok (c\<lparr>co_players := ?pm, co_match := mm\<rparr>)\<close>])
      (use E(7,8) D(9,10) p in \<open>auto simp: MarkOfflineByConnection_def Let_def split: option.splits if_splits\<close>)
  then show "core_ok c'" by (cases c) (simp add: c'_def)
  show "lobby_step\<^sup>*\<^sup>* (place c) (place c')"
  proof (cases "GetState (co_players c) p = Matching")
    case True
    then have "lobby_step (place c) (place c')" by (intro cancel_place [OF c]) (simp_all add: c'_def mm_def)
    then show ?thesis by auto
  next
    case False
    then have "place c' = place c" by (intro place_frame) (simp_all add: c'_def mm_def)
    then show ?thesis by simp
  qed
qed

lemma OnConnectionClosed_serves: "serves s (OnConnectionClosed e s conn)"
proof (cases "GetPlayerIdByConnection (co_sessions (sv_core s)) conn")
  case None
  then show ?thesis by (simp add: OnConnectionClosed_def tells_serves)
next
  case (Some p)
  define now where "now = en_clock e (sv_ticks s)"
  define t where "t = (fst (NowMs e (upd_core (\<lambda>c. c\<lparr>co_match := (if GetState (co_players c) p = Matching
      then fst (Cancel (co_match c) p) else co_match c),
      co_sessions := fst (MarkOfflineByConnection (co_sessions c) conn now),
      co_players := ForceState (co_players c) p Offline\<rparr>) (fst (NowMs e s)))))"
  define rid where "rid = (case GetSessionByPlayer (co_sessions (sv_core s)) p of Some x \<Rightarrow> ss_room x | None \<Rightarrow> 0)"
  let ?u = "upd_rooms (\<lambda>m. fst (MarkPlayerOffline m p (en_clock e (Suc (sv_ticks s))))) t"
  have E: "OnConnectionClosed e s conn = redis_presence e ?u p False rid"
    unfolding OnConnectionClosed_def Some option.case Let_def
    by (simp add: t_def rid_def now_def NowMs_def upd_core_def sv_core_def)
  have "serves s t"
    by (rule serves_moved)
      (use closed_core [of "sv_core s" conn p now] Some in \<open>simp_all add: t_def GetPlayerIdByConnection_def split del: if_split cong: if_cong\<close>)
  moreover have "tells t ?u" by (rule tells_rooms) blast
  moreover have "tells ?u (redis_presence e ?u p False rid)" by (rule tells_same) simp_all
  ultimately show ?thesis unfolding E by (meson serves_tells)
qed

lemma tells_timeouts:
  "tells s (upd_core (\<lambda>_. fst (HandleMatchTimeout (sv_core s) now timeout)) s)"
proof (rule tells_moved)
  assume ok: "core_ok (sv_core s)"
  obtain c late where H: "HandleMatchTimeout (sv_core s) now timeout = (c, late)" by fastforce
  have "co_sessions c = co_sessions (sv_core s)" using H by (auto simp: HandleMatchTimeout_def split_beta)
  moreover have "core_ok c" using HandleMatchTimeout_ok [OF ok, of now timeout] H by simp
  moreover note timeout_place [OF ok H]
  ultimately show "core_ok (sv_core (upd_core (\<lambda>_. fst (HandleMatchTimeout (sv_core s) now timeout)) s)) \<and>
      lobby_step\<^sup>*\<^sup>* (place (sv_core s)) (place (sv_core (upd_core (\<lambda>_. fst (HandleMatchTimeout (sv_core s) now timeout)) s))) \<and>
      (\<forall>p. conn_of (upd_core (\<lambda>_. fst (HandleMatchTimeout (sv_core s) now timeout)) s) p = conn_of s p)"
    unfolding conn_of_def sv_core_upd H fst_conv by simp
qed simp

text \<open>The tick in four parts.\<close>

lemma TimerTick_eq:
  fixes e :: "'w env" and s :: "'w server"
  obtains s2 s4 :: "'w server" and xs m now timeout late where
    "s2 = emit (CloseIdle (ac_heartbeat_timeout (sv_cfg s))) (fst (NowMs e s))"
    "s4 = NotifyMatchTimeout (upd_core (\<lambda>_. fst (HandleMatchTimeout (sv_core s2) now timeout)) s2) late"
    "now = en_clock e (sv_ticks s)" "timeout = ac_match_timeout (sv_cfg s)"
    "xs = GetAllSessions (en_order e (co_sessions (sv_core s4))) (co_sessions (sv_core s4))"
    "TimerTick e s = (foldl (timer_session e now) s4 xs)\<lparr>sv_metrics := m\<rparr>"
proof -
  define now where "now = en_clock e (sv_ticks s)"
  define s2 where "s2 = emit (CloseIdle (ac_heartbeat_timeout (sv_cfg s))) (fst (NowMs e s))"
  obtain c late where H: "HandleMatchTimeout (sv_core s2) now (ac_match_timeout (sv_cfg s)) = (c, late)" by fastforce
  define s4 where "s4 = NotifyMatchTimeout (upd_core (\<lambda>_. c) s2) late"
  define s5 where "s5 = foldl (timer_session e now) s4
    (GetAllSessions (en_order e (co_sessions (sv_core s4))) (co_sessions (sv_core s4)))"
  have N: "NowMs e s = (fst (NowMs e s), now)" by (simp add: NowMs_def now_def)
  have cfg: "sv_cfg s2 = sv_cfg s" by (simp add: s2_def)
  have if4: "(if late = [] then upd_core (\<lambda>_. c) s2 else NotifyMatchTimeout (upd_core (\<lambda>_. c) s2) late) = s4"
    by (simp add: s4_def NotifyMatchTimeout_def)
  show thesis
  proof (rule that [of s2 s4 now "ac_match_timeout (sv_cfg s)" late _ "fst (TryBuildMetricsSnapshot [] (sv_metrics s5) now)"])
    show "TimerTick e s = (foldl (timer_session e now) s4
        (GetAllSessions (en_order e (co_sessions (sv_core s4))) (co_sessions (sv_core s4))))
      \<lparr>sv_metrics := fst (TryBuildMetricsSnapshot [] (sv_metrics s5) now)\<rparr>"
      unfolding TimerTick_def
      by (subst N) (simp only: prod.case Let_def NowMs_frame(4) s2_def [symmetric] cfg H if4 s5_def [symmetric])
    show "s2 = emit (CloseIdle (ac_heartbeat_timeout (sv_cfg s))) (fst (NowMs e s))" by (fact s2_def)
    show "now = en_clock e (sv_ticks s)" by (fact now_def)
  qed (simp_all add: s4_def H)
qed

lemma TimerTick_serves:
  assumes "is_shuffle (en_shuffle e)"
  shows "serves s (TimerTick e s)"
proof (rule TimerTick_eq [of s e])
  fix s2 s4 xs m now timeout late
  assume E: "s2 = emit (CloseIdle (ac_heartbeat_timeout (sv_cfg s))) (fst (NowMs e s))"
    "s4 = NotifyMatchTimeout (upd_core (\<lambda>_. fst (HandleMatchTimeout (sv_core s2) now timeout)) s2) late"
    "TimerTick e s = (foldl (timer_session e now) s4 xs)\<lparr>sv_metrics := m\<rparr>"
  have "tells s (fst (NowMs e s))" by (rule tells_NowMs)
  also have "tells \<dots> s2" unfolding E(1) by (rule tells_emit) (simp add: well_sent_def)
  also have "tells s2 (upd_core (\<lambda>_. fst (HandleMatchTimeout (sv_core s2) now timeout)) s2)" by (rule tells_timeouts)
  also have "tells \<dots> s4" unfolding E(2) by (rule tells_match_timeout)
  also have "tells s4 (foldl (timer_session e now) s4 xs)"
    by (rule tells_foldl) (rule tells_timer_session [OF assms])
  also have "tells \<dots> (TimerTick e s)" unfolding E(3) by (rule tells_same) (simp_all add: sv_core_def)
  finally show ?thesis by (rule tells_serves)
qed

text \<open>The server as a transition system: what the network and the timer make it do, in any order.\<close>

inductive server_step :: "'w env \<Rightarrow> 'w server \<Rightarrow> 'w server \<Rightarrow> bool" for e where
  message: "server_step e s (OnMessage e s conn pk)"
| closed: "server_step e s (OnConnectionClosed e s conn)"
| tick: "server_step e s (TimerTick e s)"

inductive_cases server_stepE: "server_step e s s'"

lemma server_step_serves: "server_step e s s' \<Longrightarrow> is_shuffle (en_shuffle e) \<Longrightarrow> serves s s'"
  by (auto elim!: server_stepE simp: OnMessage_serves OnConnectionClosed_serves TimerTick_serves)

lemma server_run_serves:
  assumes "(server_step e)\<^sup>*\<^sup>* s s'" "is_shuffle (en_shuffle e)" "core_ok (sv_core s)"
  shows "core_ok (sv_core s') \<and> lobby_step\<^sup>*\<^sup>* (place (sv_core s)) (place (sv_core s'))"
  using assms(1)
proof induction
  case (step t u)
  then show ?case
    using server_step_serves [OF step.hyps(2) assms(2)] by (auto simp: serves_def intro: rtranclp_trans)
qed (use assms(3) in simp)

end
