(* ===== verification/DdzServerOffline.thy ===== *)
theory DdzServerOffline
  imports DdzServerProps
begin

text \<open>
  What the timer does to a player who stays away: the game is settled after 120 seconds. A game can
  be settled when its players are registered and the storage keeps its books in memory; the
  trustee's turn either leaves it so or ends the game itself.
\<close>

definition silent :: "'w server \<Rightarrow> 'w server \<Rightarrow> bool" where
  "silent s t \<longleftrightarrow> sv_core t = sv_core s \<and> sv_store t = sv_store s \<and> sv_settling t = sv_settling s"

lemma silent_refl [simp]: "silent s s"
  by (simp add: silent_def)

lemma silent_trans [trans]: "silent s t \<Longrightarrow> silent t u \<Longrightarrow> silent s u"
  by (simp add: silent_def)

lemma silent_foldl: "(\<And>s x. silent s (f s x)) \<Longrightarrow> silent s (foldl f s xs)"
proof (induction xs arbitrary: s)
  case (Cons x xs)
  then show ?case using silent_trans [of s "f s x"] by simp
qed simp

lemma silent_for_online: "(\<And>s p conn. silent s (f s p conn)) \<Longrightarrow> silent s (for_online f s ps)"
  unfolding for_online_def by (rule silent_foldl) (simp split: option.split)

lemma silent_emit [simp]: "silent s (emit x s)"
  by (simp add: silent_def emit_def sv_core_def)

lemma silent_redis [simp]: "silent s (redis_session e s p rid)"
  by (simp add: silent_def redis_session_def sv_core_def with_redis_frame)

lemma silent_push_action: "silent s (push_action s rid sn)"
proof -
  have "silent s (NotifyRoomStatePush s rid sn)" for s :: "'a server"
    by (auto simp: NotifyRoomStatePush_def intro!: silent_for_online split: option.split)
  moreover have "silent s (push_v2 s rid)" for s :: "'a server"
    by (auto simp: push_v2_def NotifyRoomStatePushV2_def intro!: silent_for_online split: option.split)
  moreover have "silent s (NotifyPrivateHandsInRoom s rid v)" for s :: "'a server" and v
    by (auto simp: NotifyPrivateHandsInRoom_def NotifyPrivateHandByConnection_def intro!: silent_for_online
        split: option.split)
  ultimately show ?thesis unfolding push_action_def by (meson silent_trans)
qed

lemma silent_game_over: "silent s (NotifyGameOver e s res)"
  unfolding NotifyGameOver_def Let_def
proof (rule silent_foldl)
  fix s :: "'a server" and x
  have "silent s (redis_session e (emit a (emit b s)) p rid)" for a b p rid
    by (meson silent_trans silent_emit silent_redis)
  then show "silent s (case GetConnectionIdByPlayer (co_sessions (sv_core s)) (sp_player x) of
      None \<Rightarrow> s
    | Some conn \<Rightarrow>
        redis_session e
          (emit (Send conn (notify MSG_GAME_OVER_NOTIFY (sp_player x)
             [(''room_id'', int_str (se_room res)), (''winner_player_id'', int_str (se_winner res)),
              (''coin_change'', int_str (sp_change x)), (''after_coin'', int_str (sp_after x))]
               \<lparr>pk_msg_id := MSG_GAME_RESULT_PUSH\<rparr>))
            (emit (Send conn (notify MSG_GAME_OVER_NOTIFY (sp_player x)
             [(''room_id'', int_str (se_room res)), (''winner_player_id'', int_str (se_winner res)),
              (''coin_change'', int_str (sp_change x)), (''after_coin'', int_str (sp_after x))])) s))
          (sp_player x) 0)"
    by (simp split: option.split)
qed

subsection \<open>A game that can be settled\<close>

definition settleable :: "'w server \<Rightarrow> room_id \<Rightarrow> player_id \<Rightarrow> bool" where
  "settleable s rid p \<longleftrightarrow>
     core_ok (sv_core s) \<and> rid \<notin> sv_settling s \<and> 0 < rid \<and>
     books_ok (sv_store s) \<and> st_failpoint (sv_store s) = NoFailpoint \<and>
     (\<exists>r. mg_rooms (co_rooms (sv_core s)) rid = Some r \<and> p \<in> set (rm_players r) \<and>
        (\<forall>q \<in> set (rm_players r). co_players (sv_core s) q \<noteq> None))"

definition gone :: "'w server \<Rightarrow> room_id \<Rightarrow> bool" where
  "gone s rid \<longleftrightarrow> mg_rooms (co_rooms (sv_core s)) rid = None"

lemma silent_kept: "silent s t \<Longrightarrow> settleable t rid p = settleable s rid p \<and> gone t rid = gone s rid"
  by (simp add: silent_def settleable_def gone_def)

text \<open>Operations on the rooms that move no player and keep every room.\<close>

lemma settleable_rooms:
  assumes "settleable s rid p" "core_ok (sv_core (upd_rooms g s))"
    "map_option rm_players (mg_rooms (g (co_rooms (sv_core s))) rid) =
     map_option rm_players (mg_rooms (co_rooms (sv_core s)) rid)"
  shows "settleable (upd_rooms g s) rid p"
  using assms by (auto simp: settleable_def upd_rooms_def upd_core_def sv_core_def)

lemma mark_players:
  "map_option rm_players (mg_rooms (fst (MarkPlayerOffline m p t)) rid) = map_option rm_players (mg_rooms m rid)"
  "map_option rm_players (mg_rooms (fst (MarkPlayerTrustee m p b)) rid) = map_option rm_players (mg_rooms m rid)"
  "map_option rm_players (mg_rooms (fst (MarkPlayerOnline m p)) rid) = map_option rm_players (mg_rooms m rid)"
  by (auto simp: MarkPlayerOnline_def mark_online_def MarkPlayerOffline_def MarkPlayerTrustee_def update_player_room_def store_room_def
      mark_offline_def mark_trustee_def Let_def BumpSnapshotVersion_def split: option.split)

subsection \<open>Settling it\<close>

lemma settleableE:
  assumes "settleable s rid p"
  obtains r where "mg_rooms (co_rooms (sv_core s)) rid = Some r" "p \<in> set (rm_players r)" "core_ok (sv_core s)"
    "\<forall>q \<in> set (rm_players r). co_players (sv_core s) q \<noteq> None \<and> 0 < q" "rid \<notin> sv_settling s" "0 < rid"
    "length (rm_players r) = 3" "distinct (rm_players r)" "rm_id r = rid"
proof -
  obtain r where r: "mg_rooms (co_rooms (sv_core s)) rid = Some r" "p \<in> set (rm_players r)"
      "\<forall>q \<in> set (rm_players r). co_players (sv_core s) q \<noteq> None"
    using assms by (auto simp: settleable_def)
  moreover have "seated (rm_players r)" "rm_id r = rid"
    using manager_room [OF core_okD(1), of "sv_core s" rid r] assms r(1) by (auto simp: settleable_def room_ok_def)
  moreover have "0 < q" if "q \<in> set (rm_players r)" for q
  proof -
    have c: "core_ok (sv_core s)" using assms by (simp add: settleable_def)
    have "mg_player_room (co_rooms (sv_core s)) q = Some rid"
      using manager_ok_seat [OF core_okD(1) [OF c]] r(1) that by blast
    then show ?thesis using core_okD(6) [OF c, of q rid] core_okD(10) [OF c, of q] by auto
  qed
  ultimately show thesis using assms by (intro that [of r]) (auto simp: settleable_def seated_def)
qed

lemma settle_settleable:
  assumes "settleable s rid p" "de_room d = rid"
  shows "gone (fst (settle_and_notify e event s d)) rid \<or> settleable (fst (settle_and_notify e event s d)) rid p"
    "mg_rooms (co_rooms (sv_core s)) rid = Some r \<Longrightarrow> de_winner d \<in> set (rm_players r) \<Longrightarrow> 0 < de_base d \<Longrightarrow>
       gone (fst (settle_and_notify e event s d)) rid"
proof -
  obtain r0 where r0: "mg_rooms (co_rooms (sv_core s)) rid = Some r0" "p \<in> set (rm_players r0)" "core_ok (sv_core s)"
      "\<forall>q \<in> set (rm_players r0). co_players (sv_core s) q \<noteq> None \<and> 0 < q" "rid \<notin> sv_settling s" "0 < rid"
      "length (rm_players r0) = 3" "distinct (rm_players r0)" "rm_id r0 = rid"
    by (rule settleableE [OF assms(1)])
  define st where "st = (sv_store s)\<lparr>st_world := fo_world (sv_front s)\<rparr>"
  define now where "now = en_clock e (Suc (sv_ticks s))"
  let ?in = "\<lparr>ts_core = sv_core s, ts_store = st, ts_settling = sv_settling s\<rparr>"
  obtain ts res where H: "SettleByServerResult (en_shell e) ?in d now = (ts, res)" by fastforce
  obtain s1 where S: "settle_now e event s d = (s1, res)" and
    F: "sv_core s1 = ts_core ts" "sv_store s1 = ts_store ts" "sv_settling s1 = ts_settling ts"
    using H by (auto simp: settle_now_def NowMs_def sv_core_def st_def now_def Let_def split_beta)
  have st: "\<not> po_enabled (st_pool st)" "storage_ok st" "st_failpoint st = NoFailpoint" "books_ok st"
    using assms(1) by (simp_all add: settleable_def st_def books_ok_def storage_ok_def coins_ok_def)
  have P: "\<exists>st' i. PersistSettlementTransaction (en_shell e) st (persist_of r0 d now (changes_of (co_players (sv_core s)) r0 d))
      = (st', Inr i)" if "0 < de_winner d"
    by (rule persist_accepts [OF st(1-3)]) (use r0 that in \<open>auto simp: persist_of_def changes_of_def\<close>)
  have res: "if de_winner d \<le> 0 \<or> de_base d \<le> 0 then ts = ?in \<and> se_code res \<noteq> OK
      else if de_winner d \<notin> set (rm_players r0)
      then ts_core ts = (sv_core s)\<lparr>co_rooms := fst (MarkSettling (co_rooms (sv_core s)) rid)\<rparr> \<and>
        ts_store ts = st \<and> ts_settling ts = sv_settling s \<and> se_code res \<noteq> OK
      else ts_core ts = settled_core (sv_core s) r0 d \<and> se_code res = OK"
    using H r0 P assms(2)
    by (auto simp: SettleByServerResult_def settle_body_cases [OF r0(3)] TryBeginSettlement_def EndSettlement_def
        Let_def split: if_splits)
  have N: "silent s1 (fst (settle_and_notify e event s d))"
    by (simp add: settle_and_notify_def S silent_game_over)
  note K = silent_kept [OF N]
  have known: "\<forall>q \<in> set (rm_players r0). co_players (sv_core s) q \<noteq> None" using r0(4) by blast
  have G: "gone s1 rid" if "de_winner d \<in> set (rm_players r0)" "0 < de_base d"
    using that res r0(4) settled_core_sel(3) [OF r0(3) _ known] r0(1) assms(2) F(1) by (auto simp: gone_def)
  show "mg_rooms (co_rooms (sv_core s)) rid = Some r \<Longrightarrow> de_winner d \<in> set (rm_players r) \<Longrightarrow> 0 < de_base d \<Longrightarrow>
       gone (fst (settle_and_notify e event s d)) rid"
    using G K r0(1) by simp
  have "settleable s1 rid p" if "de_winner d \<le> 0 \<or> de_base d \<le> 0"
    using that res assms(1) F st by (auto simp: settleable_def)
  moreover have "settleable s1 rid p"
    if "\<not> (de_winner d \<le> 0 \<or> de_base d \<le> 0)" "de_winner d \<notin> set (rm_players r0)"
    using that res assms(1) F st core_marked [OF r0(3), of rid] r0
    by (auto simp: settleable_def MarkSettling_def mark_state_def store_room_def BumpSnapshotVersion_def Let_def)
  ultimately show "gone (fst (settle_and_notify e event s d)) rid \<or> settleable (fst (settle_and_notify e event s d)) rid p"
    using G K by (metis not_le)
qed

subsection \<open>The trustee's turn and the loss\<close>

lemma apply_keeps_players:
  assumes "is_shuffle shuf" "manager_ok m"
  shows "map_option rm_players (mg_rooms (fst (ApplyTrusteeAction shuf m rid' p)) rid) = map_option rm_players (mg_rooms m rid)"
proof -
  have "map_option rm_players (mg_rooms (fst (ApplyPlayerAction shuf m rid' p q)) rid) = map_option rm_players (mg_rooms m rid)" for q
  proof (cases "mg_rooms m rid'")
    case (Some r)
    have "room_ok r" using manager_room [OF assms(2) Some] by simp
    then show ?thesis
      using apply_identity(1) [OF assms(1), of r p q] Some
      by (auto simp: ApplyPlayerAction_def store_room_def split: prod.split)
  qed (simp add: ApplyPlayerAction_def)
  then show ?thesis by (simp add: ApplyTrusteeAction_def split: option.split sum.split)
qed

lemma trustee_settleable:
  assumes "is_shuffle (en_shuffle e)" "settleable s rid p" "ss_room x = rid"
  shows "gone (trustee_turn e s x) rid \<or> settleable (trustee_turn e s x) rid p"
proof (cases "GetRoomById (co_rooms (sv_core s)) (ss_room x)")
  case (Some r)
  obtain rooms res where A:
    "ApplyTrusteeAction (en_shuffle e) (co_rooms (sv_core s)) (ss_room x) (ss_player x) = (rooms, res)" by fastforce
  let ?s1 = "upd_rooms (\<lambda>_. rooms) s"
  have ok: "core_ok (sv_core s)" using assms(2) by (simp add: settleable_def)
  have "core_ok (sv_core ?s1)"
    using tells_apply_action(2) [OF assms(1), of s "ss_room x" "ss_player x"] A ok by (simp add: tells_def)
  moreover have "map_option rm_players (mg_rooms rooms rid) = map_option rm_players (mg_rooms (co_rooms (sv_core s)) rid)"
    using apply_keeps_players [OF assms(1) core_okD(1) [OF ok], of "ss_room x" "ss_player x" rid] A by simp
  ultimately have U: "settleable ?s1 rid p" using settleable_rooms [OF assms(2)] by simp
  have V: "settleable (push_action ?s1 rid sn) rid p" for sn using silent_kept [OF silent_push_action] U by blast
  show ?thesis
  proof (cases res)
    case (Inr y)
    let ?t = "fst (settle_and_notify e ''trustee_auto_settlement'' (push_action ?s1 rid (ar_snapshot y))
      \<lparr>de_room = rid, de_winner = ar_winner y, de_base = ar_base_coin y\<rparr>)"
    have "gone ?t rid \<or> settleable ?t rid p" by (rule settle_settleable(1) [OF V]) simp
    then show ?thesis
      using assms(2,3) V trustee_turn_def [of e s x, unfolded Some option.case A prod.case Inr sum.case Let_def]
      by (simp split: if_split)
  qed (use U assms(2) in \<open>simp add: trustee_turn_def Some A\<close>)
qed (use assms in \<open>simp add: trustee_turn_def\<close>)

lemma gone_kept: "gone s rid \<Longrightarrow> ss_room x = rid \<Longrightarrow> offline_loss e s x = s"
  by (simp add: offline_loss_def gone_def PickWinnerForOfflineLose_def)

lemma offline_settles:
  assumes "settleable s rid (ss_player x)" "ss_room x = rid"
  shows "gone (offline_loss e s x) rid"
proof -
  obtain r where r: "mg_rooms (co_rooms (sv_core s)) rid = Some r" "length (rm_players r) = 3" "distinct (rm_players r)"
    by (rule settleableE [OF assms(1)])
  obtain w where w: "find (\<lambda>p. p \<noteq> ss_player x) (rm_players r) = Some w" "w \<in> set (rm_players r)"
  proof (cases "find (\<lambda>p. p \<noteq> ss_player x) (rm_players r)")
    case None
    then have "set (rm_players r) \<subseteq> {ss_player x}" by (auto simp: find_None_iff)
    then have "card (set (rm_players r)) \<le> 1" by (metis card.empty card_insert_disjoint card_mono empty_iff finite.intros One_nat_def)
    then show ?thesis using r(2,3) distinct_card [OF r(3)] by simp
  next
    case (Some w)
    then show ?thesis using that by (metis find_Some_iff nth_mem)
  qed
  have "PickWinnerForOfflineLose (co_rooms (sv_core s)) (ss_room x) (ss_player x) = Some w"
    by (simp add: PickWinnerForOfflineLose_def assms(2) r(1) w(1))
  then show ?thesis
    using settle_settleable(2) [OF assms(1), of "\<lparr>de_room = rid, de_winner = w, de_base = 1\<rparr>" r] r(1) w(2)
    by (simp add: offline_loss_def assms(2))
qed

lemma long_absence_settles:
  assumes "is_shuffle (en_shuffle e)" "settleable s (ss_room x) (ss_player x)"
    "\<not> ss_online x" "0 < ss_offline_at x" "kOfflineLoseMs \<le> now - ss_offline_at x"
  shows "gone (timer_session e now s x) (ss_room x)"
proof -
  let ?s1 = "upd_rooms (\<lambda>m. fst (MarkPlayerOffline m (ss_player x) (ss_offline_at x))) s"
  let ?s2 = "upd_rooms (\<lambda>m. fst (MarkPlayerTrustee m (ss_player x) True)) ?s1"
  have ok: "core_ok (sv_core s)" and rid: "0 < ss_room x" using assms(2) by (simp_all add: settleable_def)
  have k: "tells s ?s1" "tells ?s1 ?s2" by (rule tells_rooms, blast)+
  have 1: "settleable ?s1 (ss_room x) (ss_player x)"
    by (rule settleable_rooms [OF assms(2)]) (use k(1) ok in \<open>simp add: tells_def\<close>, rule mark_players)
  have 2: "settleable ?s2 (ss_room x) (ss_player x)"
    by (rule settleable_rooms [OF 1]) (use tells_trans [OF k] ok in \<open>simp add: tells_def\<close>, rule mark_players)
  have T: "gone (trustee_turn e ?s2 x) (ss_room x) \<or> settleable (trustee_turn e ?s2 x) (ss_room x) (ss_player x)"
    by (rule trustee_settleable [OF assms(1) 2 refl])
  have E: "timer_session e now s x = offline_loss e (trustee_turn e ?s2 x) x"
    using assms(3-5) rid by (simp add: timer_session_def Let_def kTrusteeEnterMs_def kOfflineLoseMs_def)
  show ?thesis unfolding E using T gone_kept [of "trustee_turn e ?s2 x"] offline_settles by metis
qed

subsection \<open>Other games\<close>

text \<open>A settlement of another room leaves this one as it is.\<close>

lemma settled_known: "co_players c q \<noteq> None \<Longrightarrow> co_players (settled_core c r d) q \<noteq> None"
proof -
  have a: "m q \<noteq> None \<Longrightarrow> fst (add_coins m cs out) q \<noteq> None" for m cs out
    by (induction m cs out rule: add_coins.induct) (simp_all add: Let_def)
  have r: "co_players c q \<noteq> None \<Longrightarrow> co_players (release_players c ps) q \<noteq> None" for c ps
    by (induction ps rule: rev_induct) (simp_all add: release_players_snoc Let_def ForceState_def, simp add: release_players_def)
  show "co_players c q \<noteq> None \<Longrightarrow> co_players (settled_core c r d) q \<noteq> None"
    unfolding settled_core_def using a r by simp
qed

lemma settle_core_rooms:
  assumes "core_ok (ts_core s)" "SettleByServerResult sh s d now = (s', res)"
  shows "rid \<noteq> de_room d \<Longrightarrow> mg_rooms (co_rooms (ts_core s')) rid = mg_rooms (co_rooms (ts_core s)) rid"
    "mg_rooms (co_rooms (ts_core s)) rid = None \<Longrightarrow> mg_rooms (co_rooms (ts_core s')) rid = None"
    "co_players (ts_core s) q \<noteq> None \<Longrightarrow> co_players (ts_core s') q \<noteq> None"
proof -
  have "ts_core s' = ts_core s \<or>
      ts_core s' = (ts_core s)\<lparr>co_rooms := fst (MarkSettling (co_rooms (ts_core s)) (de_room d))\<rparr> \<or>
      (\<exists>r. mg_rooms (co_rooms (ts_core s)) (de_room d) = Some r \<and> ts_core s' = settled_core (ts_core s) r d \<and>
         (\<forall>p \<in> set (rm_players r). co_players (ts_core s) p \<noteq> None))"
    using settle_ok_cases [OF assms] settle_failed_cases [OF assms] by blast
  then show "rid \<noteq> de_room d \<Longrightarrow> mg_rooms (co_rooms (ts_core s')) rid = mg_rooms (co_rooms (ts_core s)) rid"
    "mg_rooms (co_rooms (ts_core s)) rid = None \<Longrightarrow> mg_rooms (co_rooms (ts_core s')) rid = None"
    "co_players (ts_core s) q \<noteq> None \<Longrightarrow> co_players (ts_core s') q \<noteq> None"
    using settled_core_sel(3) [OF assms(1)] settled_known [of "ts_core s" q]
    by (auto simp: MarkSettling_def mark_state_def store_room_def split: option.splits)
qed

lemma settle_store:
  assumes "core_ok (ts_core s)" "SettleByServerResult sh s d now = (s', res)" "books_ok (ts_store s)"
  shows "books_ok (ts_store s')" "st_failpoint (ts_store s') = st_failpoint (ts_store s)"
    "ts_settling s' \<subseteq> insert (de_room d) (ts_settling s)"
proof -
  have "ts_store s' = ts_store s \<or> (\<exists>q x. PersistSettlementTransaction sh (ts_store s) q = (ts_store s', x))"
    using settle_ok_cases [OF assms(1,2)] settle_failed_cases [OF assms(1,2)] by blast
  then show "books_ok (ts_store s')" "st_failpoint (ts_store s') = st_failpoint (ts_store s)"
    using settle_books(1) [OF assms(3)] assms(3) persist_frame(2) [of sh "ts_store s"] by (auto, metis fst_conv)
  show "ts_settling s' \<subseteq> insert (de_room d) (ts_settling s)"
    using assms(2) by (auto simp: SettleByServerResult_def TryBeginSettlement_def EndSettlement_def Let_def
        split: if_splits prod.splits bool.splits)
qed

lemma settle_now_unfold:
  obtains ts res st now where
    "SettleByServerResult (en_shell e) \<lparr>ts_core = sv_core s, ts_store = st, ts_settling = sv_settling s\<rparr> d now = (ts, res)"
    "sv_core (fst (settle_now e event s d)) = ts_core ts" "sv_store (fst (settle_now e event s d)) = ts_store ts"
    "sv_settling (fst (settle_now e event s d)) = ts_settling ts" "st = (sv_store s)\<lparr>st_world := fo_world (sv_front s)\<rparr>"
  by (rule that [OF prod.collapse [symmetric] _ _ _ refl])
    (auto simp: settle_now_def NowMs_def sv_core_def Let_def split_beta)

lemma settle_elsewhere:
  assumes "settleable s rid p" "de_room d \<noteq> rid"
  shows "settleable (fst (settle_and_notify e event s d)) rid p"
proof -
  obtain ts res st now where
    H: "SettleByServerResult (en_shell e) \<lparr>ts_core = sv_core s, ts_store = st, ts_settling = sv_settling s\<rparr> d now = (ts, res)"
    and F: "sv_core (fst (settle_now e event s d)) = ts_core ts" "sv_store (fst (settle_now e event s d)) = ts_store ts"
      "sv_settling (fst (settle_now e event s d)) = ts_settling ts" "st = (sv_store s)\<lparr>st_world := fo_world (sv_front s)\<rparr>"
    by (rule settle_now_unfold)
  obtain r where r: "mg_rooms (co_rooms (sv_core s)) rid = Some r" "p \<in> set (rm_players r)" "core_ok (sv_core s)"
      "\<forall>q \<in> set (rm_players r). co_players (sv_core s) q \<noteq> None \<and> 0 < q" "rid \<notin> sv_settling s" "0 < rid"
    by (rule settleableE [OF assms(1)])
  have b: "books_ok st" "st_failpoint st = NoFailpoint"
    using assms(1) by (simp_all add: settleable_def F(4) books_ok_def storage_ok_def coins_ok_def)
  have c: "core_ok (ts_core ts)" using settle_core_step(1) [OF _ H] r(3) by simp
  note R = settle_core_rooms [OF _ H, of rid] and Q = settle_core_rooms(3) [OF _ H] and S = settle_store [OF _ H]
  have "settleable (fst (settle_now e event s d)) rid p"
    unfolding settleable_def F
    using c b S R(1) Q r assms(2) by (auto intro: r(1))
  moreover have "silent (fst (settle_now e event s d)) (fst (settle_and_notify e event s d))"
    by (simp add: settle_and_notify_def split_beta silent_game_over)
  ultimately show ?thesis using silent_kept by blast
qed

lemma settle_gone:
  assumes "core_ok (sv_core s)" "gone s rid"
  shows "gone (fst (settle_and_notify e event s d)) rid"
proof -
  obtain ts res st now where
    H: "SettleByServerResult (en_shell e) \<lparr>ts_core = sv_core s, ts_store = st, ts_settling = sv_settling s\<rparr> d now = (ts, res)"
    and F: "sv_core (fst (settle_now e event s d)) = ts_core ts"
    by (rule settle_now_unfold)
  have "gone (fst (settle_now e event s d)) rid"
    using settle_core_rooms(2) [OF _ H, of rid] assms by (simp add: gone_def F)
  moreover have "silent (fst (settle_now e event s d)) (fst (settle_and_notify e event s d))"
    by (simp add: settle_and_notify_def split_beta silent_game_over)
  ultimately show ?thesis using silent_kept by blast
qed

subsection \<open>The tick\<close>

text \<open>What each part of the tick keeps: the room is gone, or its game can still be settled.\<close>

definition closing :: "'w server \<Rightarrow> room_id \<Rightarrow> player_id \<Rightarrow> bool" where
  "closing s rid p \<longleftrightarrow> core_ok (sv_core s) \<and> (gone s rid \<or> settleable s rid p)"

definition keeps_closing :: "'w server \<Rightarrow> 'w server \<Rightarrow> bool" where
  "keeps_closing s t \<longleftrightarrow>
     (core_ok (sv_core s) \<longrightarrow> core_ok (sv_core t) \<and>
        (\<forall>rid p. (gone s rid \<longrightarrow> gone t rid) \<and> (closing s rid p \<longrightarrow> closing t rid p)))"

lemma keeps_closing_refl [simp]: "keeps_closing s s"
  by (simp add: keeps_closing_def)

lemma keeps_closing_trans [trans]: "keeps_closing s t \<Longrightarrow> keeps_closing t u \<Longrightarrow> keeps_closing s u"
  by (auto simp: keeps_closing_def)

lemma keeps_closingI:
  assumes "tells s t" "\<And>rid. core_ok (sv_core s) \<Longrightarrow> gone s rid \<Longrightarrow> gone t rid"
    "\<And>rid p. settleable s rid p \<Longrightarrow> gone t rid \<or> settleable t rid p"
  shows "keeps_closing s t"
  using assms by (auto simp: keeps_closing_def closing_def tells_def)

lemma keeps_settle: "keeps_closing s (fst (settle_and_notify e event s d))"
proof (rule keeps_closingI)
  show "gone (fst (settle_and_notify e event s d)) rid \<or> settleable (fst (settle_and_notify e event s d)) rid p"
    if "settleable s rid p" for rid p
    using settle_settleable(1) [OF that] settle_elsewhere [OF that] by (cases "de_room d = rid") simp_all
qed (simp_all add: tells_settle settle_gone)

lemma keeps_silent: "silent s t \<Longrightarrow> tells s t \<Longrightarrow> keeps_closing s t"
  by (rule keeps_closingI) (simp_all add: silent_kept)

lemma keeps_rooms:
  assumes "tells s (upd_rooms g s)"
    "\<And>rid. core_ok (sv_core s) \<Longrightarrow> map_option rm_players (mg_rooms (g (co_rooms (sv_core s))) rid) =
       map_option rm_players (mg_rooms (co_rooms (sv_core s)) rid)"
  shows "keeps_closing s (upd_rooms g s)"
proof (rule keeps_closingI [OF assms(1)])
  show "gone (upd_rooms g s) rid" if "core_ok (sv_core s)" "gone s rid" for rid
    using assms(2) [OF that(1), of rid] that(2) by (simp add: gone_def)
  show "gone (upd_rooms g s) rid \<or> settleable (upd_rooms g s) rid p" if "settleable s rid p" for rid p
    using settleable_rooms [OF that] assms(2) [of rid] assms(1) that by (simp add: settleable_def tells_def)
qed

lemma keeps_trustee_turn:
  assumes "is_shuffle (en_shuffle e)"
  shows "keeps_closing s (trustee_turn e s x)"
proof (cases "GetRoomById (co_rooms (sv_core s)) (ss_room x)")
  case (Some r)
  obtain rooms res where A:
    "ApplyTrusteeAction (en_shuffle e) (co_rooms (sv_core s)) (ss_room x) (ss_player x) = (rooms, res)" by fastforce
  let ?s1 = "upd_rooms (\<lambda>_. rooms) s"
  have U: "keeps_closing s ?s1"
  proof (rule keeps_rooms)
    show "tells s ?s1" using tells_apply_action(2) [OF assms, of s "ss_room x" "ss_player x"] A by simp
    show "map_option rm_players (mg_rooms rooms rid) = map_option rm_players (mg_rooms (co_rooms (sv_core s)) rid)"
      if "core_ok (sv_core s)" for rid
      using apply_keeps_players [OF assms core_okD(1) [OF that], of "ss_room x" "ss_player x" rid] A by simp
  qed
  have V: "keeps_closing s (push_action ?s1 (ss_room x) sn)" for sn
    by (rule keeps_closing_trans [OF U keeps_silent [OF silent_push_action tells_push_action]])
  show ?thesis
  proof (cases res)
    case (Inr y)
    show ?thesis
      using V keeps_closing_trans [OF V keeps_settle] unfolding trustee_turn_def Some option.case A prod.case Inr sum.case Let_def
      by (simp split: if_split)
  qed (use U in \<open>simp add: trustee_turn_def Some A\<close>)
qed (simp add: trustee_turn_def)

lemma keeps_timer_session:
  assumes "is_shuffle (en_shuffle e)"
  shows "keeps_closing s (timer_session e now s x)"
proof -
  let ?s1 = "upd_rooms (\<lambda>m. fst (MarkPlayerOffline m (ss_player x) (ss_offline_at x))) s"
  let ?t = "upd_rooms (\<lambda>m. fst (MarkPlayerTrustee m (ss_player x) True)) ?s1"
  let ?s2 = "if now - ss_offline_at x \<ge> kTrusteeEnterMs then trustee_turn e ?t x else ?s1"
  have tells: "tells u (upd_rooms (\<lambda>m. fst (MarkPlayerOnline m (ss_player x))) u)"
    "tells u (upd_rooms (\<lambda>m. fst (MarkPlayerOffline m (ss_player x) (ss_offline_at x))) u)"
    "tells u (upd_rooms (\<lambda>m. fst (MarkPlayerTrustee m (ss_player x) True)) u)" for u :: "'a server"
    by (rule tells_rooms, blast)+
  have on: "keeps_closing s (upd_rooms (\<lambda>m. fst (MarkPlayerOnline m (ss_player x))) s)"
    by (rule keeps_rooms [OF tells(1)]) (rule mark_players)
  have 1: "keeps_closing s ?s1" by (rule keeps_rooms [OF tells(2)]) (rule mark_players)
  have 2: "keeps_closing ?s1 ?t" by (rule keeps_rooms [OF tells(3)]) (rule mark_players)
  have "keeps_closing s ?s2"
    using keeps_closing_trans [OF keeps_closing_trans [OF 1 2] keeps_trustee_turn [OF assms]] 1 by simp
  moreover have "keeps_closing u (offline_loss e u x)" for u
    by (simp add: offline_loss_def keeps_settle split: option.split)
  ultimately have "keeps_closing s ?s2" "keeps_closing s (offline_loss e ?s2 x)" by (blast intro: keeps_closing_trans)+
  then show ?thesis using on unfolding timer_session_def Let_def by (simp split: if_split)
qed

lemma keeps_foldl: "(\<And>s x. keeps_closing s (f s x)) \<Longrightarrow> keeps_closing s (foldl f s xs)"
proof (induction xs arbitrary: s)
  case (Cons x xs)
  then show ?case using keeps_closing_trans [of s "f s x"] by simp
qed simp

text \<open>The loop over the sessions settles the game of every player who is away for too long.\<close>

lemma loop_settles:
  assumes "is_shuffle (en_shuffle e)" "settleable s (ss_room x) (ss_player x)" "x \<in> set xs"
    "\<not> ss_online x" "0 < ss_offline_at x" "kOfflineLoseMs \<le> now - ss_offline_at x"
  shows "gone (foldl (timer_session e now) s xs) (ss_room x)"
proof -
  obtain ys zs where xs: "xs = ys @ x # zs" using split_list [OF assms(3)] by blast
  let ?s = "foldl (timer_session e now) s ys"
  have k: "keeps_closing u (foldl (timer_session e now) u ws)" for u :: "'a server" and ws
    by (rule keeps_foldl) (rule keeps_timer_session [OF assms(1)])
  have "core_ok (sv_core s)" using assms(2) by (simp add: settleable_def)
  then have a: "closing ?s (ss_room x) (ss_player x)" using k [of s ys] assms(2) by (simp add: keeps_closing_def closing_def)
  have "gone (timer_session e now ?s x) (ss_room x)"
  proof (cases "gone ?s (ss_room x)")
    case True
    then show ?thesis using keeps_timer_session [OF assms(1), of ?s now x] a by (simp add: keeps_closing_def closing_def)
  next
    case False
    then show ?thesis using long_absence_settles [OF assms(1) _ assms(4-6)] a by (simp add: closing_def)
  qed
  moreover have "core_ok (sv_core (timer_session e now ?s x))"
    using keeps_timer_session [OF assms(1), of ?s now x] a by (simp add: keeps_closing_def closing_def)
  ultimately show ?thesis using k [of "timer_session e now ?s x" zs] by (simp add: xs keeps_closing_def)
qed

lemma tick_settles:
  assumes "is_shuffle (en_shuffle e)" "settleable s (ss_room x) p"
    "sm_sessions (co_sessions (sv_core s)) p = Some x" "ss_player x = p" "p \<in> set (en_order e (co_sessions (sv_core s)))"
    "\<not> ss_online x" "0 < ss_offline_at x" "kOfflineLoseMs \<le> en_clock e (sv_ticks s) - ss_offline_at x"
  shows "gone (TimerTick e s) (ss_room x)"
proof (rule TimerTick_eq [of s e])
  fix s2 s4 xs m now timeout late
  assume E: "s2 = emit (CloseIdle (ac_heartbeat_timeout (sv_cfg s))) (fst (NowMs e s))"
    "s4 = NotifyMatchTimeout (upd_core (\<lambda>_. fst (HandleMatchTimeout (sv_core s2) now timeout)) s2) late"
    "now = en_clock e (sv_ticks s)"
    "xs = GetAllSessions (en_order e (co_sessions (sv_core s4))) (co_sessions (sv_core s4))"
    "TimerTick e s = (foldl (timer_session e now) s4 xs)\<lparr>sv_metrics := m\<rparr>"
  let ?s3 = "upd_core (\<lambda>_. fst (HandleMatchTimeout (sv_core s2) now timeout)) s2"
  have s2: "silent s s2" using E(1) by (simp add: silent_def emit_def NowMs_def sv_core_def)
  have known: "co_players c q \<noteq> None \<Longrightarrow> co_players (fst (HandleMatchTimeout c now timeout)) q \<noteq> None" for c q
  proof -
    have "pm q \<noteq> None \<Longrightarrow> foldl (\<lambda>pm x. if GetState pm (mp_player x) = Matching then ForceState pm (mp_player x) Lobby
        else pm) pm ws q \<noteq> None" for pm ws
      by (induction ws arbitrary: pm) (auto simp: ForceState_def Let_def)
    then show "co_players c q \<noteq> None \<Longrightarrow> co_players (fst (HandleMatchTimeout c now timeout)) q \<noteq> None"
      by (simp add: HandleMatchTimeout_def split_beta)
  qed
  have fr: "co_rooms (fst (HandleMatchTimeout c now timeout)) = co_rooms c"
    "co_sessions (fst (HandleMatchTimeout c now timeout)) = co_sessions c" for c
    by (simp_all add: HandleMatchTimeout_def split_beta)
  have s4: "silent ?s3 s4" unfolding E(2) NotifyMatchTimeout_def by (rule silent_foldl) (auto split: option.split)
  have "settleable s2 (ss_room x) p" using silent_kept [OF s2] assms(2) by simp
  then have "settleable ?s3 (ss_room x) p"
    using HandleMatchTimeout_ok [of "sv_core s2" now timeout] known [of "sv_core s2"]
    unfolding settleable_def sv_core_upd fr by (auto simp: upd_core_def)
  then have "settleable s4 (ss_room x) (ss_player x)" using silent_kept [OF s4] assms(4) by simp
  moreover have "co_sessions (sv_core s4) = co_sessions (sv_core s)"
    using s2 s4 by (simp add: silent_def fr)
  then have "x \<in> set xs" using assms(3,5) unfolding E(4) GetAllSessions_def
    by (auto simp: List.map_filter_def intro!: image_eqI [of _ _ p])
  ultimately have "gone (foldl (timer_session e now) s4 xs) (ss_room x)"
    using loop_settles [OF assms(1) _ _ assms(6,7)] assms(8) E(3) by blast
  then show ?thesis by (simp add: E(5) gone_def sv_core_def)
qed

end
