(* ===== verification/DdzSystem.thy ===== *)
theory DdzSystem
  imports DdzNetwork DdzServerOffline
begin

text \<open>
  The game server on its network: the callbacks that \<^verbatim>\<open>GameServer::Start\<close> registers at the
  \<^verbatim>\<open>TcpServer\<close>, and what the effects of the server do to the connections. The effects of a handler
  are carried out in their order; the handlers do not look at the connections.
\<close>

text \<open>What the operating system decides: the answers of \<^verbatim>\<open>send\<close>, the clock of the network and the
  order in which the map of connections is traversed.\<close>

record net_os =
  os_send :: "tcp_server \<Rightarrow> conn_id \<Rightarrow> nat \<Rightarrow> int"
  os_now :: "tcp_server \<Rightarrow> millis"
  os_order :: "tcp_server \<Rightarrow> conn_id list"

fun apply_effect :: "net_os \<Rightarrow> effect \<Rightarrow> tcp_server \<Rightarrow> tcp_server" where
  "apply_effect os (Send conn pk) n = fst (TcpSend (os_send os n conn) conn pk n)"
| "apply_effect os (CloseConn conn) n = CloseConnection conn n"
| "apply_effect os (CloseIdle timeout) n = CloseIdleConnections (os_order os n) (os_now os n) timeout n"

text \<open>A handler of the server, with the effects it adds.\<close>

definition with_effects ::
    "net_os \<Rightarrow> ('w server \<Rightarrow> 'w server) \<Rightarrow> tcp_server \<times> 'w server \<Rightarrow> tcp_server \<times> 'w server" where
  "with_effects os handler = (\<lambda>(n, s).
     let s' = handler s
     in (foldl (\<lambda>m x. apply_effect os x m) n (drop (length (sv_out s)) (sv_out s')), s'))"

definition message_callback :: "'w env \<Rightarrow> net_os \<Rightarrow> 'w server on_message" where
  "message_callback e os conn pk = with_effects os (\<lambda>s. OnMessage e s conn pk)"

definition close_callback :: "'w env \<Rightarrow> net_os \<Rightarrow> 'w server on_close" where
  "close_callback e os conn = with_effects os (\<lambda>s. OnConnectionClosed e s conn)"

definition timer_turn :: "'w env \<Rightarrow> net_os \<Rightarrow> tcp_server \<times> 'w server \<Rightarrow> tcp_server \<times> 'w server" where
  "timer_turn e os = with_effects os (TimerTick e)"

text \<open>The steps of the running system; the operating system answers as it likes at every step.\<close>

inductive system_step :: "'w env \<Rightarrow> tcp_server \<times> 'w server \<Rightarrow> tcp_server \<times> 'w server \<Rightarrow> bool" for e where
  accepted: "nt_running n \<Longrightarrow> system_step e (n, s) (AcceptConnection ok now n, s)"
| worked: "w < nt_threads n \<Longrightarrow> WorkerTurn (message_callback e os) (close_callback e os) ready w (n, s) = (n', s') \<Longrightarrow>
     system_step e (n, s) (n', s')"
| ticked: "timer_turn e os (n, s) = (n', s') \<Longrightarrow> system_step e (n, s) (n', s')"
| stopped: "system_step e (n, s) (TcpStop n, s)"

lemma tcp_accept_step: "tcp_accept a n = n \<or> system_step e (n, s) (tcp_accept a n, s)"
  by (cases a) (auto simp: tcp_accept_def intro: accepted)

lemma apply_effect_ok: "net_ok n \<Longrightarrow> net_ok (apply_effect os x n)"
  by (cases x) (simp_all add: TcpSend_ok CloseIdle_ok RemoveConnection_ok CloseConnection_def)

lemma with_effects_ok: "net_ok n \<Longrightarrow> with_effects os h (n, s) = (n', s') \<Longrightarrow> net_ok n' \<and> s' = h s"
proof -
  have "net_ok m \<Longrightarrow> net_ok (foldl (\<lambda>m x. apply_effect os x m) m xs)" for m xs
    by (induction xs arbitrary: m) (simp_all add: apply_effect_ok)
  then show "net_ok n \<Longrightarrow> with_effects os h (n, s) = (n', s') \<Longrightarrow> ?thesis" by (auto simp: with_effects_def Let_def)
qed

lemma TcpStop_ok: "net_ok n \<Longrightarrow> net_ok (TcpStop n)"
  by (simp add: net_ok_def TcpStop_def)

interpretation served: net_client "message_callback e os" "close_callback e os" "(server_step e)\<^sup>*\<^sup>* s0" for e os s0
proof (unfold_locales, goal_cases)
  case (1 n s conn pk n' s')
  then have "net_ok n'" "s' = OnMessage e s conn pk" unfolding message_callback_def by (auto dest: with_effects_ok)
  with 1 show ?case by (auto intro: rtranclp.rtrancl_into_rtrancl server_step.message)
next
  case (2 n s conn n' s')
  then have "net_ok n'" "s' = OnConnectionClosed e s conn" unfolding close_callback_def by (auto dest: with_effects_ok)
  with 2 show ?case by (auto intro: rtranclp.rtrancl_into_rtrancl server_step.closed)
qed

lemma system_step_serves:
  assumes "system_step e x y" "net_ok (fst x)" "(server_step e)\<^sup>*\<^sup>* s0 (snd x)"
  shows "net_ok (fst y) \<and> (server_step e)\<^sup>*\<^sup>* s0 (snd y)"
  using assms
proof cases
  case (worked w n os ready s n' s')
  then show ?thesis using assms served.turn_keeps [of n e s0 s] by auto
next
  case (ticked os n s n' s')
  then have "net_ok n'" "s' = TimerTick e s" using assms(2) by (auto simp: timer_turn_def dest: with_effects_ok)
  then show ?thesis using ticked assms(3) by (auto intro: rtranclp.rtrancl_into_rtrancl server_step.tick)
qed (auto simp: AcceptConnection_ok TcpStop_ok)

lemma system_run_serves:
  assumes "(system_step e)\<^sup>*\<^sup>* (n0, s0) (n, s)" "net_ok n0"
  shows "net_ok n \<and> (server_step e)\<^sup>*\<^sup>* s0 s"
  using assms(1)
proof (induction "(n, s)" arbitrary: n s rule: rtranclp_induct)
  case base
  then show ?case using assms(2) by simp
next
  case (step y)
  then show ?case using system_step_serves [OF step(2)] by (cases y) auto
qed

text \<open>What the tables of the network say of the connections.\<close>

lemma net_ok_tables:
  assumes ok: "net_ok n"
  shows "(\<forall>conn c. nt_conns n conn = Some c \<longrightarrow> cn_running c \<and> cn_socket c \<and> 0 < conn \<and> conn < nt_next_id n \<and>
       (\<exists>!w. w < length (nt_workers n) \<and> conn \<in> nt_workers n ! w)) \<and>
    (\<forall>w < length (nt_workers n). \<forall>conn \<in> nt_workers n ! w. nt_conns n conn \<noteq> None)"
proof -
  have "conn \<notin> dom (nt_owner n) \<longleftrightarrow> conn \<notin> dom (nt_conns n)" for conn by (simp only: net_okD(1) [OF ok])
  then have dom: "nt_owner n conn = None \<longleftrightarrow> nt_conns n conn = None" for conn by (simp only: domIff simp_thms)
  have one: "\<exists>!w. w < length (nt_workers n) \<and> conn \<in> nt_workers n ! w" if c: "nt_conns n conn = Some c" for conn c
  proof -
    obtain w where w: "nt_owner n conn = Some w" using dom [of conn] c by auto
    show ?thesis
    proof (rule ex1I [of _ w])
      show "w < length (nt_workers n) \<and> conn \<in> nt_workers n ! w" using iffD1 [OF net_okD(2) [OF ok] w] .
      show "v = w" if "v < length (nt_workers n) \<and> conn \<in> nt_workers n ! v" for v
        using iffD2 [OF net_okD(2) [OF ok] that] w by simp
    qed
  qed
  have mem: "nt_conns n conn \<noteq> None" if "w < length (nt_workers n)" "conn \<in> nt_workers n ! w" for w conn
    using dom [of conn] iffD2 [OF net_okD(2) [OF ok] conjI [OF that]] by simp
  show ?thesis
    by (intro conjI allI impI ballI) (use one mem net_okD(3) [OF ok] in \<open>simp_all only: simp_thms\<close>)
qed

subsection \<open>Connections that fall silent\<close>

text \<open>A tick of the timer first has the idle connections closed, and changes the connection of no player.\<close>

lemma tick_closes_idle:
  assumes "is_shuffle (en_shuffle e)" "core_ok (sv_core s)"
  obtains xs where "sv_out (TimerTick e s) = sv_out s @ CloseIdle (ac_heartbeat_timeout (sv_cfg s)) # xs"
    "conn_of (TimerTick e s) = conn_of s"
proof (rule TimerTick_eq [of s e])
  fix s2 s4 ys m now timeout late
  assume E: "s2 = emit (CloseIdle (ac_heartbeat_timeout (sv_cfg s))) (fst (NowMs e s))"
    "s4 = NotifyMatchTimeout (upd_core (\<lambda>_. fst (HandleMatchTimeout (sv_core s2) now timeout)) s2) late"
    "TimerTick e s = (foldl (timer_session e now) s4 ys)\<lparr>sv_metrics := m\<rparr>"
  have s2: "sv_core s2 = sv_core s" "sv_out s2 = sv_out s @ [CloseIdle (ac_heartbeat_timeout (sv_cfg s))]"
    by (simp_all add: E(1)) (simp add: emit_def)
  have "tells s2 (upd_core (\<lambda>_. fst (HandleMatchTimeout (sv_core s2) now timeout)) s2)" by (rule tells_timeouts)
  also have "tells \<dots> s4" unfolding E(2) by (rule tells_match_timeout)
  also have "tells s4 (foldl (timer_session e now) s4 ys)"
    by (rule tells_foldl) (rule tells_timer_session [OF assms(1)])
  also have "tells \<dots> (TimerTick e s)" unfolding E(3) by (rule tells_same) (simp_all add: sv_core_def)
  finally have "tells s2 (TimerTick e s)" .
  moreover have "conn_of s2 = conn_of s" by (rule ext) (simp add: conn_of_def s2(1))
  ultimately show thesis using that assms(2) by (auto simp: tells_def s2)
qed

lemma effects_keep_removed: "nt_conns n conn = None \<Longrightarrow> nt_conns (foldl (\<lambda>m x. apply_effect os x m) n xs) conn = None"
proof (induction xs arbitrary: n)
  case (Cons x xs)
  have "nt_conns (foldl (\<lambda>m c. RemoveConnection c m) m cs) conn = None" if "nt_conns m conn = None" for m cs
    using that by (induction cs arbitrary: m) auto
  then have "nt_conns (apply_effect os x n) conn = None"
    using Cons.prems by (cases x) (auto simp: TcpSend_def CloseConnection_def CloseIdleConnections_def
        split: option.split prod.split)
  then show ?case using Cons.IH by simp
qed simp

text \<open>A connection whose client has been silent for too long is gone after the tick, without the callback
  of a closed connection: its player is still online on it, and what is sent to the player goes nowhere.\<close>

theorem idle_close_keeps_online:
  assumes "timer_turn e os (n, s) = (n', s')" "is_shuffle (en_shuffle e)" "core_ok (sv_core s)"
    "set (os_order os n) = dom (nt_conns n)" "nt_conns n conn = Some c"
    "ac_heartbeat_timeout (sv_cfg s) < os_now os n - cn_heartbeat c" "conn_of s p = Some conn"
  shows "nt_conns n' conn = None \<and> conn_of s' p = Some conn \<and> \<not> snd (TcpSend send conn pk n')"
proof -
  obtain xs where out: "sv_out (TimerTick e s) = sv_out s @ CloseIdle (ac_heartbeat_timeout (sv_cfg s)) # xs"
    and conns: "conn_of (TimerTick e s) = conn_of s"
    using tick_closes_idle [OF assms(2,3)] by blast
  let ?n = "CloseIdleConnections (os_order os n) (os_now os n) (ac_heartbeat_timeout (sv_cfg s)) n"
  have "nt_conns ?n conn = None" using CloseIdle_conns [OF assms(4)] assms(5,6) by (simp add: idle_at_def)
  then have gone: "nt_conns (foldl (\<lambda>m x. apply_effect os x m) ?n xs) conn = None" by (rule effects_keep_removed)
  have "n' = foldl (\<lambda>m x. apply_effect os x m) ?n xs" "s' = TimerTick e s"
    using assms(1) by (auto simp: timer_turn_def with_effects_def Let_def out)
  then show ?thesis using gone conns assms(7) by (simp add: TcpSend_def)
qed

end
