(* ===== verification/DdzJson.thy ===== *)
theory DdzJson
  imports DdzCodec
begin

text \<open>
  The JSON of the gateway, \<^verbatim>\<open>gateway/json_codec.cpp\<close>: flat objects whose values are strings or
  raw tokens. The parser is a function on the text that remains (\<^verbatim>\<open>text_\<close> from \<^verbatim>\<open>pos_\<close> on); an
  error is \<open>Inl\<close> with the message. A \<^verbatim>\<open>std::map\<close> is a map, a later member overwrites an earlier one.
  The null checks of the output pointers have no counterpart.
\<close>

record json_value =
  jv_string :: bool
  jv_value :: string

type_synonym json_fields = "string \<rightharpoonup> json_value"

definition quote :: char where "quote = CHR 0x22"

definition backslash :: char where "backslash = CHR 0x5C"

subsection \<open>The parser\<close>

definition SkipWs :: "string \<Rightarrow> string" where
  "SkipWs s = dropWhile is_space s"

text \<open>\<^verbatim>\<open>ConsumeChar\<close>: the rest of the text, or \<open>None\<close> when another character or the end follows. It is
  never called with the character 0 that \<^verbatim>\<open>PeekChar\<close> answers at the end.\<close>

definition ConsumeChar :: "char \<Rightarrow> string \<Rightarrow> string option" where
  "ConsumeChar ch s = (case s of [] \<Rightarrow> None | c # rest \<Rightarrow> if c = ch then Some rest else None)"

definition unescape :: "char \<Rightarrow> char option" where
  "unescape esc =
     (if esc = quote then Some quote
      else if esc = backslash then Some backslash
      else if esc = CHR ''/'' then Some (CHR ''/'')
      else if esc = CHR ''b'' then Some (CHR 0x08)
      else if esc = CHR ''f'' then Some (CHR 0x0C)
      else if esc = CHR ''n'' then Some (CHR 0x0A)
      else if esc = CHR ''r'' then Some (CHR 0x0D)
      else if esc = CHR ''t'' then Some (CHR 0x09)
      else None)"

text \<open>The loop of \<^verbatim>\<open>ParseString\<close>.\<close>

fun string_chars :: "string \<Rightarrow> string \<Rightarrow> string + string \<times> string" where
  "string_chars v [] = Inl ''unterminated string''"
| "string_chars v (ch # s) =
     (if ch = quote then Inr (v, s)
      else if ch = backslash then
        (case s of
           [] \<Rightarrow> Inl ''invalid escape''
         | esc # s' \<Rightarrow>
             (case unescape esc of
                None \<Rightarrow> Inl ''unsupported escape sequence''
              | Some c \<Rightarrow> string_chars (v @ [c]) s'))
      else string_chars (v @ [ch]) s)"

definition ParseString :: "string \<Rightarrow> string + string \<times> string" where
  "ParseString s =
     (case ConsumeChar quote s of None \<Rightarrow> Inl ''expected string'' | Some rest \<Rightarrow> string_chars [] rest)"

definition token_char :: "char \<Rightarrow> bool" where
  "token_char ch \<longleftrightarrow> ch \<noteq> CHR '','' \<and> ch \<noteq> CHR ''}'' \<and> \<not> is_space ch"

definition ParseRawToken :: "string \<Rightarrow> string + string \<times> string" where
  "ParseRawToken s =
     (case takeWhile token_char s of
        [] \<Rightarrow> Inl ''empty token''
      | c # cs \<Rightarrow> Inr (c # cs, dropWhile token_char s))"

definition parse_value :: "string \<Rightarrow> string + json_value \<times> string" where
  "parse_value s =
     (if s \<noteq> [] \<and> hd s = quote
      then case ParseString s of Inl e \<Rightarrow> Inl e | Inr (v, rest) \<Rightarrow> Inr (\<lparr>jv_string = True, jv_value = v\<rparr>, rest)
      else case ParseRawToken s of Inl e \<Rightarrow> Inl e | Inr (v, rest) \<Rightarrow> Inr (\<lparr>jv_string = False, jv_value = v\<rparr>, rest))"

text \<open>One turn of the loop up to the comma or the brace.\<close>

definition parse_member :: "string \<Rightarrow> string + string \<times> json_value \<times> string" where
  "parse_member s =
     (case ParseString s of
        Inl e \<Rightarrow> Inl e
      | Inr (key, s1) \<Rightarrow>
          (case ConsumeChar CHR '':'' (SkipWs s1) of
             None \<Rightarrow> Inl (''missing '' @ [CHR 0x27, CHR '':'', CHR 0x27])
           | Some s2 \<Rightarrow>
               (case parse_value (SkipWs s2) of
                  Inl e \<Rightarrow> Inl e
                | Inr (v, s3) \<Rightarrow> Inr (key, v, SkipWs s3))))"

text \<open>What a value that was read leaves is shorter, so the loop ends.\<close>

lemma string_chars_shorter: "string_chars v s = Inr (w, rest) \<Longrightarrow> length rest < length s"
proof (induction v s arbitrary: rest rule: string_chars.induct)
  case (2 v ch s)
  then show ?case by (fastforce split: if_splits list.splits option.splits)
qed simp

lemma dropWhile_shorter: "length (dropWhile P s) \<le> length s"
  by (induction s) auto

lemma ParseString_shorter: "ParseString s = Inr (w, rest) \<Longrightarrow> length rest < length s"
  by (auto simp: ParseString_def ConsumeChar_def split: list.splits if_splits option.splits dest: string_chars_shorter)

lemma parse_member_shorter:
  assumes "parse_member s = Inr (key, v, rest)"
  shows "length rest < length s"
proof -
  obtain s1 s2 s3 where 1: "ParseString s = Inr (key, s1)" and 2: "ConsumeChar CHR '':'' (SkipWs s1) = Some s2"
    and 3: "parse_value (SkipWs s2) = Inr (v, s3)" and 4: "rest = SkipWs s3"
    using assms by (auto simp: parse_member_def split: sum.splits option.splits)
  have "length s3 \<le> length (SkipWs s2)"
    using 3 dropWhile_shorter [of token_char]
    by (auto simp: parse_value_def ParseRawToken_def split: if_splits sum.splits list.splits dest: ParseString_shorter)
  moreover have "length s2 \<le> length (SkipWs s1)" using 2 by (auto simp: ConsumeChar_def split: list.splits if_splits)
  ultimately show ?thesis
    using ParseString_shorter [OF 1] 4 dropWhile_shorter [of is_space s1] dropWhile_shorter [of is_space s2]
      dropWhile_shorter [of is_space s3] by (simp add: SkipWs_def)
qed

definition missing_end :: string where
  "missing_end = ''missing '' @ [CHR 0x27] @ '','' @ [CHR 0x27] @ '' or '' @ [CHR 0x27] @ ''}'' @ [CHR 0x27]"

function parse_members :: "json_fields \<Rightarrow> string \<Rightarrow> string + json_fields" where
  "parse_members out s =
     (if s = [] then Inl ''unexpected end of json''
      else
        (case parse_member s of
           Inl e \<Rightarrow> Inl e
         | Inr (key, v, rest) \<Rightarrow>
             (case ConsumeChar CHR '','' rest of
                Some s' \<Rightarrow> parse_members (out(key \<mapsto> v)) (SkipWs s')
              | None \<Rightarrow>
                  (case ConsumeChar CHR ''}'' rest of
                     Some s' \<Rightarrow>
                       if SkipWs s' \<noteq> [] then Inl ''unexpected trailing characters'' else Inr (out(key \<mapsto> v))
                   | None \<Rightarrow> Inl missing_end))))"
  by pat_completeness auto
termination
proof (relation "measure (\<lambda>(out, s). length s)")
  fix out :: json_fields and s e key v rest s' x y
  assume "parse_member s = Inr x" "(key, y) = x" "(v, rest) = y" "ConsumeChar CHR '','' rest = Some s'"
  then have "parse_member s = Inr (key, v, rest)" "length s' < length rest"
    by (auto simp: ConsumeChar_def split: list.splits if_splits)
  then show "((out(key \<mapsto> v), SkipWs s'), out, s) \<in> measure (\<lambda>(out, s). length s)"
    using parse_member_shorter [of s key v rest] dropWhile_shorter [of is_space s'] by (simp add: SkipWs_def)
qed simp

declare parse_members.simps [simp del]

text \<open>An empty object is accepted whatever follows it.\<close>

definition ParseObject :: "string \<Rightarrow> string + json_fields" where
  "ParseObject text =
     (case ConsumeChar CHR ''{'' (SkipWs text) of
        None \<Rightarrow> Inl (''json must start with '' @ [CHR 0x27] @ ''{'' @ [CHR 0x27])
      | Some s \<Rightarrow>
          let s1 = SkipWs s in
          if s1 \<noteq> [] \<and> hd s1 = CHR ''}'' then Inr Map.empty else parse_members Map.empty s1)"

definition ParseU32Strict :: "string \<Rightarrow> 32 word option" where
  "ParseU32Strict text =
     (case stoull text of
        None \<Rightarrow> None
      | Some (v, idx) \<Rightarrow> if idx \<noteq> length text \<or> v > 0xFFFFFFFF then None else Some (word_of_int v))"

subsection \<open>Building\<close>

definition escape_char :: "char \<Rightarrow> string" where
  "escape_char ch =
     (if ch = quote then [backslash, quote]
      else if ch = backslash then [backslash, backslash]
      else if ch = CHR 0x08 then [backslash, CHR ''b'']
      else if ch = CHR 0x0C then [backslash, CHR ''f'']
      else if ch = CHR 0x0A then [backslash, CHR ''n'']
      else if ch = CHR 0x0D then [backslash, CHR ''r'']
      else if ch = CHR 0x09 then [backslash, CHR ''t'']
      else [ch])"

definition EscapeJson :: "string \<Rightarrow> string" where
  "EscapeJson text = concat (map escape_char text)"

text \<open>\<^verbatim>\<open>"key":\<close> followed by a number, or by a string in quotes.\<close>

definition json_key :: "string \<Rightarrow> string" where
  "json_key key = [quote] @ key @ [quote] @ '':''"

definition json_str :: "string \<Rightarrow> string" where
  "json_str v = [quote] @ EscapeJson v @ [quote]"

record gateway_envelope =
  ge_msg_id :: "32 word"
  ge_seq_id :: "32 word"
  ge_player :: player_id
  ge_body :: string
  ge_h5 :: string
  ge_gateway :: string
  ge_server :: string

definition optional_member :: "string \<Rightarrow> string \<Rightarrow> string" where
  "optional_member key v = (if v = [] then [] else '','' @ json_key key @ json_str v)"

definition BuildEnvelopeJson :: "gateway_envelope \<Rightarrow> string" where
  "BuildEnvelopeJson env =
     ''{'' @ json_key ''msg_id'' @ nat_str (unat (ge_msg_id env)) @ '','' @
     json_key ''seq_id'' @ nat_str (unat (ge_seq_id env)) @ '','' @
     json_key ''player_id'' @ int_str (ge_player env) @ '','' @
     json_key ''body'' @ json_str (ge_body env) @
     optional_member ''h5_request_id'' (ge_h5 env) @
     optional_member ''gateway_trace_id'' (ge_gateway env) @
     optional_member ''server_trace_id'' (ge_server env) @ ''}''"

definition string_field :: "json_fields \<Rightarrow> string \<Rightarrow> string" where
  "string_field fs key =
     (case fs key of Some v \<Rightarrow> if jv_string v then jv_value v else [] | None \<Rightarrow> [])"

definition ParseEnvelopeJson :: "string \<Rightarrow> string + gateway_envelope" where
  "ParseEnvelopeJson text =
     (case ParseObject text of
        Inl e \<Rightarrow> Inl e
      | Inr fs \<Rightarrow>
          (case (fs ''msg_id'', fs ''seq_id'', fs ''player_id'', fs ''body'') of
             (Some msg, Some seq, Some pid, Some body) \<Rightarrow>
               (case (ParseU32Strict (jv_value msg), ParseU32Strict (jv_value seq), stoll_all (jv_value pid)) of
                  (Some m, Some s, Some p) \<Rightarrow>
                    if \<not> jv_string body then Inl ''body must be string''
                    else Inr \<lparr>ge_msg_id = m, ge_seq_id = s, ge_player = p, ge_body = jv_value body,
                              ge_h5 = string_field fs ''h5_request_id'',
                              ge_gateway = string_field fs ''gateway_trace_id'',
                              ge_server = string_field fs ''server_trace_id''\<rparr>
                | _ \<Rightarrow> Inl ''invalid number field'')
           | _ \<Rightarrow> Inl ''missing required fields''))"

definition ParseLoginTicketRequestJson :: "string \<Rightarrow> string + player_id \<times> string" where
  "ParseLoginTicketRequestJson text =
     (case ParseObject text of
        Inl e \<Rightarrow> Inl e
      | Inr fs \<Rightarrow>
          (case fs ''player_id'' of
             None \<Rightarrow> Inl ''missing player_id''
           | Some pid \<Rightarrow>
               (case stoll_all (jv_value pid) of
                  None \<Rightarrow> Inl ''invalid player_id''
                | Some p \<Rightarrow> if p \<le> 0 then Inl ''invalid player_id'' else Inr (p, string_field fs ''nickname''))))"

definition BuildLoginTicketResponseJson :: "int \<Rightarrow> player_id \<Rightarrow> string \<Rightarrow> millis \<Rightarrow> string \<Rightarrow> string" where
  "BuildLoginTicketResponseJson code p ticket expire message =
     ''{'' @ json_key ''code'' @ int_str code @ '','' @ json_key ''player_id'' @ int_str p @ '','' @
     json_key ''login_ticket'' @ json_str ticket @ '','' @ json_key ''expire_at_ms'' @ int_str expire @ '','' @
     json_key ''message'' @ json_str message @ ''}''"

definition BuildSessionRefreshResponseJson ::
    "int \<Rightarrow> player_id \<Rightarrow> room_id \<Rightarrow> string \<Rightarrow> millis \<Rightarrow> string \<Rightarrow> string \<Rightarrow> string \<Rightarrow> string" where
  "BuildSessionRefreshResponseJson code p rid token expire reason gateway_trace server_trace =
     ''{'' @ json_key ''code'' @ int_str code @ '','' @ json_key ''player_id'' @ int_str p @ '','' @
     json_key ''room_id'' @ int_str rid @ '','' @ json_key ''token'' @ json_str token @ '','' @
     json_key ''expire_at_ms'' @ int_str expire @ '','' @ json_key ''reason'' @ json_str reason @
     optional_member ''gateway_trace_id'' gateway_trace @
     optional_member ''server_trace_id'' server_trace @ ''}''"


subsection \<open>Reading back\<close>

lemma quote_backslash [simp]: "quote \<noteq> backslash" "backslash \<noteq> quote"
  by (simp_all add: quote_def backslash_def)

lemma string_chars_escape: "string_chars v (EscapeJson x @ quote # rest) = Inr (v @ x, rest)"
proof (induction x arbitrary: v)
  case (Cons ch x)
  have "string_chars v (escape_char ch @ s) = string_chars (v @ [ch]) s" for s
    by (simp add: escape_char_def unescape_def quote_def backslash_def)
  then show ?case using Cons by (simp add: EscapeJson_def)
qed (simp add: EscapeJson_def)

lemma ParseString_json_str: "ParseString (json_str x @ rest) = Inr (x, rest)"
  using string_chars_escape [of "[]" x rest] by (simp add: ParseString_def json_str_def ConsumeChar_def)

definition plain_key :: "string \<Rightarrow> bool" where
  "plain_key key \<longleftrightarrow> EscapeJson key = key"

definition value_ok :: "json_value \<Rightarrow> bool" where
  "value_ok v \<longleftrightarrow> jv_string v \<or> jv_value v \<noteq> [] \<and> list_all token_char (jv_value v) \<and> hd (jv_value v) \<noteq> quote"

definition render_value :: "json_value \<Rightarrow> string" where
  "render_value v = (if jv_string v then json_str (jv_value v) else jv_value v)"

definition members_end :: "(string \<times> json_value) list \<Rightarrow> string" where
  "members_end ms = concat (map (\<lambda>(key, v). '','' @ json_key key @ render_value v) ms) @ ''}''"

lemma json_key_head [simp]: "json_key key @ s \<noteq> []" "hd (json_key key @ s) = quote" "json_key key \<noteq> []"
  by (simp_all add: json_key_def)

lemma members_end_head: "\<exists>c rest. members_end ms = c # rest \<and> \<not> token_char c \<and> \<not> is_space c"
  by (cases ms) (auto simp: members_end_def token_char_def is_space_def)

lemma SkipWs_id: "\<not> is_space c \<Longrightarrow> SkipWs (c # s) = c # s"
  by (simp add: SkipWs_def)

lemma parse_value_render:
  assumes "value_ok v"
  shows "parse_value (SkipWs (render_value v @ members_end ms)) = Inr (v, members_end ms)"
proof (cases "jv_string v")
  case True
  have "render_value v @ members_end ms = quote # EscapeJson (jv_value v) @ quote # members_end ms"
    using True by (simp add: render_value_def json_str_def)
  moreover have "\<not> is_space quote" by (simp add: quote_def is_space_def)
  ultimately show ?thesis
    using True ParseString_json_str [of "jv_value v" "members_end ms"]
    by (cases v) (simp add: SkipWs_id parse_value_def json_str_def)
next
  case False
  obtain c cs where v: "jv_value v = c # cs" "c \<noteq> quote" "list_all token_char (c # cs)"
    using assms False by (cases "jv_value v") (auto simp: value_ok_def)
  obtain d rest where d: "members_end ms = d # rest" "\<not> token_char d" using members_end_head by blast
  have "\<not> is_space c" using v(3) by (simp add: token_char_def)
  moreover have "takeWhile token_char (c # cs @ d # rest) = c # cs" "dropWhile token_char (c # cs @ d # rest) = d # rest"
    using v(3) d(2) by (simp_all add: takeWhile_append2 dropWhile_append2 list_all_iff)
  ultimately show ?thesis
    using False v(1,2) d(1) by (cases v) (simp add: render_value_def SkipWs_id parse_value_def ParseRawToken_def)
qed

lemma parse_member_render:
  assumes "plain_key key" "value_ok v"
  shows "parse_member (json_key key @ render_value v @ members_end ms) = Inr (key, v, members_end ms)"
proof -
  have "json_key key @ render_value v @ members_end ms = json_str key @ CHR '':'' # render_value v @ members_end ms"
    using assms(1) by (simp add: json_key_def json_str_def plain_key_def)
  moreover have "SkipWs (CHR '':'' # s) = CHR '':'' # s" for s by (rule SkipWs_id) (simp add: is_space_def)
  moreover have "SkipWs (members_end ms) = members_end ms" using members_end_head [of ms] SkipWs_id by metis
  ultimately show ?thesis
    by (simp add: parse_member_def ParseString_json_str ConsumeChar_def parse_value_render [OF assms(2)])
qed

lemma parse_members_render:
  "list_all (\<lambda>(key, v). plain_key key \<and> value_ok v) ((key, v) # ms) \<Longrightarrow>
   parse_members out (json_key key @ render_value v @ members_end ms) =
     Inr (foldl (\<lambda>m (key, v). m(key \<mapsto> v)) (out(key \<mapsto> v)) ms)"
proof (induction ms arbitrary: out key v)
  case Nil
  then show ?case
    using parse_member_render [of key v "[]"]
    by (subst parse_members.simps) (simp add: json_key_def members_end_def ConsumeChar_def SkipWs_def)
next
  case (Cons m ms)
  obtain key' v' where m: "m = (key', v')" by fastforce
  have "SkipWs (json_key key' @ s) = json_key key' @ s" for s
    by (simp add: json_key_def SkipWs_def is_space_def quote_def)
  moreover have "members_end (m # ms) = CHR '','' # json_key key' @ render_value v' @ members_end ms"
    by (simp add: members_end_def m)
  moreover have "parse_members (out(key \<mapsto> v)) (json_key key' @ render_value v' @ members_end ms) =
      Inr (foldl (\<lambda>m (key, v). m(key \<mapsto> v)) (out(key \<mapsto> v, key' \<mapsto> v')) ms)"
    by (rule Cons.IH) (use Cons.prems m in simp)
  moreover have "parse_member (json_key key @ render_value v @ members_end (m # ms)) = Inr (key, v, members_end (m # ms))"
    by (rule parse_member_render) (use Cons.prems in simp_all)
  ultimately show ?case
    by (subst parse_members.simps) (simp only: json_key_head if_False sum.case prod.case, simp add: ConsumeChar_def m)
qed

lemma ParseObject_render:
  assumes "list_all (\<lambda>(key, v). plain_key key \<and> value_ok v) ((key, v) # ms)"
  shows "ParseObject (''{'' @ json_key key @ render_value v @ members_end ms) =
    Inr (foldl (\<lambda>m (key, v). m(key \<mapsto> v)) [key \<mapsto> v] ms)"
proof -
  have "SkipWs (json_key key @ s) = json_key key @ s" "SkipWs (CHR ''{'' # s) = CHR ''{'' # s" for s
    by (simp_all add: json_key_def SkipWs_def is_space_def quote_def)
  moreover have "quote \<noteq> CHR ''}''" by (simp add: quote_def)
  ultimately show ?thesis
    using parse_members_render [OF assms, of Map.empty] by (simp add: ParseObject_def ConsumeChar_def Let_def)
qed

definition str_value :: "string \<Rightarrow> json_value" where
  "str_value v = \<lparr>jv_string = True, jv_value = v\<rparr>"

definition raw_value :: "string \<Rightarrow> json_value" where
  "raw_value v = \<lparr>jv_string = False, jv_value = v\<rparr>"

lemma number_token: "value_ok (raw_value (int_str i))" "value_ok (raw_value (nat_str n))"
proof -
  have digits: "list_all token_char ds" if "list_all is_digit ds" for ds
    using that by (auto simp: list_all_iff token_char_def is_digit_def is_space_digit)
  have "list_all token_char (int_str i)" for i
    using digits [OF nat_str_digits] by (simp add: int_str_def token_char_def is_space_def)
  moreover have "hd (int_str i) \<noteq> quote" for i
    using int_str_chars [of "hd (int_str i)" i] by (auto simp: quote_def is_digit_def)
  ultimately have *: "value_ok (raw_value (int_str i))" for i by (simp add: value_ok_def raw_value_def)
  show "value_ok (raw_value (int_str i))" by (rule *)
  show "value_ok (raw_value (nat_str n))" using * [of "int n"] by (simp add: int_str_def)
qed

lemma str_value_ok [simp]: "value_ok (str_value v)"
  by (simp add: value_ok_def str_value_def)

definition optional_members :: "(string \<times> string) list \<Rightarrow> (string \<times> json_value) list" where
  "optional_members ms = map (\<lambda>(key, v). (key, str_value v)) (filter (\<lambda>(key, v). v \<noteq> []) ms)"

definition envelope_members :: "gateway_envelope \<Rightarrow> (string \<times> json_value) list" where
  "envelope_members env =
     (''seq_id'', raw_value (nat_str (unat (ge_seq_id env)))) # (''player_id'', raw_value (int_str (ge_player env))) #
     (''body'', str_value (ge_body env)) #
     optional_members [(''h5_request_id'', ge_h5 env), (''gateway_trace_id'', ge_gateway env),
       (''server_trace_id'', ge_server env)]"

lemma BuildEnvelope_members:
  "BuildEnvelopeJson env =
     ''{'' @ json_key ''msg_id'' @ render_value (raw_value (nat_str (unat (ge_msg_id env)))) @
     members_end (envelope_members env)"
  by (simp add: BuildEnvelopeJson_def members_end_def envelope_members_def optional_members_def optional_member_def
      render_value_def str_value_def raw_value_def)

lemma plain_keys [simp]:
  "plain_key ''msg_id''" "plain_key ''seq_id''" "plain_key ''player_id''" "plain_key ''body''"
  "plain_key ''h5_request_id''" "plain_key ''gateway_trace_id''" "plain_key ''server_trace_id''"
  by (simp_all add: plain_key_def EscapeJson_def escape_char_def quote_def backslash_def)

lemma ParseU32_nat_str: "ParseU32Strict (nat_str (unat (w :: 32 word))) = Some w"
proof -
  have b: "uint w < 2 ^ 32" using unsigned_less [of w, where ?'a = int] by simp
  have "nat_str (unat w) = int_str (int (unat w))" by (simp add: int_str_def)
  then show ?thesis
    using stoull_int_str [of "uint w"] b by (simp add: ParseU32Strict_def)
qed

lemma envelope_reads_back:
  assumes "in_i64 (ge_player env)"
  shows "ParseEnvelopeJson (BuildEnvelopeJson env) = Inr env"
proof -
  have "list_all (\<lambda>(key, v). plain_key key \<and> value_ok v)
      ((''msg_id'', raw_value (nat_str (unat (ge_msg_id env)))) # envelope_members env)"
    using number_token by (simp add: envelope_members_def optional_members_def)
  from ParseObject_render [OF this] show ?thesis
    using assms
    by (cases env) (simp add: ParseEnvelopeJson_def BuildEnvelope_members envelope_members_def optional_members_def
        string_field_def str_value_def raw_value_def ParseU32_nat_str)
qed

text \<open>C40: an envelope that the gateway writes is read back as it was, whatever bytes its body and its
  trace identifiers hold.\<close>

theorem envelope_roundtrip:
  assumes "in_i64 (ge_player env)"
  shows "ParseEnvelopeJson (BuildEnvelopeJson env) = Inr env"
  by (rule envelope_reads_back) (rule assms)

theorem envelope_roundtrip_witness:
  "let env = \<lparr>ge_msg_id = 4001, ge_seq_id = 7, ge_player = 12, ge_body = ''a='' @ [quote, backslash, CHR 0x0A],
      ge_h5 = [], ge_gateway = ''gw-1'', ge_server = []\<rparr>
   in ParseEnvelopeJson (BuildEnvelopeJson env) = Inr env"
  unfolding Let_def by (rule envelope_roundtrip) (simp add: in_i64_def)

end
