(* ===== verification/DdzGatewayMetrics.thy ===== *)
theory DdzGatewayMetrics
  imports DdzMetrics "HOL-Library.List_Lexorder" "HOL-Library.Char_ord"
begin

text \<open>
  The metrics of the gateway, \<^verbatim>\<open>gateway/gateway_observability_service.cpp\<close>: connections, messages,
  requests by route, refreshes and the window of upstream latencies, which is the window of
  the server's metrics. A \<^verbatim>\<open>std::map\<close> is an association list in the order of its keys. How C++
  prints a \<^verbatim>\<open>double\<close> is the parameter \<open>show_rate\<close>.
\<close>

type_synonym route_counts = "(string \<times> 64 word) list"

text \<open>\<^verbatim>\<open>counts[route] += n\<close>: a missing key is inserted with 0 first.\<close>

fun add_count :: "string \<Rightarrow> 64 word \<Rightarrow> route_counts \<Rightarrow> route_counts" where
  "add_count route n [] = [(route, n)]"
| "add_count route n ((r, c) # rest) =
     (if route = r then (r, c + n) # rest
      else if route < r then (route, n) # (r, c) # rest
      else (r, c) # add_count route n rest)"

definition count_of :: "route_counts \<Rightarrow> string \<Rightarrow> 64 word" where
  "count_of counts route = (case map_of counts route of Some c \<Rightarrow> c | None \<Rightarrow> 0)"

record gateway_metrics =
  gm_structured :: bool
  gm_interval :: millis
  gm_last_report :: millis
  gm_conn_current :: int
  gm_conn_total :: "64 word"
  gm_in_total :: "64 word"
  gm_out_total :: "64 word"
  gm_rate_limited :: "64 word"
  gm_refresh_total :: "64 word"
  gm_refresh_success :: "64 word"
  gm_http :: route_counts
  gm_http_fail :: route_counts
  gm_rtt :: "millis list"

definition default_gateway_metrics :: gateway_metrics where
  "default_gateway_metrics =
     \<lparr>gm_structured = True, gm_interval = 30000, gm_last_report = 0, gm_conn_current = 0, gm_conn_total = 0,
      gm_in_total = 0, gm_out_total = 0, gm_rate_limited = 0, gm_refresh_total = 0, gm_refresh_success = 0,
      gm_http = [], gm_http_fail = [], gm_rtt = []\<rparr>"

definition ConfigureGatewayMetrics :: "gateway_metrics \<Rightarrow> bool \<Rightarrow> millis \<Rightarrow> gateway_metrics" where
  "ConfigureGatewayMetrics m structured interval =
     (let m1 = m\<lparr>gm_structured := structured\<rparr>
      in if interval > 0 then m1\<lparr>gm_interval := interval\<rparr> else m1)"

definition RecordWsConnectionOpened :: "gateway_metrics \<Rightarrow> gateway_metrics" where
  "RecordWsConnectionOpened m = m\<lparr>gm_conn_current := gm_conn_current m + 1, gm_conn_total := gm_conn_total m + 1\<rparr>"

definition RecordWsConnectionClosed :: "gateway_metrics \<Rightarrow> gateway_metrics" where
  "RecordWsConnectionClosed m = m\<lparr>gm_conn_current := max 0 (gm_conn_current m - 1)\<rparr>"

definition RecordWsIn :: "gateway_metrics \<Rightarrow> gateway_metrics" where
  "RecordWsIn m = m\<lparr>gm_in_total := gm_in_total m + 1\<rparr>"

definition RecordWsOut :: "gateway_metrics \<Rightarrow> gateway_metrics" where
  "RecordWsOut m = m\<lparr>gm_out_total := gm_out_total m + 1\<rparr>"

definition RecordHttpRequest :: "gateway_metrics \<Rightarrow> string \<Rightarrow> bool \<Rightarrow> gateway_metrics" where
  "RecordHttpRequest m route success =
     (let m1 = m\<lparr>gm_http := add_count route 1 (gm_http m)\<rparr>
      in if \<not> success then m1\<lparr>gm_http_fail := add_count route 1 (gm_http_fail m1)\<rparr> else m1)"

definition RecordRateLimited :: "gateway_metrics \<Rightarrow> gateway_metrics" where
  "RecordRateLimited m = m\<lparr>gm_rate_limited := gm_rate_limited m + 1\<rparr>"

definition RecordRefreshResult :: "gateway_metrics \<Rightarrow> bool \<Rightarrow> gateway_metrics" where
  "RecordRefreshResult m success =
     (let m1 = m\<lparr>gm_refresh_total := gm_refresh_total m + 1\<rparr>
      in if success then m1\<lparr>gm_refresh_success := gm_refresh_success m1 + 1\<rparr> else m1)"

definition RecordUpstreamRttMs :: "gateway_metrics \<Rightarrow> millis \<Rightarrow> gateway_metrics" where
  "RecordUpstreamRttMs m latency =
     (if latency < 0 then m else m\<lparr>gm_rtt := push_latency (gm_rtt m) latency\<rparr>)"

text \<open>Reading the failures of a route through \<^verbatim>\<open>operator[]\<close> inserts the missing keys.\<close>

definition report_routes :: "gateway_metrics \<Rightarrow> gateway_metrics \<times> string" where
  "report_routes m =
     foldl (\<lambda>(m, out) (route, c).
        let fails = add_count route 0 (gm_http_fail m) in
        (m\<lparr>gm_http_fail := fails\<rparr>,
         out @ '' http_req_total_by_route.'' @ route @ ''='' @ nat_str (unat c) @
         '' http_req_fail_by_route.'' @ route @ ''='' @ nat_str (unat (count_of fails route)))) (m, []) (gm_http m)"

definition TryBuildGatewaySnapshot ::
    "(64 word \<Rightarrow> 64 word \<Rightarrow> string) \<Rightarrow> gateway_metrics \<Rightarrow> millis \<Rightarrow> gateway_metrics \<times> string option" where
  "TryBuildGatewaySnapshot show_rate m now =
     (if gm_last_report m \<noteq> 0 \<and> now - gm_last_report m < gm_interval m then (m, None)
      else
        let m1 = m\<lparr>gm_last_report := now\<rparr>;
            (m2, routes) = report_routes m1
        in (m2, Some
          (''event=gateway_metrics_snapshot trace_id=system ws_conn_current='' @ int_str (gm_conn_current m1) @
           '' ws_conn_total='' @ nat_str (unat (gm_conn_total m1)) @
           '' ws_in_total='' @ nat_str (unat (gm_in_total m1)) @
           '' ws_out_total='' @ nat_str (unat (gm_out_total m1)) @
           '' rate_limited_total='' @ nat_str (unat (gm_rate_limited m1)) @
           (if gm_rtt m1 \<noteq> []
            then '' upstream_rtt_p50='' @ int_str (Percentile (gm_rtt m1) 50) @
                 '' upstream_rtt_p95='' @ int_str (Percentile (gm_rtt m1) 95) @
                 '' upstream_rtt_p99='' @ int_str (Percentile (gm_rtt m1) 99)
            else '' upstream_rtt_p50=0 upstream_rtt_p95=0 upstream_rtt_p99=0'') @
           '' reconnect_refresh_success_rate='' @
           (if gm_refresh_total m1 = 0 then ''1'' else show_rate (gm_refresh_success m1) (gm_refresh_total m1)) @
           routes)))"

subsection \<open>The counters\<close>

lemma count_of_add:
  "sorted (map fst counts) \<Longrightarrow> distinct (map fst counts) \<Longrightarrow>
     count_of (add_count route n counts) r = count_of counts r + (if r = route then n else 0) \<and>
     sorted (map fst (add_count route n counts)) \<and> distinct (map fst (add_count route n counts)) \<and>
     fst ` set (add_count route n counts) = insert route (fst ` set counts)"
proof (induction route n counts rule: add_count.induct)
  case (1 route n)
  then show ?case by (simp add: count_of_def)
next
  case (2 route n q c rest)
  consider "route = q" | "route < q" | "q < route" by force
  then show ?case
  proof cases
    case 1
    then show ?thesis using 2 by (auto simp: count_of_def)
  next
    case less: 2
    then have "map_of rest route = None" "route \<notin> fst ` set rest"
      using 2(2) by (auto simp: map_of_eq_None_iff)
    then show ?thesis using 2(2,3) less by (auto simp: count_of_def)
  next
    case 3
    then have "route \<noteq> q" "\<not> route < q" by auto
    then show ?thesis using 2 3 by (auto simp: count_of_def) 
  qed
qed

end
