(* ===== verification/DdzGateway.thy ===== *)
theory DdzGateway
  imports DdzJson DdzAuth DdzConfig DdzGatewayMetrics "HOL-Library.Signed_Division"
begin

text \<open>
  The gateway, \<^verbatim>\<open>gateway/gateway_server.cpp\<close> with \<^verbatim>\<open>gateway/upstream_tcp_client.cpp\<close>: the limits per
  client address, the HTTP requests, and the proxy between a web socket and the game server. The
  HTTP and web socket library is not modelled: a request is the record of the fields that are
  read, a response the record of those that are set. The lines of the audit log are kept. The maps
  keyed by the client's address are maps; \<open>gc_clock i\<close> is the i-th reading of \<^verbatim>\<open>NowMs()\<close>.
\<close>

subsection \<open>Requests and responses\<close>

datatype http_verb = Get | Post | Options | OtherVerb

text \<open>A header that is absent is the empty string where the code reads it with \<^verbatim>\<open>operator[]\<close>, and
  \<open>None\<close> where it uses \<^verbatim>\<open>find\<close>. \<open>hq_upgrade\<close> is \<^verbatim>\<open>websocket::is_upgrade\<close>.\<close>

record http_request =
  hq_method :: http_verb
  hq_target :: string
  hq_version :: int
  hq_keep_alive :: bool
  hq_upgrade :: bool
  hq_origin :: string
  hq_forwarded :: string
  hq_user_agent :: string
  hq_authorization :: "string option"
  hq_dev_key :: "string option"
  hq_body :: string

record http_response =
  hp_status :: int
  hp_body :: string
  hp_version :: int
  hp_keep_alive :: bool
  hp_allow_origin :: string

record route_info =
  ri_path :: string
  ri_query :: "string \<rightharpoonup> string"

definition blank :: "char \<Rightarrow> bool" where
  "blank c \<longleftrightarrow> c = CHR '' '' \<or> c = CHR 0x09"

definition request_origin :: "string \<Rightarrow> string" where
  "request_origin origin0 =
     (let origin = rev (dropWhile blank (rev origin0))
      in if origin \<noteq> [] \<and> last origin = CHR ''/'' then butlast origin else origin)"

definition BuildGatewayErrorEnvelope ::
    "int \<Rightarrow> string \<Rightarrow> string \<Rightarrow> string \<Rightarrow> string \<Rightarrow> string \<Rightarrow> string" where
  "BuildGatewayErrorEnvelope code reason message h5 gateway_trace server_trace =
     BuildEnvelopeJson
       \<lparr>ge_msg_id = 0, ge_seq_id = 0, ge_player = 0,
        ge_body = BuildKvBody [(''code'', int_str code), (''reason'', reason), (''message'', message)],
        ge_h5 = h5, ge_gateway = gateway_trace, ge_server = server_trace\<rparr>"

text \<open>The texts are put between the quotes as they are.\<close>

definition BuildGatewayHttpErrorJson :: "int \<Rightarrow> string \<Rightarrow> string \<Rightarrow> string \<Rightarrow> string" where
  "BuildGatewayHttpErrorJson code reason message gateway_trace =
     ''{'' @ json_key ''code'' @ int_str code @ '','' @ json_key ''reason'' @ [quote] @ reason @ [quote] @ '','' @
     json_key ''message'' @ [quote] @ message @ [quote] @
     (if gateway_trace \<noteq> [] then '','' @ json_key ''gateway_trace_id'' @ [quote] @ gateway_trace @ [quote] else []) @
     ''}''"

text \<open>A response that may not have a body (1xx, 204, 304) gets none.\<close>

definition MakeJsonResponse :: "int \<Rightarrow> string \<Rightarrow> http_request \<Rightarrow> string \<Rightarrow> http_response" where
  "MakeJsonResponse status body req allow_origin =
     \<lparr>hp_status = status,
      hp_body = (if status = 204 \<or> status = 304 \<or> 100 \<le> status \<and> status < 200 then [] else body),
      hp_version = hq_version req, hp_keep_alive = hq_keep_alive req, hp_allow_origin = allow_origin\<rparr>"

text \<open>The query is split at \<^verbatim>\<open>&\<close>; a part without \<^verbatim>\<open>=\<close> is skipped, a later key overwrites an earlier one.\<close>

definition parse_query :: "string \<Rightarrow> string \<rightharpoonup> string" where
  "parse_query query =
     foldl (\<lambda>m item. case cut_at CHR ''='' item of None \<Rightarrow> m | Some (k, v) \<Rightarrow> m(k \<mapsto> v)) Map.empty
       (getlines CHR ''&'' query)"

definition ParseRouteInfo :: "string \<Rightarrow> route_info" where
  "ParseRouteInfo target =
     (case cut_at CHR ''?'' target of
        None \<Rightarrow> \<lparr>ri_path = target, ri_query = Map.empty\<rparr>
      | Some (path, query) \<Rightarrow> \<lparr>ri_path = path, ri_query = parse_query query\<rparr>)"

definition ExtractBearerToken :: "http_request \<Rightarrow> string" where
  "ExtractBearerToken req =
     (case hq_authorization req of
        None \<Rightarrow> []
      | Some v \<Rightarrow> if length v \<le> 7 \<or> take 7 v \<noteq> ''Bearer '' then [] else drop 7 v)"

definition ClientIpFromXForwardedFor :: "string \<Rightarrow> string" where
  "ClientIpFromXForwardedFor xff =
     (let ip = (case cut_at CHR '','' xff of None \<Rightarrow> xff | Some (a, _) \<Rightarrow> a)
      in rev (dropWhile blank (rev (dropWhile blank ip))))"

definition IsOriginAllowed :: "gateway_config \<Rightarrow> string \<Rightarrow> bool" where
  "IsOriginAllowed cfg origin = (origin \<noteq> [] \<and> request_origin origin \<in> set (gc_origins cfg))"

subsection \<open>Limits per client address\<close>

type_synonym bans = "string \<rightharpoonup> millis"
type_synonym rates = "string \<rightharpoonup> millis list"
type_synonym slots = "string \<rightharpoonup> int"

definition IsIpBanned :: "bans \<Rightarrow> string \<Rightarrow> millis \<Rightarrow> bans \<times> bool" where
  "IsIpBanned banned ip now =
     (case banned ip of
        None \<Rightarrow> (banned, False)
      | Some until \<Rightarrow> if until \<le> now then (banned(ip := None), False) else (banned, True))"

definition BanIp :: "gateway_config \<Rightarrow> bans \<Rightarrow> string \<Rightarrow> millis \<Rightarrow> bans" where
  "BanIp cfg banned ip now = banned(ip \<mapsto> now + gc_ban_seconds cfg * 1000)"

text \<open>The sliding window of one second that both limits of requests use.\<close>

definition window_tail :: "millis \<Rightarrow> millis list \<Rightarrow> millis list" where
  "window_tail now = dropWhile (\<lambda>t. now - t \<ge> 1000)"

definition consume :: "int \<Rightarrow> millis \<Rightarrow> millis list \<Rightarrow> millis list \<times> bool" where
  "consume limit now window0 =
     (let window = window_tail now window0
      in if to_i32 (int (length window)) \<ge> limit then (window, False) else (window @ [now], True))"

definition CheckAndConsumeHttpQps :: "gateway_config \<Rightarrow> rates \<Rightarrow> string \<Rightarrow> millis \<Rightarrow> rates \<times> bool" where
  "CheckAndConsumeHttpQps cfg rates ip now =
     (case consume (gc_max_http_qps cfg) now (case rates ip of Some w \<Rightarrow> w | None \<Rightarrow> []) of
        (window, ok) \<Rightarrow> (rates(ip \<mapsto> window), ok))"

definition TryAcquireWsSlot :: "gateway_config \<Rightarrow> slots \<Rightarrow> string \<Rightarrow> slots \<times> bool" where
  "TryAcquireWsSlot cfg slots ip =
     (let count = (case slots ip of Some n \<Rightarrow> n | None \<Rightarrow> 0)
      in if count \<ge> gc_max_connections cfg then (slots(ip \<mapsto> count), False) else (slots(ip \<mapsto> count + 1), True))"

definition ReleaseWsSlot :: "slots \<Rightarrow> string \<Rightarrow> slots" where
  "ReleaseWsSlot slots ip =
     (case slots ip of
        None \<Rightarrow> slots
      | Some n \<Rightarrow> if n - 1 \<le> 0 then slots(ip := None) else slots(ip \<mapsto> n - 1))"

subsection \<open>The gateway's state\<close>

record gateway =
  gw_cfg :: gateway_config
  gw_auth :: auth
  gw_metrics :: gateway_metrics
  gw_slots :: slots
  gw_rates :: rates
  gw_banned :: bans
  gw_ticks :: nat
  gw_trace :: "64 word"
  gw_http_seq :: "32 word"
  gw_running :: bool
  gw_audit :: "string list"

definition gw_now :: "(nat \<Rightarrow> millis) \<Rightarrow> gateway \<Rightarrow> gateway \<times> millis" where
  "gw_now clk g = (g\<lparr>gw_ticks := gw_ticks g + 1\<rparr>, clk (gw_ticks g))"

definition upd_metrics :: "(gateway_metrics \<Rightarrow> gateway_metrics) \<Rightarrow> gateway \<Rightarrow> gateway" where
  "upd_metrics f g = g\<lparr>gw_metrics := f (gw_metrics g)\<rparr>"

definition BuildGatewayTraceId :: "(nat \<Rightarrow> millis) \<Rightarrow> gateway \<Rightarrow> gateway \<times> string" where
  "BuildGatewayTraceId clk g =
     (case gw_now clk g of
        (g1, now) \<Rightarrow>
          (g1\<lparr>gw_trace := gw_trace g1 + 1\<rparr>, ''gw-'' @ int_str now @ ''-'' @ nat_str (unat (gw_trace g1))))"


text \<open>A refused connection leaves a line in the audit log.\<close>

definition dashed :: "string \<Rightarrow> string" where
  "dashed s = (if s = [] then ''-'' else s)"

definition reject_line :: "string \<Rightarrow> string \<Rightarrow> string \<Rightarrow> string \<Rightarrow> string \<Rightarrow> string \<Rightarrow> string" where
  "reject_line reason client_ip origin path user_agent trace =
     ''event=gateway_reject reason='' @ reason @ '' client_ip='' @ client_ip @ '' origin='' @ dashed origin @
     '' path='' @ path @ '' user_agent='' @ dashed user_agent @ '' trace_id='' @ dashed trace"

definition LogRejectAudit :: "string \<Rightarrow> string \<Rightarrow> http_request \<Rightarrow> string \<Rightarrow> gateway \<Rightarrow> gateway" where
  "LogRejectAudit reason client_ip req trace g =
     g\<lparr>gw_audit := gw_audit g @
       [reject_line reason client_ip (hq_origin req) (ri_path (ParseRouteInfo (hq_target req))) (hq_user_agent req) trace]\<rparr>"

subsection \<open>The connection to the game server\<close>

text \<open>\<^verbatim>\<open>UpstreamTcpClient\<close>. Its state is whether it runs, the reader's buffer and the size limit of the
  configuration. \<open>Connect\<close> gets the failures of the resolver and of the connection.\<close>

definition upstream_connect :: "string option \<Rightarrow> string option \<Rightarrow> bool \<Rightarrow> bool \<times> string option" where
  "upstream_connect resolve_err connect_err running =
     (if running then (True, None)
      else case resolve_err of
             Some e \<Rightarrow> (False, Some (''resolve upstream failed: '' @ e))
           | None \<Rightarrow>
               (case connect_err of
                  Some e \<Rightarrow> (False, Some (''connect upstream failed: '' @ e))
                | None \<Rightarrow> (True, None)))"

text \<open>\<^verbatim>\<open>SendPacket\<close>; \<open>write_err\<close> is the outcome of the write. A packet that the codec
  would write out of bounds is not sent either.\<close>

definition upstream_send :: "gateway_config \<Rightarrow> bool \<Rightarrow> packet \<Rightarrow> string option \<Rightarrow> string option" where
  "upstream_send cfg running pk write_err =
     (if \<not> running then Some ''upstream not running''
      else case Encode pk (word_of_int (gc_max_packet_size cfg)) of
             Encoded _ \<Rightarrow> map_option (\<lambda>e. ''write upstream failed: '' @ e) write_err
           | _ \<Rightarrow> Some ''packet size out of range'')"

text \<open>\<^verbatim>\<open>ReadLoop\<close> for one chunk: the packets for the callback, the buffer that remains, and whether the
  loop goes on. A failed read and the end of the stream are the empty chunk.\<close>

definition upstream_read :: "gateway_config \<Rightarrow> byte list \<Rightarrow> byte list \<Rightarrow> packet list \<times> byte list \<times> bool" where
  "upstream_read cfg buffer chunk =
     (if chunk = [] then ([], buffer, False)
      else case Decode (buffer @ chunk) (word_of_int (gc_max_packet_size cfg)) of
             (False, _, rest) \<Rightarrow> ([], rest, False)
           | (True, packets, rest) \<Rightarrow> (packets, rest, True))"

text \<open>What the game server does to one request of the gateway: the failure of the connection and of
  the write, and the turns of the waiting loop, each with the reading of the clock in its condition,
  the packets that have arrived since, and the reading taken when the answer is found.\<close>

record upstream =
  up_resolve :: "string option"
  up_connect :: "string option"
  up_write :: "string option"
  up_turns :: "(millis \<times> packet list \<times> millis) list"

fun await :: "32 word \<Rightarrow> millis \<Rightarrow> packet list \<Rightarrow> (millis \<times> packet list \<times> millis) list \<Rightarrow> (packet \<times> millis) option" where
  "await seq deadline queue [] = None"
| "await seq deadline queue ((now, arrived, at) # turns) =
     (if now \<ge> deadline then None
      else case find (\<lambda>p. pk_seq_id p = seq) (queue @ arrived) of
             Some p \<Rightarrow> Some (p, at)
           | None \<Rightarrow> await seq deadline (queue @ arrived) turns)"

text \<open>\<open>Inl\<close> is the error; \<open>Inr\<close> the answer and its latency.\<close>

definition QueryUpstreamPacket ::
    "(nat \<Rightarrow> millis) \<Rightarrow> upstream \<Rightarrow> gateway \<Rightarrow> packet \<Rightarrow> millis \<Rightarrow> gateway \<times> (string + packet \<times> millis)" where
  "QueryUpstreamPacket clk up g req timeout =
     (case snd (upstream_connect (up_resolve up) (up_connect up) False) of
        Some e \<Rightarrow> (g, Inl e)
      | None \<Rightarrow>
          (case gw_now clk g of
             (g1, begin) \<Rightarrow>
               (case upstream_send (gw_cfg g1) True req (up_write up) of
                  Some e \<Rightarrow> (g1, Inl e)
                | None \<Rightarrow>
                    (case await (pk_seq_id req) (begin + timeout) [] (up_turns up) of
                       None \<Rightarrow> (g1, Inl ''upstream timeout'')
                     | Some (p, at) \<Rightarrow> (g1, Inr (p, at - begin))))))"

subsection \<open>The HTTP requests\<close>

definition HandleLoginTicketRequest ::
    "(nat \<Rightarrow> millis) \<Rightarrow> gateway \<Rightarrow> http_request \<Rightarrow> string \<Rightarrow> string \<Rightarrow> gateway \<times> http_response" where
  "HandleLoginTicketRequest clk g req allow_origin trace =
     (let route = ''login-ticket'' in
      if hq_dev_key req \<noteq> Some (gc_dev_key (gw_cfg g)) then
        (upd_metrics (\<lambda>m. RecordHttpRequest m route False) g,
         MakeJsonResponse 401 (BuildGatewayHttpErrorJson 401 ''invalid_dev_key'' ''invalid X-Dev-Key'' trace) req allow_origin)
      else case ParseLoginTicketRequestJson (hq_body req) of
             Inl e \<Rightarrow>
               (upd_metrics (\<lambda>m. RecordHttpRequest m route False) g,
                MakeJsonResponse 400 (BuildGatewayHttpErrorJson 400 ''invalid_request'' e trace) req allow_origin)
           | Inr (p, nickname) \<Rightarrow>
               (case gw_now clk g of
                  (g1, now) \<Rightarrow>
                    (case IssueLoginTicket (gw_auth g1) p now of
                       (a, t) \<Rightarrow>
                         let g2 = g1\<lparr>gw_auth := a\<rparr> in
                         if ti_token t = [] then
                           (upd_metrics (\<lambda>m. RecordHttpRequest m route False) g2,
                            MakeJsonResponse 500
                              (BuildGatewayHttpErrorJson 500 ''issue_ticket_failed'' ''issue login ticket failed'' trace) req allow_origin)
                         else
                           (upd_metrics (\<lambda>m. RecordHttpRequest m route True) g2,
                            MakeJsonResponse 200
                              (BuildLoginTicketResponseJson 0 p (ti_token t) (ti_expire t) ''ok'') req allow_origin))))"

text \<open>The query of a refresh: the player, the room and the bearer token.\<close>

definition refresh_query :: "http_request \<Rightarrow> (player_id \<times> room_id \<times> string) option" where
  "refresh_query req =
     (let query = ri_query (ParseRouteInfo (hq_target req)); token = ExtractBearerToken req in
      case (query ''player_id'', query ''room_id'') of
        (Some p_text, Some r_text) \<Rightarrow>
          if token = [] then None
          else (case (stoll_all p_text, stoll_all r_text) of
                  (Some p, Some r) \<Rightarrow> if p \<le> 0 \<or> r < 0 then None else Some (p, r, token)
                | _ \<Rightarrow> None)
      | _ \<Rightarrow> None)"

definition refresh_packet :: "32 word \<Rightarrow> player_id \<Rightarrow> room_id \<Rightarrow> string \<Rightarrow> string \<Rightarrow> packet" where
  "refresh_packet seq p rid token trace =
     \<lparr>pk_msg_id = 6103, pk_seq_id = seq, pk_player_id = p,
      pk_body = BuildKvBody [(''player_id'', int_str p), (''token'', token), (''room_id'', int_str rid),
        (''gateway_trace_id'', trace)]\<rparr>"

text \<open>The fields of the answer: a number that is missing or does not parse keeps its default.\<close>

definition refresh_answer :: "packet \<Rightarrow> string \<Rightarrow> int \<times> string" where
  "refresh_answer response trace =
     (let kv = ParseKvBody (pk_body response);
          num = (\<lambda>key. case kv key of None \<Rightarrow> 0 | Some v \<Rightarrow> (case stoll_all v of None \<Rightarrow> 0 | Some i \<Rightarrow> i));
          txt = (\<lambda>key. case kv key of None \<Rightarrow> [] | Some v \<Rightarrow> v);
          code = (case kv ''code'' of None \<Rightarrow> 1 | Some v \<Rightarrow> (case stoi v of None \<Rightarrow> 1 | Some (i, _) \<Rightarrow> i));
          reason = (if txt ''reason'' \<noteq> [] then txt ''reason'' else ''unknown_error'');
          gateway_trace = (if txt ''gateway_trace_id'' \<noteq> [] then txt ''gateway_trace_id'' else trace)
      in (code, BuildSessionRefreshResponseJson code (num ''player_id'') (num ''room_id'') (txt ''token'')
            (num ''expire_at_ms'') reason gateway_trace (txt ''server_trace_id'')))"

definition HandleRefreshRequest ::
    "(nat \<Rightarrow> millis) \<Rightarrow> upstream \<Rightarrow> gateway \<Rightarrow> http_request \<Rightarrow> string \<Rightarrow> string \<Rightarrow> gateway \<times> http_response" where
  "HandleRefreshRequest clk up g req allow_origin trace =
     (let record_result = (\<lambda>ok. upd_metrics (\<lambda>m. RecordRefreshResult (RecordHttpRequest m ''session-refresh'' ok) ok)) in
      case refresh_query req of
        None \<Rightarrow>
          (record_result False g,
           MakeJsonResponse 400 (BuildGatewayHttpErrorJson 400 ''invalid_request'' ''invalid auth or query'' trace) req allow_origin)
      | Some (p, rid, token) \<Rightarrow>
          (case QueryUpstreamPacket clk up (g\<lparr>gw_http_seq := gw_http_seq g + 1\<rparr>)
              (refresh_packet (gw_http_seq g) p rid token trace) 3000 of
             (g1, Inl e) \<Rightarrow>
               (record_result False g1,
                MakeJsonResponse 502 (BuildGatewayHttpErrorJson 502 ''upstream_error'' e trace) req allow_origin)
           | (g1, Inr (response, latency)) \<Rightarrow>
               (case refresh_answer response trace of
                  (code, body) \<Rightarrow>
                    (record_result (pk_msg_id response = 6104 \<and> code = 0)
                       (upd_metrics (\<lambda>m. RecordUpstreamRttMs m latency) g1),
                     MakeJsonResponse 200 body req allow_origin))))"

text \<open>The outcome of a new connection: a response, or the web socket is accepted for the client.\<close>

datatype connection_outcome = Respond http_response | Upgraded string

definition client_address :: "gateway_config \<Rightarrow> http_request \<Rightarrow> string \<Rightarrow> string" where
  "client_address cfg req ip =
     (let xff_ip = ClientIpFromXForwardedFor (hq_forwarded req)
      in if gc_trust_forwarded cfg \<and> xff_ip \<noteq> [] then xff_ip else ip)"

definition limited ::
    "(nat \<Rightarrow> millis) \<Rightarrow> gateway \<Rightarrow> http_request \<Rightarrow> string \<Rightarrow> string \<Rightarrow> string \<Rightarrow> string \<Rightarrow> string \<Rightarrow> string
     \<Rightarrow> gateway \<times> connection_outcome" where
  "limited clk g req ip allow_origin audit reason message trace =
     (case gw_now clk (upd_metrics RecordRateLimited g) of
        (g1, now) \<Rightarrow>
          (LogRejectAudit audit ip req trace (g1\<lparr>gw_banned := BanIp (gw_cfg g1) (gw_banned g1) ip now\<rparr>),
           Respond (MakeJsonResponse 429 (BuildGatewayHttpErrorJson 429 reason message trace) req allow_origin)))"

definition route_request ::
    "(nat \<Rightarrow> millis) \<Rightarrow> upstream \<Rightarrow> gateway \<Rightarrow> http_request \<Rightarrow> string \<Rightarrow> string \<Rightarrow> gateway \<times> http_response" where
  "route_request clk up g req allow_origin trace =
     (let path = ri_path (ParseRouteInfo (hq_target req)) in
      if hq_method req = Post \<and> path = ''/api/auth/login-ticket''
      then HandleLoginTicketRequest clk g req allow_origin trace
      else if hq_method req = Get \<and> path = ''/api/session/refresh''
      then HandleRefreshRequest clk up g req allow_origin trace
      else (upd_metrics (\<lambda>m. RecordHttpRequest m ''unknown'' False) g,
            MakeJsonResponse 404 (BuildGatewayHttpErrorJson 404 ''not_found'' ''not found'' trace) req allow_origin))"

text \<open>A web socket on its own path, and every other request, after the checks of origin and ban.\<close>

definition rejected ::
    "string \<Rightarrow> string \<Rightarrow> http_request \<Rightarrow> string \<Rightarrow> string \<Rightarrow> gateway \<Rightarrow> gateway \<times> connection_outcome" where
  "rejected audit ip req message trace g =
     (LogRejectAudit audit ip req trace g,
      Respond (MakeJsonResponse 403 (BuildGatewayHttpErrorJson 403 ''origin_not_allowed'' message trace) req []))"

definition open_socket ::
    "(nat \<Rightarrow> millis) \<Rightarrow> gateway \<Rightarrow> http_request \<Rightarrow> string \<Rightarrow> string \<Rightarrow> string \<Rightarrow> gateway \<times> connection_outcome" where
  "open_socket clk g req ip allow_origin trace =
     (if \<not> IsOriginAllowed (gw_cfg g) (hq_origin req) 
      then rejected ''ws_origin_invalid'' ip req ''origin required'' trace g
      else
        (case TryAcquireWsSlot (gw_cfg g) (gw_slots g) ip of
           (slots, False) \<Rightarrow>
             limited clk (g\<lparr>gw_slots := slots\<rparr>) req ip allow_origin
               ''ws_conn_limit'' ''ws_conn_limited'' ''too many websocket connections'' trace
         | (slots, True) \<Rightarrow> (g\<lparr>gw_slots := slots\<rparr>, Upgraded ip)))"

definition serve_http ::
    "(nat \<Rightarrow> millis) \<Rightarrow> upstream \<Rightarrow> gateway \<Rightarrow> http_request \<Rightarrow> string \<Rightarrow> string \<Rightarrow> string
     \<Rightarrow> gateway \<times> connection_outcome" where
  "serve_http clk up g req ip allow_origin trace =
     (case gw_now clk g of
        (g1, now) \<Rightarrow>
          (case CheckAndConsumeHttpQps (gw_cfg g1) (gw_rates g1) ip now of
             (rates, False) \<Rightarrow>
               limited clk (g1\<lparr>gw_rates := rates\<rparr>) req ip allow_origin
                 ''http_qps_limited'' ''http_qps_limited'' ''qps exceeded'' trace
           | (rates, True) \<Rightarrow>
               (case route_request clk up (g1\<lparr>gw_rates := rates\<rparr>) req allow_origin trace of
                  (g2, response) \<Rightarrow> (g2, Respond response))))"

definition HandleGatewayConnection ::
    "(nat \<Rightarrow> millis) \<Rightarrow> upstream \<Rightarrow> gateway \<Rightarrow> string \<Rightarrow> http_request \<Rightarrow> gateway \<times> connection_outcome" where
  "HandleGatewayConnection clk up g0 peer req =
     (let cfg = gw_cfg g0; ip = client_address cfg req peer; path = ri_path (ParseRouteInfo (hq_target req)) in
      case BuildGatewayTraceId clk g0 of
        (g1, trace) \<Rightarrow>
          let origin_allowed = IsOriginAllowed cfg (hq_origin req);
              allow_origin = (if origin_allowed then request_origin (hq_origin req) else [])
          in
          if hq_origin req \<noteq> [] \<and> \<not> origin_allowed 
          then rejected ''origin_not_allowed'' ip req ''origin rejected'' trace g1
          else
            (case gw_now clk g1 of
               (g2, now) \<Rightarrow>
                 (case IsIpBanned (gw_banned g2) ip now of
                    (banned, True) \<Rightarrow>
                      (LogRejectAudit ''ip_banned'' ip req trace (upd_metrics RecordRateLimited (g2\<lparr>gw_banned := banned\<rparr>)),
                       Respond (MakeJsonResponse 429
                         (BuildGatewayHttpErrorJson 429 ''ip_banned'' ''too many requests'' trace) req allow_origin))
                  | (banned, False) \<Rightarrow>
                      let g3 = g2\<lparr>gw_banned := banned\<rparr> in
                      if hq_method req = Options then (g3, Respond (MakeJsonResponse 204 ''{}'' req allow_origin))
                      else if hq_upgrade req \<and> path = ''/ws/game'' then open_socket clk g3 req ip allow_origin trace
                      else serve_http clk up g3 req ip allow_origin trace)))"

subsection \<open>The proxy of a web socket\<close>

text \<open>One thread serves a web socket; the callback of the upstream connection runs on another one and
  shares \<open>px_outbound\<close> and \<open>px_pending\<close> under their locks. \<open>px_written\<close> is what was written to the web
  socket, \<open>px_sent\<close> the packets sent upstream; \<open>px_upstream\<close> is \<^verbatim>\<open>upstream.running()\<close>.\<close>

record pending_trace =
  pt_send :: millis
  pt_h5 :: string
  pt_gateway :: string

record proxy =
  px_open :: bool
  px_upstream :: bool
  px_buffer :: "byte list"
  px_outbound :: "string list"
  px_written :: "string list"
  px_sent :: "packet list"
  px_pending :: "32 word \<rightharpoonup> pending_trace"
  px_window :: "millis list"
  px_notified :: bool

definition push_outbound :: "string \<Rightarrow> proxy \<Rightarrow> proxy" where
  "push_outbound msg x = x\<lparr>px_outbound := px_outbound x @ [msg]\<rparr>"

definition proxy_error :: "int \<Rightarrow> string \<Rightarrow> string \<Rightarrow> proxy \<Rightarrow> proxy" where
  "proxy_error code reason message = push_outbound (BuildGatewayErrorEnvelope code reason message [] [] [])"

definition gateway_welcome :: "gateway_config \<Rightarrow> string" where
  "gateway_welcome cfg =
     ''{'' @ json_key ''type'' @ [quote] @ ''gateway_welcome'' @ [quote] @ '','' @
     json_key ''heartbeat_interval_ms'' @ int_str (gc_heartbeat_timeout cfg sdiv 3) @ '','' @
     json_key ''reconnect_backoff_ms'' @ int_str (gc_reconnect_backoff cfg) @ ''}''"

definition proxy_open :: "string option \<Rightarrow> string option \<Rightarrow> gateway \<Rightarrow> gateway \<times> proxy" where
  "proxy_open resolve_err connect_err g =
     (let (running, err) = upstream_connect resolve_err connect_err False;
          x = push_outbound (gateway_welcome (gw_cfg g))
            \<lparr>px_open = True, px_upstream = running, px_buffer = [], px_outbound = [], px_written = [], px_sent = [],
             px_pending = Map.empty, px_window = [], px_notified = False\<rparr>
      in (upd_metrics RecordWsConnectionOpened g,
          case err of None \<Rightarrow> x | Some e \<Rightarrow> proxy_error 1 ''upstream_connect_failed'' e x))"

text \<open>The callback for a packet of the game server.\<close>

definition proxy_packet :: "(nat \<Rightarrow> millis) \<Rightarrow> packet \<Rightarrow> gateway \<times> proxy \<Rightarrow> gateway \<times> proxy" where
  "proxy_packet clk pk = (\<lambda>(g, x).
     let kv = ParseKvBody (pk_body pk);
         txt = (\<lambda>key. case kv key of None \<Rightarrow> [] | Some v \<Rightarrow> v);
         env = \<lparr>ge_msg_id = pk_msg_id pk, ge_seq_id = pk_seq_id pk, ge_player = pk_player_id pk,
                ge_body = pk_body pk, ge_h5 = txt ''h5_request_id'', ge_gateway = txt ''gateway_trace_id'',
                ge_server = txt ''server_trace_id''\<rparr>
     in case px_pending x (pk_seq_id pk) of
          None \<Rightarrow> (upd_metrics RecordWsOut g, push_outbound (BuildEnvelopeJson env) x)
        | Some t \<Rightarrow>
            (case gw_now clk g of
               (g1, now) \<Rightarrow>
                 let env' = env\<lparr>ge_h5 := (if ge_h5 env = [] then pt_h5 t else ge_h5 env),
                                ge_gateway := (if ge_gateway env = [] then pt_gateway t else ge_gateway env)\<rparr>
                 in (upd_metrics (\<lambda>m. RecordWsOut (RecordUpstreamRttMs m (now - pt_send t))) g1,
                     push_outbound (BuildEnvelopeJson env')
                       (x\<lparr>px_pending := (px_pending x)(pk_seq_id pk := None)\<rparr>))))"

text \<open>The reader of the upstream connection gets a chunk.\<close>

definition proxy_chunk :: "(nat \<Rightarrow> millis) \<Rightarrow> byte list \<Rightarrow> gateway \<times> proxy \<Rightarrow> gateway \<times> proxy" where
  "proxy_chunk clk chunk = (\<lambda>(g, x).
     case upstream_read (gw_cfg g) (px_buffer x) chunk of
       (packets, buffer, goes_on) \<Rightarrow>
         foldl (\<lambda>s pk. proxy_packet clk pk s) (g, x\<lparr>px_buffer := buffer, px_upstream := goes_on\<rparr>) packets)"

text \<open>The top of the loop: everything outbound is written, or a write fails and the proxy ends.\<close>

definition proxy_flush :: "proxy \<Rightarrow> proxy" where
  "proxy_flush x = x\<lparr>px_written := px_written x @ px_outbound x, px_outbound := []\<rparr>"

definition proxy_write_failed :: "nat \<Rightarrow> gateway \<times> proxy \<Rightarrow> gateway \<times> proxy" where
  "proxy_write_failed n = (\<lambda>(g, x).
     (upd_metrics RecordWsConnectionClosed g,
      x\<lparr>px_open := False, px_upstream := False, px_written := px_written x @ take n (px_outbound x),
        px_outbound := drop (Suc n) (px_outbound x)\<rparr>))"

text \<open>Nothing to read.\<close>

definition proxy_idle :: "proxy \<Rightarrow> proxy" where
  "proxy_idle x =
     (if \<not> px_upstream x \<and> \<not> px_notified x
      then (proxy_error 1 ''upstream_disconnected'' ''upstream disconnected'' x)\<lparr>px_notified := True\<rparr> else x)"

text \<open>The end of the loop.\<close>

definition proxy_close :: "gateway \<times> proxy \<Rightarrow> gateway \<times> proxy" where
  "proxy_close = (\<lambda>(g, x). (upd_metrics RecordWsConnectionClosed g, x\<lparr>px_open := False, px_upstream := False\<rparr>))"

definition upstream_body :: "gateway_envelope \<Rightarrow> string \<Rightarrow> string" where
  "upstream_body env trace =
     (let b0 = ge_body env;
          b1 = (if ge_h5 env \<noteq> [] then (if b0 \<noteq> [] then b0 @ '';'' else b0) @ ''h5_request_id='' @ ge_h5 env else b0)
      in (if b1 \<noteq> [] then b1 @ '';'' else b1) @ ''gateway_trace_id='' @ trace)"

text \<open>A text frame from the client at \<open>ip\<close>.\<close>

definition proxy_payload ::
    "(nat \<Rightarrow> millis) \<Rightarrow> string \<Rightarrow> string \<Rightarrow> string option \<Rightarrow> gateway \<times> proxy \<Rightarrow> gateway \<times> proxy" where
  "proxy_payload clk ip payload write_err = (\<lambda>(g0, x).
     case gw_now clk g0 of
       (g1, now1) \<Rightarrow>
         (case IsIpBanned (gw_banned g1) ip now1 of
            (banned, True) \<Rightarrow>
              proxy_close (g1\<lparr>gw_banned := banned\<rparr>, proxy_error 429 ''ip_banned'' ''too many requests'' x)
          | (banned, False) \<Rightarrow>
              (case gw_now clk (g1\<lparr>gw_banned := banned\<rparr>) of
                 (g2, now) \<Rightarrow>
                   (case consume (gc_max_messages (gw_cfg g2)) now (px_window x) of
                      (window, False) \<Rightarrow>
                        proxy_close
                          ((upd_metrics RecordRateLimited g2)\<lparr>gw_banned := BanIp (gw_cfg g2) (gw_banned g2) ip now\<rparr>,
                           proxy_error 429 ''ws_rate_limited'' ''message rate exceeded'' (x\<lparr>px_window := window\<rparr>))
                    | (window, True) \<Rightarrow>
                        let x1 = x\<lparr>px_window := window\<rparr> in
                        (case ParseEnvelopeJson payload of
                           Inl e \<Rightarrow> (g2, proxy_error 400 ''invalid_request'' e x1)
                         | Inr env \<Rightarrow>
                             if \<not> px_upstream x1 then
                               (g2, push_outbound (BuildGatewayErrorEnvelope 503 ''upstream_not_ready''
                                      ''upstream not ready'' (ge_h5 env) [] []) x1)
                             else
                               (case BuildGatewayTraceId clk g2 of
                                  (g3, trace) \<Rightarrow>
                                    let pk = \<lparr>pk_msg_id = ge_msg_id env, pk_seq_id = ge_seq_id env,
                                              pk_player_id = ge_player env, pk_body = upstream_body env trace\<rparr>
                                    in (case upstream_send (gw_cfg g3) True pk write_err of
                                          Some e \<Rightarrow>
                                            (g3, push_outbound (BuildGatewayErrorEnvelope 502 ''upstream_send_failed'' e
                                                   (ge_h5 env) trace []) x1)
                                        | None \<Rightarrow>
                                            (upd_metrics RecordWsIn g3,
                                             x1\<lparr>px_sent := px_sent x1 @ [pk],
                                                px_pending := (px_pending x1)(pk_seq_id pk \<mapsto>
                                                  \<lparr>pt_send = now, pt_h5 = ge_h5 env, pt_gateway = trace\<rparr>)\<rparr>))))))))"

text \<open>What \<^verbatim>\<open>HandleGatewayConnection\<close> does when the proxy has returned.\<close>

definition connection_finished :: "gateway \<Rightarrow> string \<Rightarrow> gateway" where
  "connection_finished g ip = g\<lparr>gw_slots := ReleaseWsSlot (gw_slots g) ip\<rparr>"

subsection \<open>Starting, stopping and reporting\<close>

definition GatewayStart ::
    "string \<Rightarrow> string \<Rightarrow> string option \<Rightarrow> string option \<Rightarrow> gateway \<Rightarrow> gateway \<times> string option" where
  "GatewayStart what path file log_err g =
     (if gw_running g then (g, None)
      else case LoadGatewayFromFile what path file (gw_cfg g) of
             (cfg, Some e) \<Rightarrow> (g\<lparr>gw_cfg := cfg\<rparr>, Some e)
           | (cfg, None) \<Rightarrow>
               let g1 = g\<lparr>gw_cfg := cfg, gw_auth := Configure (gw_auth g) (gc_token_secret cfg) (gc_token_ttl cfg),
                          gw_metrics := ConfigureGatewayMetrics (gw_metrics g) (gc_structured_log cfg)
                            (gc_metrics_interval cfg)\<rparr>
               in (case log_err of Some e \<Rightarrow> (g1, Some e) | None \<Rightarrow> (g1\<lparr>gw_running := True\<rparr>, None)))"

definition GatewayStop :: "gateway \<Rightarrow> gateway" where
  "GatewayStop g = (if gw_running g then g\<lparr>gw_running := False\<rparr> else g)"

definition MetricsTick :: "(64 word \<Rightarrow> 64 word \<Rightarrow> string) \<Rightarrow> (nat \<Rightarrow> millis) \<Rightarrow> gateway \<Rightarrow> gateway" where
  "MetricsTick show_rate clk g =
     (case gw_now clk g of
        (g1, now) \<Rightarrow> g1\<lparr>gw_metrics := fst (TryBuildGatewaySnapshot show_rate (gw_metrics g1) now)\<rparr>)"

end
