(* ===== verification/DdzGatewayProps.thy ===== *)
theory DdzGatewayProps
  imports DdzGateway DdzLogin
begin

text \<open>
  What the gateway guarantees: the limits per client address hold whatever the clients do and in
  whatever order the connections' threads run, a web socket is only opened for an allowed origin,
  what a client sends reaches the game server with its identifiers and the answer comes back with
  them, and the tickets issued here are accepted by the game server.
\<close>

subsection \<open>Sliding windows\<close>

text \<open>The times at which the requests of one key are accepted, out of the requests of all keys.\<close>

fun accepted_times :: "('s \<Rightarrow> 'k \<Rightarrow> millis \<Rightarrow> 's \<times> bool) \<Rightarrow> 's \<Rightarrow> ('k \<times> millis) list \<Rightarrow> 'k \<Rightarrow> millis list" where
  "accepted_times check s [] k = []"
| "accepted_times check s ((k', t) # es) k =
     (case check s k' t of
        (s', ok) \<Rightarrow> (if ok \<and> k' = k then [t] else []) @ accepted_times check s' es k)"

definition within :: "millis \<Rightarrow> millis \<Rightarrow> bool" where
  "within from t \<longleftrightarrow> from \<le> t \<and> t < from + 1000"

text \<open>A check that keeps a window per key and accepts while the window has room.\<close>

locale rate_limit =
  fixes check :: "'s \<Rightarrow> 'k \<Rightarrow> millis \<Rightarrow> 's \<times> bool" and window :: "'s \<Rightarrow> 'k \<Rightarrow> millis list" and limit :: int
  assumes accept: "check s k now = (s', True) \<Longrightarrow> window s' k = window_tail now (window s k) @ [now]"
    and accept_room: "in_i32 limit \<Longrightarrow> check s k now = (s', True) \<Longrightarrow> int (length (window s k)) \<le> limit \<Longrightarrow>
      int (length (window_tail now (window s k))) < limit"
    and refuse: "check s k now = (s', False) \<Longrightarrow> window s' k = window_tail now (window s k)"
    and other_key: "check s k now = (s', ok) \<Longrightarrow> k' \<noteq> k \<Longrightarrow> window s' k' = window s k'"
begin

lemma accepted_times_later:
  "t \<in> set (accepted_times check s es k) \<Longrightarrow> t \<in> snd ` set es"
  by (induction es arbitrary: s) (force split: prod.splits if_splits)+

lemma window_count:
  assumes "in_i32 limit" "sorted (map snd es)" "int (length (window s k)) \<le> limit"
  shows "int (length (filter (within from) (window s k @ accepted_times check s es k))) \<le> limit"
  using assms(2,3)
proof (induction es arbitrary: s)
  case Nil
  have "length (filter (within from) (window s k)) \<le> length (window s k)" by simp
  then have "int (length (filter (within from) (window s k))) \<le> int (length (window s k))" by linarith
  from order_trans [OF this Nil(2)] show ?case by simp
next
  case (Cons e es)
  obtain k' t where e: "e = (k', t)" by fastforce
  obtain s' ok where c: "check s k' t = (s', ok)" by fastforce
  have later: "t \<le> u" if "u \<in> set (accepted_times check s' es k)" for u
    using accepted_times_later [OF that] Cons.prems(1) e by auto
  show ?case
  proof (cases "k' = k")
    case False
    then have "window s' k = window s k" using other_key [OF c] by simp
    then show ?thesis using Cons.IH [of s'] Cons.prems e c False by simp
  next
    case True
    let ?w = "window s k" and ?now = "if ok then [t] else []"
    have w': "window s' k = window_tail t ?w @ ?now"
      using accept [of s k t s'] refuse [of s k t s'] c True by (cases ok) auto
    have split: "?w = takeWhile (\<lambda>u. t - u \<ge> 1000) ?w @ window_tail t ?w"
      by (simp add: window_tail_def)
    have "length (window_tail t ?w) \<le> length ?w" by (simp add: window_tail_def length_dropWhile_le)
    then have len: "int (length (window s' k)) \<le> limit"
      using accept_room [OF assms(1), of s k t s'] c True Cons.prems(2) by (auto simp: w')
    have acc: "accepted_times check s (e # es) k = ?now @ accepted_times check s' es k"
      using c True by (simp add: e)
    show ?thesis
    proof (cases "filter (within from) (takeWhile (\<lambda>u. t - u \<ge> 1000) ?w) = []")
      case old: True
      have "filter (within from) ?w = filter (within from) (window_tail t ?w)"
        by (subst split) (simp add: old del: takeWhile_dropWhile_id)
      then show ?thesis
        using Cons.IH [of s'] Cons.prems(1) len by (simp add: acc w')
    next
      case old: False
      then obtain d where "d \<in> set (takeWhile (\<lambda>u. t - u \<ge> 1000) ?w)" "within from d"
        by (metis filter_False)
      then have "from + 1000 \<le> t" by (auto dest!: set_takeWhileD simp: within_def)
      then have "filter (within from) (accepted_times check s (e # es) k) = []"
        using later by (force simp: acc filter_empty_conv within_def)
      moreover have "int (length (filter (within from) ?w)) \<le> int (length ?w)" by simp
      note order_trans [OF this Cons.prems(2)]
      ultimately show ?thesis by simp
    qed
  qed
qed

lemma accepted_bounded:
  "in_i32 limit \<Longrightarrow> sorted (map snd es) \<Longrightarrow> window s k = [] \<Longrightarrow> 0 \<le> limit \<Longrightarrow>
     int (length (filter (within from) (accepted_times check s es k))) \<le> limit"
  using window_count [of es s k "from"] by simp

end

lemma consume_accept: "consume limit now w = (w', True) \<Longrightarrow> w' = window_tail now w @ [now]"
  by (auto simp: consume_def Let_def split: if_splits)

lemma consume_refuse: "consume limit now w = (w', False) \<Longrightarrow> w' = window_tail now w"
  by (auto simp: consume_def Let_def split: if_splits)

lemma consume_room:
  assumes "in_i32 limit" "consume limit now w = (w', True)" "int (length w) \<le> limit"
  shows "int (length (window_tail now w)) < limit"
proof -
  have "length (window_tail now w) \<le> length w" by (simp add: window_tail_def length_dropWhile_le)
  then have "to_i32 (int (length (window_tail now w))) = int (length (window_tail now w))"
    using assms(1,3) by (simp add: in_i32_def)
  then show ?thesis using assms(2) by (auto simp: consume_def Let_def split: if_splits)
qed

definition rate_window :: "rates \<Rightarrow> string \<Rightarrow> millis list" where
  "rate_window rates ip = (case rates ip of Some w \<Rightarrow> w | None \<Rightarrow> [])"

lemma CheckAndConsumeHttpQps_window:
  "CheckAndConsumeHttpQps cfg rates ip now = (rates', ok) \<longleftrightarrow>
     (\<exists>w. consume (gc_max_http_qps cfg) now (rate_window rates ip) = (w, ok) \<and> rates' = rates(ip \<mapsto> w))"
  by (auto simp: CheckAndConsumeHttpQps_def rate_window_def split: prod.splits)

interpretation http_limit: rate_limit "CheckAndConsumeHttpQps cfg" rate_window "gc_max_http_qps cfg" for cfg
proof (unfold_locales, goal_cases)
  case (1 s k now s')
  then show ?case by (auto simp: CheckAndConsumeHttpQps_window rate_window_def dest: consume_accept)
next
  case (2 s k now s')
  then show ?case by (auto simp: CheckAndConsumeHttpQps_window dest: consume_room)
next
  case (3 s k now s')
  then show ?case by (auto simp: CheckAndConsumeHttpQps_window rate_window_def dest: consume_refuse)
next
  case (4 s k now s' ok k')
  then show ?case by (auto simp: CheckAndConsumeHttpQps_window rate_window_def)
qed

text \<open>The messages of one web socket; there is one key.\<close>

interpretation ws_limit: rate_limit "\<lambda>w _ now. consume limit now w" "\<lambda>w (_ :: unit). w" limit for limit
  by unfold_locales (auto dest: consume_accept consume_refuse consume_room)

subsection \<open>Connections in any order\<close>

text \<open>The gateway with its open web sockets, by the number of the thread that serves them, and the
  addresses of those that ended by an exception. Every thread takes its steps in any order; a
  callback of the upstream connection is a step of its own.\<close>

type_synonym sockets = "nat \<rightharpoonup> string \<times> proxy"

inductive gateway_step ::
    "(nat \<Rightarrow> millis) \<Rightarrow> gateway \<times> sockets \<times> string list \<Rightarrow> gateway \<times> sockets \<times> string list \<Rightarrow> bool"
  for clk :: "nat \<Rightarrow> millis" where
  responded: "HandleGatewayConnection clk up g peer req = (g', Respond r) \<Longrightarrow>
     gateway_step clk (g, ws, ex) (g', ws, ex)"
| opened: "HandleGatewayConnection clk up g peer req = (g', Upgraded ip) \<Longrightarrow> ws c = None \<Longrightarrow>
     proxy_open resolve_err connect_err g' = (g'', x) \<Longrightarrow> gateway_step clk (g, ws, ex) (g'', ws(c \<mapsto> (ip, x)), ex)"
| not_opened: "HandleGatewayConnection clk up g peer req = (g', Upgraded ip) \<Longrightarrow>
     gateway_step clk (g, ws, ex) (connection_finished g' ip, ws, ex)"
| message: "ws c = Some (ip, x) \<Longrightarrow> px_open x \<Longrightarrow> proxy_payload clk ip payload write_err (g, x) = (g', x') \<Longrightarrow>
     gateway_step clk (g, ws, ex) (g', ws(c \<mapsto> (ip, x')), ex)"
| upstream_data: "ws c = Some (ip, x) \<Longrightarrow> px_upstream x \<Longrightarrow> proxy_chunk clk chunk (g, x) = (g', x') \<Longrightarrow>
     gateway_step clk (g, ws, ex) (g', ws(c \<mapsto> (ip, x')), ex)"
| flushed: "ws c = Some (ip, x) \<Longrightarrow> px_open x \<Longrightarrow>
     gateway_step clk (g, ws, ex) (g, ws(c \<mapsto> (ip, proxy_flush x)), ex)"
| idle: "ws c = Some (ip, x) \<Longrightarrow> px_open x \<Longrightarrow>
     gateway_step clk (g, ws, ex) (g, ws(c \<mapsto> (ip, proxy_idle x)), ex)"
| write_failed: "ws c = Some (ip, x) \<Longrightarrow> px_open x \<Longrightarrow> proxy_write_failed n (g, x) = (g', x') \<Longrightarrow>
     gateway_step clk (g, ws, ex) (g', ws(c \<mapsto> (ip, x')), ex)"
| peer_closed: "ws c = Some (ip, x) \<Longrightarrow> px_open x \<Longrightarrow> proxy_close (g, x) = (g', x') \<Longrightarrow>
     gateway_step clk (g, ws, ex) (g', ws(c \<mapsto> (ip, x')), ex)"
| finished: "ws c = Some (ip, x) \<Longrightarrow> \<not> px_open x \<Longrightarrow>
     gateway_step clk (g, ws, ex) (connection_finished g ip, ws(c := None), ex)"
| exception: "ws c = Some (ip, x) \<Longrightarrow> px_open x \<Longrightarrow>
     gateway_step clk (g, ws, ex) (upd_metrics RecordWsConnectionClosed g, ws(c := None), ip # ex)"
| metrics: "gateway_step clk (g, ws, ex) (MetricsTick show_rate clk g, ws, ex)"

definition slots_of :: "slots \<Rightarrow> string \<Rightarrow> int" where
  "slots_of slots ip = (case slots ip of Some n \<Rightarrow> n | None \<Rightarrow> 0)"

definition sockets_of :: "sockets \<Rightarrow> string \<Rightarrow> nat set" where
  "sockets_of ws ip = {c. \<exists>x. ws c = Some (ip, x)}"

text \<open>What a step may do to the limits: the configuration stays, and the slots change by \<open>d\<close> for
  one address.\<close>

definition same_slots :: "gateway \<Rightarrow> gateway \<Rightarrow> bool" where
  "same_slots g g' \<longleftrightarrow> gw_cfg g' = gw_cfg g \<and> slots_of (gw_slots g') = slots_of (gw_slots g)"

lemma same_slots_refl [simp]: "same_slots g g"
  by (simp add: same_slots_def)

lemma gw_now_frame: "gw_now clk g = (g', t) \<Longrightarrow>
    g' = g\<lparr>gw_ticks := gw_ticks g + 1\<rparr> \<and> t = clk (gw_ticks g)"
  by (simp add: gw_now_def)

lemma upd_metrics_sel [simp]:
  "gw_cfg (upd_metrics f g) = gw_cfg g" "gw_slots (upd_metrics f g) = gw_slots g"
  "gw_banned (upd_metrics f g) = gw_banned g" "gw_rates (upd_metrics f g) = gw_rates g"
  "gw_ticks (upd_metrics f g) = gw_ticks g" "gw_auth (upd_metrics f g) = gw_auth g"
  "gw_audit (upd_metrics f g) = gw_audit g"
  by (simp_all add: upd_metrics_def)

lemma LogRejectAudit_sel [simp]:
  "gw_cfg (LogRejectAudit reason ip req trace g) = gw_cfg g" "gw_slots (LogRejectAudit reason ip req trace g) = gw_slots g"
  "gw_banned (LogRejectAudit reason ip req trace g) = gw_banned g"
  "gw_rates (LogRejectAudit reason ip req trace g) = gw_rates g"
  "gw_ticks (LogRejectAudit reason ip req trace g) = gw_ticks g" "gw_auth (LogRejectAudit reason ip req trace g) = gw_auth g"
  "gw_audit (LogRejectAudit reason ip req trace g) = gw_audit g @
     [reject_line reason ip (hq_origin req) (ri_path (ParseRouteInfo (hq_target req))) (hq_user_agent req) trace]"
  by (simp_all add: LogRejectAudit_def)

text \<open>The answers of the checks in front of the routes.\<close>

definition refusal :: "connection_outcome \<Rightarrow> bool" where
  "refusal out \<longleftrightarrow> (case out of Respond r \<Rightarrow> hp_status r \<in> {403, 429} | Upgraded _ \<Rightarrow> False)"

lemma refusal_simps [simp]:
  "refusal (Respond r) \<longleftrightarrow> hp_status r = 403 \<or> hp_status r = 429" "\<not> refusal (Upgraded ip)"
  by (simp_all add: refusal_def)

lemma MakeJsonResponse_status [simp]: "hp_status (MakeJsonResponse status body req ao) = status"
  by (simp add: MakeJsonResponse_def)

lemma QueryUpstreamPacket_frame:
  "QueryUpstreamPacket clk up g pk t = (g', r) \<Longrightarrow>
     gw_cfg g' = gw_cfg g \<and> gw_slots g' = gw_slots g \<and> gw_audit g' = gw_audit g"
  by (auto simp: QueryUpstreamPacket_def gw_now_def split: option.splits)

lemma route_request_frame:
  assumes "route_request clk up g req ao trace = (g', r)"
  shows "gw_cfg g' = gw_cfg g \<and> gw_slots g' = gw_slots g \<and> gw_audit g' = gw_audit g \<and> \<not> refusal (Respond r)"
proof -
  define framed where "framed s \<longleftrightarrow> gw_cfg (fst s) = gw_cfg g \<and> gw_slots (fst s) = gw_slots g \<and>
    gw_audit (fst s) = gw_audit g \<and> \<not> refusal (Respond (snd s))" for s :: "gateway \<times> http_response"
  have "framed (HandleRefreshRequest clk up g req ao trace)"
    by (auto simp: framed_def HandleRefreshRequest_def Let_def split: option.split prod.split sum.split
        dest!: QueryUpstreamPacket_frame)
  moreover have "framed (HandleLoginTicketRequest clk g req ao trace)"
    by (auto simp: framed_def HandleLoginTicketRequest_def Let_def gw_now_def split: sum.splits prod.splits)
  ultimately have "framed (g', r)" using assms by (auto simp: route_request_def Let_def framed_def split: if_splits)
  then show ?thesis by (simp add: framed_def)
qed

lemma TryAcquire_slots:
  "TryAcquireWsSlot cfg slots ip = (slots', ok) \<Longrightarrow>
     slots_of slots' = (slots_of slots)(ip := slots_of slots ip + (if ok then 1 else 0)) \<and>
     (ok \<longrightarrow> slots_of slots ip < gc_max_connections cfg)"
  by (intro conjI ext) (auto simp: TryAcquireWsSlot_def slots_of_def Let_def split: if_splits option.splits)

lemma Release_slots:
  "1 \<le> slots_of slots ip \<Longrightarrow> slots_of (ReleaseWsSlot slots ip) = (slots_of slots)(ip := slots_of slots ip - 1)"
  by (rule ext) (auto simp: ReleaseWsSlot_def slots_of_def split: option.splits)

lemma limited_frame:
  "limited clk g req ip ao audit reason message trace = (g', r) \<Longrightarrow>
     gw_cfg g' = gw_cfg g \<and> gw_slots g' = gw_slots g \<and> gw_audit g' = gw_audit (LogRejectAudit audit ip req trace g) \<and>
     (\<exists>resp. r = Respond resp \<and> hp_status resp = 429)"
  by (auto simp: limited_def gw_now_def)

lemma BuildGatewayTraceId_frame:
  "BuildGatewayTraceId clk g = (g', t) \<Longrightarrow>
     g' = g\<lparr>gw_ticks := gw_ticks g + 1, gw_trace := gw_trace g + 1\<rparr>"
  by (auto simp: BuildGatewayTraceId_def gw_now_def)

text \<open>The states before and after the check of the ban, and the cases of a connection.\<close>

definition traced :: "gateway \<Rightarrow> gateway" where
  "traced g = g\<lparr>gw_ticks := gw_ticks g + 1, gw_trace := gw_trace g + 1\<rparr>"

definition checked :: "gateway \<Rightarrow> bans \<Rightarrow> gateway" where
  "checked g banned = (traced g)\<lparr>gw_ticks := gw_ticks g + 2, gw_banned := banned\<rparr>"

lemma checked_sel [simp]:
  "gw_cfg (checked g b) = gw_cfg g" "gw_slots (checked g b) = gw_slots g" "gw_banned (checked g b) = b"
  "gw_rates (checked g b) = gw_rates g" "gw_ticks (checked g b) = gw_ticks g + 2" "gw_auth (checked g b) = gw_auth g"
  "gw_audit (checked g b) = gw_audit g"
  by (simp_all add: checked_def traced_def)

definition request_path :: "http_request \<Rightarrow> string" where
  "request_path req = ri_path (ParseRouteInfo (hq_target req))"

definition trace_of :: "(nat \<Rightarrow> millis) \<Rightarrow> gateway \<Rightarrow> string" where
  "trace_of clk g = ''gw-'' @ int_str (clk (gw_ticks g)) @ ''-'' @ nat_str (unat (gw_trace g))"

text \<open>The audit log after a connection: one line more when it is refused.\<close>

definition audited :: "gateway \<Rightarrow> gateway \<Rightarrow> string \<Rightarrow> http_request \<Rightarrow> string \<Rightarrow> connection_outcome \<Rightarrow> bool" where
  "audited g g' ip req trace out \<longleftrightarrow>
     (\<exists>reason\<in>{''origin_not_allowed'', ''ip_banned'', ''ws_origin_invalid'', ''ws_conn_limit'', ''http_qps_limited''}.
        gw_audit g' = gw_audit g @ (if refusal out
          then [reject_line reason ip (hq_origin req) (request_path req) (hq_user_agent req) trace] else []))"

definition wants_socket :: "http_request \<Rightarrow> bool" where
  "wants_socket req \<longleftrightarrow> hq_method req \<noteq> Options \<and> hq_upgrade req \<and> request_path req = ''/ws/game''"

definition origin_passes :: "gateway \<Rightarrow> http_request \<Rightarrow> bool" where
  "origin_passes g req \<longleftrightarrow> hq_origin req = [] \<or> IsOriginAllowed (gw_cfg g) (hq_origin req)"

definition ban_check :: "(nat \<Rightarrow> millis) \<Rightarrow> gateway \<Rightarrow> string \<Rightarrow> http_request \<Rightarrow> bans \<times> bool" where
  "ban_check clk g peer req =
     IsIpBanned (gw_banned g) (client_address (gw_cfg g) req peer) (clk (gw_ticks g + 1))"

lemma HandleGatewayConnection_cases:
  assumes "HandleGatewayConnection clk up g peer req = (g', out)"
  obtains
    (origin) r where "\<not> origin_passes g req" "out = Respond r" "hp_status r = 403"
      "g' = LogRejectAudit ''origin_not_allowed'' (client_address (gw_cfg g) req peer) req (trace_of clk g) (traced g)"
  | (banned) banned r where "origin_passes g req" "ban_check clk g peer req = (banned, True)" "out = Respond r"
      "hp_status r = 429" "g' = LogRejectAudit ''ip_banned'' (client_address (gw_cfg g) req peer) req (trace_of clk g)
         (upd_metrics RecordRateLimited (checked g banned))"
  | (options) banned r where "origin_passes g req" "ban_check clk g peer req = (banned, False)"
      "hq_method req = Options" "g' = checked g banned" "out = Respond r" "hp_status r = 204"
  | (socket) banned ao where "origin_passes g req" "ban_check clk g peer req = (banned, False)" "wants_socket req"
      "open_socket clk (checked g banned) req (client_address (gw_cfg g) req peer) ao (trace_of clk g) = (g', out)"
  | (http) banned ao where "origin_passes g req" "ban_check clk g peer req = (banned, False)"
      "\<not> wants_socket req" "hq_method req \<noteq> Options"
      "serve_http clk up (checked g banned) req (client_address (gw_cfg g) req peer) ao (trace_of clk g) = (g', out)"
proof -
  let ?ip = "client_address (gw_cfg g) req peer"
  let ?ao = "if IsOriginAllowed (gw_cfg g) (hq_origin req) then request_origin (hq_origin req) else []"
  let ?trace = "trace_of clk g"
  have T: "BuildGatewayTraceId clk g = (traced g, ?trace)"
    by (simp add: BuildGatewayTraceId_def gw_now_def traced_def trace_of_def)
  obtain banned b where B: "ban_check clk g peer req = (banned, b)" by fastforce
  have N: "gw_now clk (traced g) = ((traced g)\<lparr>gw_ticks := gw_ticks g + 2\<rparr>, clk (gw_ticks g + 1))"
    by (simp add: gw_now_def traced_def)
  have I: "IsIpBanned (gw_banned g) ?ip (clk (gw_ticks g + 1)) = (banned, b)" using B by (simp add: ban_check_def)
  note H = assms [unfolded HandleGatewayConnection_def Let_def T prod.case N, folded request_path_def]
  show thesis
  proof (cases "origin_passes g req")
    case False
    then show thesis using H by (intro origin) (auto simp: MakeJsonResponse_def rejected_def origin_passes_def)
  next
    case o: True
    then have o': "(hq_origin req \<noteq> [] \<and> \<not> IsOriginAllowed (gw_cfg g) (hq_origin req)) = False"
      by (auto simp: origin_passes_def)
    show thesis
    proof (cases b)
      case True
      then obtain r where "out = Respond r" "hp_status r = 429"
        "g' = LogRejectAudit ''ip_banned'' ?ip req ?trace (upd_metrics RecordRateLimited (checked g banned))"
        using H o I by (auto simp: MakeJsonResponse_def origin_passes_def checked_def traced_def)
      then show thesis using True o B by (intro banned [of banned r]) auto
    next
      case False
      then have b: "b = False" by simp
      have "gw_banned (traced g) = gw_banned g" by (simp add: traced_def)
      then have H1: "(if hq_method req = Options
          then (checked g banned, Respond (MakeJsonResponse 204 ''{}'' req ?ao))
          else if hq_upgrade req \<and> request_path req = ''/ws/game''
          then open_socket clk (checked g banned) req ?ip ?ao ?trace
          else serve_http clk up (checked g banned) req ?ip ?ao ?trace)
          = (g', out)"
        using H I b o' by (simp add: checked_def cong: if_cong)
      show thesis
      proof (cases "hq_method req = Options")
        case True
        then obtain r where "g' = checked g banned" "out = Respond r" "hp_status r = 204"
          using H1 o by (auto simp: MakeJsonResponse_def origin_passes_def)
        then show thesis using True o B b by (intro options [of banned r]) auto
      next
        case m: False
        show thesis
        proof (cases "wants_socket req")
          case True
          then have "open_socket clk (checked g banned) req ?ip ?ao ?trace = (g', out)"
            using H1 m by (simp add: wants_socket_def)
          then show thesis using True o B b by (intro socket [of banned ?ao]) auto
        next
          case False
          then have "serve_http clk up (checked g banned) req ?ip ?ao ?trace = (g', out)"
            using H1 m by (auto simp: wants_socket_def)
          then show thesis using False m o B b by (intro http [of banned ?ao]) auto
        qed
      qed
    qed
  qed
qed

lemma open_socket_cases:
  assumes "open_socket clk g req ip ao trace = (g', out)"
  obtains
    (origin) r where "\<not> IsOriginAllowed (gw_cfg g) (hq_origin req)" "out = Respond r" "hp_status r = 403"
      "g' = LogRejectAudit ''ws_origin_invalid'' ip req trace g"
  | (full) slots r where "IsOriginAllowed (gw_cfg g) (hq_origin req)"
      "TryAcquireWsSlot (gw_cfg g) (gw_slots g) ip = (slots, False)" "out = Respond r" "hp_status r = 429"
      "gw_cfg g' = gw_cfg g" "gw_slots g' = slots" "gw_audit g' = gw_audit (LogRejectAudit ''ws_conn_limit'' ip req trace g)"
  | (slot) slots where "IsOriginAllowed (gw_cfg g) (hq_origin req)"
      "TryAcquireWsSlot (gw_cfg g) (gw_slots g) ip = (slots, True)" "g' = g\<lparr>gw_slots := slots\<rparr>" "out = Upgraded ip"
proof -
  obtain slots b where S: "TryAcquireWsSlot (gw_cfg g) (gw_slots g) ip = (slots, b)" by fastforce
  then show thesis
    using assms
    by (cases b; cases "IsOriginAllowed (gw_cfg g) (hq_origin req)")
      (auto simp: open_socket_def rejected_def limited_def gw_now_def MakeJsonResponse_def
        intro: origin full slot)
qed

lemma serve_http_frame:
  assumes "serve_http clk up g req ip ao trace = (g', out)"
  shows "gw_cfg g' = gw_cfg g \<and> gw_slots g' = gw_slots g \<and> (\<exists>r. out = Respond r) \<and>
    gw_audit g' = (if refusal out then gw_audit (LogRejectAudit ''http_qps_limited'' ip req trace g) else gw_audit g)"
  using assms by (auto simp: serve_http_def gw_now_def split: prod.splits bool.splits
      dest!: limited_frame route_request_frame)

lemma connection_audited:
  assumes "HandleGatewayConnection clk up g peer req = (g', out)"
  shows "audited g g' (client_address (gw_cfg g) req peer) req (trace_of clk g) out"
  using assms
proof (cases rule: HandleGatewayConnection_cases)
  case (socket banned ao)
  show ?thesis
    using socket(4) by (cases rule: open_socket_cases) (simp_all add: audited_def request_path_def ex_disj_distrib)
qed (auto simp: audited_def traced_def request_path_def ex_disj_distrib dest!: serve_http_frame)

lemma upgraded_frame:
  assumes "HandleGatewayConnection clk up g peer req = (g', Upgraded ip)"
  shows "gw_cfg g' = gw_cfg g"
    "slots_of (gw_slots g') = (slots_of (gw_slots g))(ip := slots_of (gw_slots g) ip + 1)"
    "slots_of (gw_slots g) ip < gc_max_connections (gw_cfg g)"
  using assms
  by (auto elim!: HandleGatewayConnection_cases open_socket_cases dest!: serve_http_frame TryAcquire_slots)

lemma responded_frame:
  assumes "HandleGatewayConnection clk up g peer req = (g', Respond r)"
  shows "same_slots g g'"
  using assms
  by (auto simp: same_slots_def traced_def
      elim!: HandleGatewayConnection_cases open_socket_cases dest!: serve_http_frame TryAcquire_slots)

lemma proxy_packet_frame: "proxy_packet clk pk (g, x) = (g', x') \<Longrightarrow> same_slots g g'"
  by (auto simp: proxy_packet_def Let_def gw_now_def same_slots_def split: option.splits)

lemma proxy_chunk_frame: "proxy_chunk clk chunk (g, x) = (g', x') \<Longrightarrow> same_slots g g'"
proof -
  have "foldl (\<lambda>s pk. proxy_packet clk pk s) (g, y) pks = (g', x') \<Longrightarrow> same_slots g g'" for y pks
  proof (induction pks arbitrary: g y)
    case (Cons pk pks)
    obtain h z where h: "proxy_packet clk pk (g, y) = (h, z)" by fastforce
    then have "same_slots h g'" using Cons by simp
    then show ?case using proxy_packet_frame [OF h] by (simp add: same_slots_def)
  qed simp
  then show "proxy_chunk clk chunk (g, x) = (g', x') \<Longrightarrow> same_slots g g'"
    by (auto simp: proxy_chunk_def split: prod.splits)
qed

lemma proxy_close_frame: "proxy_close (g, x) = (g', x') \<Longrightarrow> same_slots g g'"
  by (auto simp: proxy_close_def same_slots_def)

lemma proxy_payload_frame:
  assumes "proxy_payload clk ip payload e (g, x) = (g', x')"
  shows "same_slots g g'"
  using assms
  by (auto simp: proxy_payload_def Let_def gw_now_def same_slots_def proxy_close_def
      split: prod.splits bool.splits sum.splits option.splits if_splits dest!: BuildGatewayTraceId_frame)

text \<open>The counter of an address counts its open sockets and those that ended by an exception, and
  is within the limit.\<close>

definition counted :: "gateway \<times> sockets \<times> string list \<Rightarrow> bool" where
  "counted s \<longleftrightarrow> (case s of (g, ws, ex) \<Rightarrow>
     finite (dom ws) \<and>
     (\<forall>ip. slots_of (gw_slots g) ip = int (card (sockets_of ws ip)) + int (count_list ex ip)) \<and>
     (\<forall>ip. int (card (sockets_of ws ip)) + int (count_list ex ip) \<le> max 0 (gc_max_connections (gw_cfg g))))"

lemma sockets_of_finite: "finite (dom ws) \<Longrightarrow> finite (sockets_of ws ip)"
  by (rule finite_subset [of _ "dom ws"]) (auto simp: sockets_of_def)

lemma sockets_of_open:
  "ws c = None \<Longrightarrow> sockets_of (ws(c \<mapsto> (ip, x))) ip' = (if ip' = ip then insert c (sockets_of ws ip) else sockets_of ws ip')"
  by (auto simp: sockets_of_def)

lemma sockets_of_change: "ws c = Some (ip, x) \<Longrightarrow> sockets_of (ws(c \<mapsto> (ip, x'))) = sockets_of ws"
  by (auto simp: sockets_of_def fun_eq_iff split: if_splits)

lemma sockets_of_close:
  "ws c = Some (ip, x) \<Longrightarrow> sockets_of (ws(c := None)) ip' = (if ip' = ip then sockets_of ws ip - {c} else sockets_of ws ip')"
  by (auto simp: sockets_of_def)

lemma counted_same: "counted (g, ws, ex) \<Longrightarrow> same_slots g g' \<Longrightarrow> counted (g', ws, ex)"
  by (simp add: counted_def same_slots_def)

lemma counted_change:
  "counted (g, ws, ex) \<Longrightarrow> ws c = Some (ip, x) \<Longrightarrow> counted (g, ws(c \<mapsto> (ip, x')), ex)"
  by (simp add: counted_def sockets_of_change)

lemma counted_socket: "counted (g, ws, ex) \<Longrightarrow> ws c = Some (ip, x) \<Longrightarrow> 1 \<le> card (sockets_of ws ip)"
  by (auto simp: counted_def Suc_le_eq card_gt_0_iff sockets_of_finite sockets_of_def)
    (metis (mono_tags, lifting) sockets_of_def sockets_of_finite)

lemma counted_open:
  assumes "counted (g, ws, ex)" "ws c = None" "gw_cfg g' = gw_cfg g"
    "slots_of (gw_slots g') = (slots_of (gw_slots g))(ip := slots_of (gw_slots g) ip + 1)"
    "slots_of (gw_slots g) ip < gc_max_connections (gw_cfg g)"
  shows "counted (g', ws(c \<mapsto> (ip, x)), ex)"
proof -
  have "c \<notin> sockets_of ws ip" using assms(2) by (simp add: sockets_of_def)
  moreover have "finite (sockets_of ws ip)" using assms(1) by (simp add: counted_def sockets_of_finite)
  ultimately show ?thesis using assms by (auto simp: counted_def sockets_of_open)
qed

lemma counted_release:
  assumes "counted (g, ws, ex)" "ws c = Some (ip, x)"
  shows "counted (connection_finished g ip, ws(c := None), ex)"
proof -
  have f: "finite (sockets_of ws ip)" using assms(1) by (simp add: counted_def sockets_of_finite)
  have c: "c \<in> sockets_of ws ip" using assms(2) by (simp add: sockets_of_def)
  note one = counted_socket [OF assms]
  then have "1 \<le> slots_of (gw_slots g) ip" using assms(1) by (auto simp: counted_def)
  note slots = Release_slots [OF this]
  have "int (card (sockets_of ws ip)) + int (count_list ex ip) \<le> max 0 (gc_max_connections (gw_cfg g))"
    using assms(1) by (simp add: counted_def)
  then have "int (card (sockets_of ws ip)) - 1 + int (count_list ex ip) \<le> max 0 (gc_max_connections (gw_cfg g))"
    by linarith
  then show ?thesis
    using assms(1) one f c
    by (auto simp: counted_def connection_finished_def slots sockets_of_close [where ws = ws and c = c and ip = ip and x = x, OF assms(2)] of_nat_diff)
qed

lemma counted_exception:
  assumes "counted (g, ws, ex)" "ws c = Some (ip, x)"
  shows "counted (g, ws(c := None), ip # ex)"
proof -
  have f: "finite (sockets_of ws ip)" using assms(1) by (simp add: counted_def sockets_of_finite)
  have c: "c \<in> sockets_of ws ip" using assms(2) by (simp add: sockets_of_def)
  show ?thesis
    using assms(1) counted_socket [OF assms] f c
    by (auto simp: counted_def sockets_of_close [where ws = ws and c = c and ip = ip and x = x, OF assms(2)] of_nat_diff)
qed

lemma counted_bounce:
  assumes "counted (g, ws, ex)" "gw_cfg g' = gw_cfg g"
    "slots_of (gw_slots g') = (slots_of (gw_slots g))(ip := slots_of (gw_slots g) ip + 1)"
  shows "counted (connection_finished g' ip, ws, ex)"
proof -
  have "0 \<le> slots_of (gw_slots g) ip" using assms(1) by (auto simp: counted_def)
  then have "slots_of (ReleaseWsSlot (gw_slots g') ip) = slots_of (gw_slots g)"
    using Release_slots [of "gw_slots g'" ip] assms(3) by simp
  then show ?thesis using assms(1,2) by (simp add: counted_def connection_finished_def)
qed

lemma gateway_step_counted: "gateway_step clk s s' \<Longrightarrow> counted s \<Longrightarrow> counted s'"
proof (induction rule: gateway_step.induct)
  case (opened up g peer req g' ip ws c re ce g'' x ex)
  have "same_slots g' g''" using opened(3) by (auto simp: proxy_open_def Let_def same_slots_def split: prod.splits)
  with counted_open [OF opened(4,2) upgraded_frame [OF opened(1)]] show ?case by (blast intro: counted_same)
next
  case (metrics g ws ex sr)
  have "same_slots g (MetricsTick sr clk g)" by (simp add: MetricsTick_def gw_now_def same_slots_def)
  with metrics show ?case by (rule counted_same)
next
  case (exception ws c ip x g ex)
  have "same_slots g (upd_metrics RecordWsConnectionClosed g)" by (simp add: same_slots_def)
  with counted_exception [OF exception(3,1)] show ?case by (rule counted_same)
next
  case (write_failed ws c ip x n g g' x' ex)
  then have "same_slots g g'" by (auto simp: proxy_write_failed_def same_slots_def)
  with write_failed show ?case by (blast intro: counted_change counted_same)
qed (blast intro: counted_same counted_change counted_bounce counted_release responded_frame proxy_payload_frame
    proxy_chunk_frame proxy_close_frame upgraded_frame)+

subsection \<open>The fields the gateway adds\<close>

lemma getlines_acc_split: "\<exists>xs. \<forall>s. getlines_acc d acc (b @ d # s) = xs @ getlines_acc d [] s"
proof (induction b arbitrary: acc)
  case (Cons c b)
  show ?case
  proof (cases "c = d")
    case True
    obtain xs where "\<forall>s. getlines_acc d [] (b @ d # s) = xs @ getlines_acc d [] s" using Cons by blast
    then show ?thesis using True by (intro exI [of _ "acc # xs"]) simp
  next
    case False
    obtain xs where "\<forall>s. getlines_acc d (acc @ [c]) (b @ d # s) = xs @ getlines_acc d [] s" using Cons by blast
    then show ?thesis using False by (intro exI [of _ xs]) simp
  qed
qed (auto intro: exI [of _ "[acc]"])

lemma kv_field_line: "clean_field f \<Longrightarrow> getlines_acc CHR '';'' [] (kv_field f) = [kv_field f]"
  by (subst getlines_acc_last) (auto simp: clean_field_def kv_field_def)

text \<open>A field appended to a body is read back, whatever the body holds.\<close>

lemma ParseKvBody_append:
  assumes "clean_field f"
  shows "ParseKvBody (b @ CHR '';'' # kv_field f) (fst f) = Some (snd f)" "ParseKvBody (kv_field f) (fst f) = Some (snd f)"
proof -
  obtain xs where "\<forall>s. getlines_acc CHR '';'' [] (b @ CHR '';'' # s) = xs @ getlines_acc CHR '';'' [] s"
    using getlines_acc_split by blast
  then show "ParseKvBody (b @ CHR '';'' # kv_field f) (fst f) = Some (snd f)"
    using assms by (simp add: ParseKvBody_def getlines_def kv_field_line add_item_field)
  show "ParseKvBody (kv_field f) (fst f) = Some (snd f)"
    using assms by (simp add: ParseKvBody_def getlines_def kv_field_line add_item_field)
qed

lemma trace_clean:
  assumes "BuildGatewayTraceId clk g = (g', trace)"
  shows "clean_field (''gateway_trace_id'', trace)"
proof -
  have "CHR '';'' \<notin> set (int_str i)" for i by (simp add: int_str_free)
  moreover have "CHR '';'' \<notin> set (nat_str n)" for n
    using nat_str_digits [of n] by (auto simp: list_all_iff is_digit_def)
  ultimately show ?thesis using assms by (auto simp: BuildGatewayTraceId_def gw_now_def clean_field_def)
qed

lemma upstream_body_trace:
  assumes "clean_field (''gateway_trace_id'', trace)"
  shows "ParseKvBody (upstream_body env trace) ''gateway_trace_id'' = Some trace"
proof -
  have f: "''gateway_trace_id='' @ trace = kv_field (''gateway_trace_id'', trace)" by (simp add: kv_field_def)
  have "upstream_body env trace = kv_field (''gateway_trace_id'', trace) \<or>
      (\<exists>b. upstream_body env trace = b @ CHR '';'' # kv_field (''gateway_trace_id'', trace))"
    unfolding upstream_body_def Let_def f by simp
  then show ?thesis using ParseKvBody_append [OF assms] by auto
qed

subsection \<open>Properties\<close>

text \<open>C18: whatever requests and messages arrive and in whatever order the threads of the gateway run,
  the counter of an address counts exactly its open web sockets and those whose thread ended by an
  exception, and together these never exceed the configured limit.\<close>

theorem web_sockets_bounded:
  assumes "(gateway_step clk)\<^sup>*\<^sup>* (g0, Map.empty, []) (g, ws, ex)" "gw_slots g0 = Map.empty"
  shows "slots_of (gw_slots g) ip = int (card (sockets_of ws ip)) + int (count_list ex ip) \<and>
    int (card (sockets_of ws ip)) + int (count_list ex ip) \<le> max 0 (gc_max_connections (gw_cfg g))"
proof -
  have "counted (g0, Map.empty, [])" by (simp add: counted_def slots_of_def sockets_of_def assms(2))
  with assms(1) have "counted (g, ws, ex)"
    by (induction rule: rtranclp_induct) (auto intro: gateway_step_counted)
  then show ?thesis by (simp add: counted_def)
qed

text \<open>C17: a web socket is opened exactly for a request on its path with an allowed origin, from an
  address that is not banned and has a slot left. A request of another origin is refused with 403
  and one of a banned address with 429, and neither changes a limit. Every refusal, and nothing else,
  leaves a line in the audit log: one of the five reasons, the address, the origin, the path, the
  browser and the trace identifier of the request.\<close>

theorem socket_admission:
  assumes "HandleGatewayConnection clk up g peer req = (g', out)" "ip = client_address (gw_cfg g) req peer"
    "banned = (\<exists>until. gw_banned g ip = Some until \<and> clk (gw_ticks g + 1) < until)"
  shows "((\<exists>ip'. out = Upgraded ip') \<longleftrightarrow>
      IsOriginAllowed (gw_cfg g) (hq_origin req) \<and> \<not> banned \<and> wants_socket req \<and>
      slots_of (gw_slots g) ip < gc_max_connections (gw_cfg g)) \<and>
    (hq_origin req \<noteq> [] \<and> \<not> IsOriginAllowed (gw_cfg g) (hq_origin req) \<longrightarrow>
      (\<exists>r. out = Respond r \<and> hp_status r = 403) \<and>
      gw_banned g' = gw_banned g \<and> gw_rates g' = gw_rates g \<and> gw_slots g' = gw_slots g) \<and>
    ((hq_origin req = [] \<or> IsOriginAllowed (gw_cfg g) (hq_origin req)) \<and> banned \<longrightarrow>
      (\<exists>r. out = Respond r \<and> hp_status r = 429) \<and>
      gw_banned g' = gw_banned g \<and> gw_rates g' = gw_rates g \<and> gw_slots g' = gw_slots g) \<and>
    audited g g' ip req (trace_of clk g) out"
proof -
  have log: "audited g g' ip req (trace_of clk g) out" using connection_audited [OF assms(1)] by (simp add: assms(2))
  have origin: "\<not> IsOriginAllowed cfg []" for cfg by (simp add: IsOriginAllowed_def)
  have ban: "ban_check clk g peer req = (b, x) \<Longrightarrow> banned = x \<and> (x \<longrightarrow> b = gw_banned g)" for b x
    using assms(2,3) by (auto simp: ban_check_def IsIpBanned_def split: option.splits if_splits)
  show ?thesis
    using assms(1)
  proof (cases rule: HandleGatewayConnection_cases)
    case (origin r)
    then show ?thesis using log by (auto simp: origin_passes_def traced_def)
  next
    case (banned b r)
    then show ?thesis using log ban [OF banned(2)] by (auto simp: origin_passes_def)
  next
    case (options b r)
    then show ?thesis using log ban [OF options(2)] by (auto simp: origin_passes_def wants_socket_def)
  next
    case (http b ao)
    then show ?thesis using log ban [OF http(2)] serve_http_frame [OF http(5)] by (auto simp: origin_passes_def)
  next
    case (socket b ao)
    show ?thesis
      using socket(4)
      by (cases rule: open_socket_cases)
        (use log socket(1-3) ban [OF socket(2)] in \<open>auto simp: origin_passes_def origin assms(2) TryAcquireWsSlot_def slots_of_def Let_def
          split: if_splits option.splits\<close>)
  qed
qed


definition client_packet :: "gateway_envelope \<Rightarrow> string \<Rightarrow> packet" where
  "client_packet env trace = \<lparr>pk_msg_id = ge_msg_id env, pk_seq_id = ge_seq_id env, pk_player_id = ge_player env,
     pk_body = upstream_body env trace\<rparr>"

lemma proxy_payload_sent:
  assumes "proxy_payload clk ip payload None (g, x) = (g', x')" "ParseEnvelopeJson payload = Inr env"
    "px_sent x' \<noteq> px_sent x"
  shows "\<exists>trace now. px_sent x' = px_sent x @ [client_packet env trace] \<and>
    px_pending x' (ge_seq_id env) = Some \<lparr>pt_send = now, pt_h5 = ge_h5 env, pt_gateway = trace\<rparr> \<and>
    clean_field (''gateway_trace_id'', trace) \<and> trace \<noteq> []"
proof -
  have trace: "BuildGatewayTraceId clk h = (h', t) \<Longrightarrow> clean_field (''gateway_trace_id'', t) \<and> t \<noteq> []" for h h' t
    using trace_clean [of clk h h' t] by (auto simp: BuildGatewayTraceId_def gw_now_def)
  show ?thesis
    using assms
    by (auto simp: proxy_payload_def Let_def gw_now_def proxy_close_def proxy_error_def push_outbound_def
        client_packet_def split: prod.splits bool.splits option.splits if_splits dest!: trace)
qed

text \<open>The value of a field that is present and not empty, or else a default.\<close>

definition given :: "string option \<Rightarrow> string \<Rightarrow> string" where
  "given v d = (case v of Some (c # cs) \<Rightarrow> c # cs | _ \<Rightarrow> d)"

lemma given_eq: "(if (case v of None \<Rightarrow> [] | Some w \<Rightarrow> w) = [] then d else (case v of None \<Rightarrow> [] | Some w \<Rightarrow> w)) = given v d"
  by (auto simp: given_def split: option.split list.split)

definition answer_envelope :: "packet \<Rightarrow> string \<Rightarrow> string \<Rightarrow> gateway_envelope" where
  "answer_envelope r h5 trace =
     \<lparr>ge_msg_id = pk_msg_id r, ge_seq_id = pk_seq_id r, ge_player = pk_player_id r, ge_body = pk_body r,
      ge_h5 = given (ParseKvBody (pk_body r) ''h5_request_id'') h5,
      ge_gateway = given (ParseKvBody (pk_body r) ''gateway_trace_id'') trace,
      ge_server = (case ParseKvBody (pk_body r) ''server_trace_id'' of None \<Rightarrow> [] | Some w \<Rightarrow> w)\<rparr>"

lemma proxy_packet_answers:
  assumes "proxy_packet clk r (g, x) = (g', x')" "px_pending x (pk_seq_id r) = Some t"
  shows "px_outbound x' = px_outbound x @ [BuildEnvelopeJson (answer_envelope r (pt_h5 t) (pt_gateway t))]"
    "px_pending x' (pk_seq_id r) = None"
proof -
  have x': "x' = push_outbound (BuildEnvelopeJson (answer_envelope r (pt_h5 t) (pt_gateway t)))
      (x\<lparr>px_pending := (px_pending x)(pk_seq_id r := None)\<rparr>)"
    using assms by (simp add: proxy_packet_def Let_def gw_now_def answer_envelope_def given_eq cong: if_cong)
  show "px_outbound x' = px_outbound x @ [BuildEnvelopeJson (answer_envelope r (pt_h5 t) (pt_gateway t))]"
    "px_pending x' (pk_seq_id r) = None" by (simp_all add: x' push_outbound_def)
qed



subsection \<open>Concrete runs\<close>

definition demo_gateway :: gateway where
  "demo_gateway =
     \<lparr>gw_cfg = default_gateway_config\<lparr>gc_origins := [''http://play'']\<rparr>, gw_auth = default_auth,
      gw_metrics = default_gateway_metrics, gw_slots = Map.empty, gw_rates = Map.empty, gw_banned = Map.empty,
      gw_ticks = 0, gw_trace = 1, gw_http_seq = 100000, gw_running = True, gw_audit = []\<rparr>"

definition demo_clk :: "nat \<Rightarrow> millis" where
  "demo_clk i = 1000 + int i"

definition demo_http :: "http_verb \<Rightarrow> string \<Rightarrow> bool \<Rightarrow> string \<Rightarrow> http_request" where
  "demo_http verb target upgrade body =
     \<lparr>hq_method = verb, hq_target = target, hq_version = 11, hq_keep_alive = False, hq_upgrade = upgrade,
      hq_origin = ''http://play/'', hq_forwarded = [], hq_user_agent = ''firefox'', hq_authorization = None,
      hq_dev_key = Some (gc_dev_key default_gateway_config), hq_body = body\<rparr>"

definition demo_upstream :: upstream where
  "demo_upstream = \<lparr>up_resolve = None, up_connect = None, up_write = None, up_turns = []\<rparr>"

lemma demo_origin: "IsOriginAllowed (gw_cfg demo_gateway) ''http://play/''"
  by (simp add: IsOriginAllowed_def request_origin_def demo_gateway_def blank_def Let_def)

lemma demo_upgrade:
  "\<exists>g'. HandleGatewayConnection demo_clk demo_upstream demo_gateway ''10.0.0.1'' (demo_http Get ''/ws/game'' True []) =
     (g', Upgraded ''10.0.0.1'')"
proof -
  show ?thesis
    by (simp add: HandleGatewayConnection_def Let_def BuildGatewayTraceId_def gw_now_def demo_gateway_def demo_http_def
        IsOriginAllowed_def request_origin_def blank_def
        client_address_def ClientIpFromXForwardedFor_def ParseRouteInfo_def IsIpBanned_def open_socket_def
        TryAcquireWsSlot_def default_gateway_config_def)
qed

theorem web_sockets_bounded_witness:
  "\<exists>g ws. (gateway_step demo_clk)\<^sup>*\<^sup>* (demo_gateway, Map.empty, []) (g, ws, []) \<and>
     sockets_of ws ''10.0.0.1'' = {0} \<and> slots_of (gw_slots g) ''10.0.0.1'' = 1"
proof -
  obtain g' where H: "HandleGatewayConnection demo_clk demo_upstream demo_gateway ''10.0.0.1''
      (demo_http Get ''/ws/game'' True []) = (g', Upgraded ''10.0.0.1'')"
    using demo_upgrade by blast
  obtain g'' x where P: "proxy_open None None g' = (g'', x)" by fastforce
  let ?ws = "[0 \<mapsto> (''10.0.0.1'', x)] :: sockets"
  have run: "(gateway_step demo_clk)\<^sup>*\<^sup>* (demo_gateway, Map.empty, []) (g'', ?ws, [])"
    by (rule r_into_rtranclp) (rule gateway_step.opened [OF H _ P], simp)
  have s: "sockets_of ?ws ''10.0.0.1'' = {0}" by (auto simp: sockets_of_def)
  have "gw_slots demo_gateway = Map.empty" by (simp add: demo_gateway_def)
  from web_sockets_bounded [OF run this, of "''10.0.0.1''"] show ?thesis using run s by auto
qed

theorem socket_admission_witness:
  "\<exists>g' ip. HandleGatewayConnection demo_clk demo_upstream demo_gateway ''10.0.0.1'' (demo_http Get ''/ws/game'' True []) =
     (g', Upgraded ip)"
proof -
  let ?req = "demo_http Get ''/ws/game'' True []"
  obtain g' out where H: "HandleGatewayConnection demo_clk demo_upstream demo_gateway ''10.0.0.1'' ?req = (g', out)"
    by fastforce
  have sel: "hq_origin ?req = ''http://play/''" "wants_socket ?req"
    "client_address (gw_cfg demo_gateway) ?req ''10.0.0.1'' = ''10.0.0.1''"
    by (simp_all add: demo_http_def wants_socket_def request_path_def ParseRouteInfo_def client_address_def
        ClientIpFromXForwardedFor_def Let_def)
  have g: "gw_banned demo_gateway = Map.empty" "gw_slots demo_gateway = Map.empty"
    "gc_max_connections (gw_cfg demo_gateway) = 64"
    by (simp_all add: demo_gateway_def default_gateway_config_def)
  show ?thesis
    using socket_admission [OF H refl refl] demo_origin H unfolding sel g by (auto simp: sel slots_of_def)
qed


definition demo_envelope :: gateway_envelope where
  "demo_envelope = \<lparr>ge_msg_id = 7, ge_seq_id = 7, ge_player = 12, ge_body = ''gateway_trace_id=mine'',
     ge_h5 = ''h1'', ge_gateway = [], ge_server = []\<rparr>"

definition demo_answer :: packet where
  "demo_answer = \<lparr>pk_msg_id = 8, pk_seq_id = 7, pk_player_id = 12, pk_body = ''code=0''\<rparr>"

definition demo_proxy :: proxy where
  "demo_proxy = snd (proxy_open None None demo_gateway)"

lemma demo_sent:
  "px_sent (snd (proxy_payload demo_clk ''10.0.0.1'' (BuildEnvelopeJson demo_envelope) None (demo_gateway, demo_proxy))) =
     [client_packet demo_envelope ''gw-1002-1'']"
proof -
  have E: "ParseEnvelopeJson (BuildEnvelopeJson demo_envelope) = Inr demo_envelope"
    by (rule envelope_reads_back) (simp add: demo_envelope_def in_i64_def)
  have start: "px_sent demo_proxy = []" "px_window demo_proxy = []" "px_upstream demo_proxy"
    by (simp_all add: demo_proxy_def proxy_open_def upstream_connect_def push_outbound_def Let_def)
  have body: "upstream_body demo_envelope ''gw-1002-1'' =
      ''gateway_trace_id=mine;h5_request_id=h1;gateway_trace_id=gw-1002-1''"
    by (simp add: upstream_body_def demo_envelope_def)
  have trace: "''gw-'' @ int_str (demo_clk 2) @ ''-'' @ nat_str 1 = ''gw-1002-1''"
    unfolding demo_clk_def by code_simp
  have send: "upstream_send cfg True (client_packet demo_envelope ''gw-1002-1'') None = None"
    if "gc_max_packet_size cfg = 65536" for cfg
    by (simp add: upstream_send_def that Encode_def client_packet_def body kHeaderSize_def Let_def)
  have cfg: "gc_max_packet_size (gw_cfg demo_gateway) = 65536" "gc_max_messages (gw_cfg demo_gateway) = 60"
    "gw_ticks demo_gateway = 0" "gw_banned demo_gateway = Map.empty" "gw_trace demo_gateway = 1"
    by (simp_all add: demo_gateway_def default_gateway_config_def)
  show ?thesis
    using E start cfg send [OF cfg(1)]
    by (simp add: proxy_payload_def gw_now_def IsIpBanned_def consume_def window_tail_def Let_def
        BuildGatewayTraceId_def numeral_2_eq_2 [symmetric] trace [simplified] client_packet_def [symmetric] to_i32_def)
qed

lemma demo_proxy_start: "px_sent demo_proxy = []"
  by (simp add: demo_proxy_def proxy_open_def upstream_connect_def push_outbound_def Let_def)


definition demo_ticket_body :: string where
  "demo_ticket_body = ''{'' @ json_key ''player_id'' @ render_value (raw_value (int_str 7)) @ members_end []"


end
