(* ===== verification/DdzGatewayRun.thy ===== *)
theory DdzGatewayRun
  imports DdzGatewayProps "HOL-Library.Sublist"
begin

text \<open>
  The threads of the gateway, \<^verbatim>\<open>gateway/gateway_server.cpp\<close>: the loop that serves a web socket from its
  opening to its end, the thread of a connection, and the accept loop. One thread is followed here
  from its first to its last step; the runs of a thread are runs of the step relation of
  \<^verbatim>\<open>DdzGatewayProps\<close>, in which the threads interleave.
\<close>

subsection \<open>The loop of a web socket\<close>

text \<open>What a turn finds at the socket: the poll fails, there is nothing to read, the peer has closed,
  the read fails, or a frame. \<open>st_chunks\<close> are the chunks that the reader of the upstream connection
  has received since the last turn, \<open>st_write_fails\<close> the number of the message whose write fails, if
  one does, and \<open>st_send_err\<close> the outcome of writing a packet upstream.\<close>

datatype socket_read = PollFailed | NoBytes | SocketClosed | SocketReadFailed | Frame string

record socket_turn =
  st_chunks :: "byte list list"
  st_write_fails :: "nat option"
  st_read :: socket_read
  st_send_err :: "string option"

definition upstream_callback :: "(nat \<Rightarrow> millis) \<Rightarrow> byte list \<Rightarrow> gateway \<times> proxy \<Rightarrow> gateway \<times> proxy" where
  "upstream_callback clk chunk s = (if px_upstream (snd s) then proxy_chunk clk chunk s else s)"

definition upstream_callbacks :: "(nat \<Rightarrow> millis) \<Rightarrow> byte list list \<Rightarrow> gateway \<times> proxy \<Rightarrow> gateway \<times> proxy" where
  "upstream_callbacks clk chunks s = foldl (\<lambda>s chunk. upstream_callback clk chunk s) s chunks"

definition proxy_read ::
    "(nat \<Rightarrow> millis) \<Rightarrow> string \<Rightarrow> socket_read \<Rightarrow> string option \<Rightarrow> gateway \<times> proxy \<Rightarrow> gateway \<times> proxy" where
  "proxy_read clk ip r send_err s =
     (case r of
        PollFailed \<Rightarrow> proxy_close s
      | NoBytes \<Rightarrow> (fst s, proxy_idle (snd s))
      | SocketClosed \<Rightarrow> proxy_close s
      | SocketReadFailed \<Rightarrow> proxy_close s
      | Frame payload \<Rightarrow> proxy_payload clk ip payload send_err s)"

text \<open>One turn: what is outbound is written, then the socket is polled and read.\<close>

definition proxy_turn :: "(nat \<Rightarrow> millis) \<Rightarrow> string \<Rightarrow> socket_turn \<Rightarrow> gateway \<times> proxy \<Rightarrow> gateway \<times> proxy" where
  "proxy_turn clk ip t s =
     (case upstream_callbacks clk (st_chunks t) s of
        (g, x) \<Rightarrow>
          (case st_write_fails t of
             Some n \<Rightarrow>
               if n < length (px_outbound x) then proxy_write_failed n (g, x)
               else proxy_read clk ip (st_read t) (st_send_err t) (g, proxy_flush x)
           | None \<Rightarrow> proxy_read clk ip (st_read t) (st_send_err t) (g, proxy_flush x)))"

text \<open>The loop, over the turns that the environment grants it.\<close>

fun proxy_loop :: "(nat \<Rightarrow> millis) \<Rightarrow> string \<Rightarrow> socket_turn list \<Rightarrow> gateway \<times> proxy \<Rightarrow> gateway \<times> proxy" where
  "proxy_loop clk ip [] s = s"
| "proxy_loop clk ip (t # ts) s = (if px_open (snd s) then proxy_loop clk ip ts (proxy_turn clk ip t s) else s)"

text \<open>How the environment treats a web socket: whether the upgrade is accepted, the connection to the
  game server, the turns, and an exception after them.\<close>

record socket_env =
  se_accepted :: bool
  se_resolve :: "string option"
  se_connect :: "string option"
  se_turns :: "socket_turn list"
  se_exception :: "string option"

text \<open>\<^verbatim>\<open>RunWebSocketProxy\<close>, as far as the turns go: it returns when the upgrade fails or the loop has left,
  it throws an exception again that it has counted as a closed connection, or it is still in the
  loop.\<close>

datatype proxy_run = Returned | Thrown string | Looping proxy

definition RunWebSocketProxy ::
    "(nat \<Rightarrow> millis) \<Rightarrow> string \<Rightarrow> socket_env \<Rightarrow> gateway \<Rightarrow> gateway \<times> proxy_run" where
  "RunWebSocketProxy clk ip env g =
     (if \<not> se_accepted env then (g, Returned)
      else case proxy_loop clk ip (se_turns env) (proxy_open (se_resolve env) (se_connect env) g) of
             (g1, x) \<Rightarrow>
               if \<not> px_open x then (g1, Returned)
               else (case se_exception env of
                       Some what \<Rightarrow> (upd_metrics RecordWsConnectionClosed g1, Thrown what)
                     | None \<Rightarrow> (g1, Looping x)))"

text \<open>The thread of a connection: the handler, and for a web socket the proxy and then the release of the
  slot, which an exception skips. \<open>Failed\<close> has the line that the thread logs.\<close>

datatype session_state = Ended | Failed string | Serving string proxy

definition session_thread ::
    "(nat \<Rightarrow> millis) \<Rightarrow> upstream \<Rightarrow> string \<Rightarrow> http_request \<Rightarrow> socket_env \<Rightarrow> gateway
     \<Rightarrow> gateway \<times> session_state" where
  "session_thread clk up peer req env g =
     (case HandleGatewayConnection clk up g peer req of
        (g1, Respond r) \<Rightarrow> (g1, Ended)
      | (g1, Upgraded ip) \<Rightarrow>
          (case RunWebSocketProxy clk ip env g1 of
             (g2, Returned) \<Rightarrow> (connection_finished g2 ip, Ended)
           | (g2, Thrown what) \<Rightarrow> (g2, Failed (''gateway session exception: '' @ what))
           | (g2, Looping x) \<Rightarrow> (g2, Serving ip x)))"

subsection \<open>The accept loop\<close>

text \<open>The failures of the calls that set up the acceptor, in their order.\<close>

record acceptor_calls =
  ac_address :: "string option"
  ac_open :: "string option"
  ac_bind :: "string option"
  ac_listen :: "string option"
  ac_non_blocking :: "string option"

definition open_acceptor :: "string \<Rightarrow> acceptor_calls \<Rightarrow> string option" where
  "open_acceptor host os =
     (case ac_address os of
        Some e \<Rightarrow> Some (''invalid listen_host: '' @ host @ '' err='' @ e)
      | None \<Rightarrow>
     (case ac_open os of
        Some e \<Rightarrow> Some (''acceptor open failed: '' @ e)
      | None \<Rightarrow>
     (case ac_bind os of
        Some e \<Rightarrow> Some (''acceptor bind failed: '' @ e)
      | None \<Rightarrow>
     (case ac_listen os of
        Some e \<Rightarrow> Some (''acceptor listen failed: '' @ e)
      | None \<Rightarrow> map_option (\<lambda>e. ''acceptor non_blocking failed: '' @ e) (ac_non_blocking os)))))"

text \<open>One turn of the accept loop: no connection, a failed accept, or a connection, for which a thread
  is put into \<^verbatim>\<open>session_threads_\<close>. \<open>aw_sessions\<close> counts the threads, \<open>aw_log\<close> has the lines of the log.\<close>

datatype accept_result = AcceptWouldBlock | AcceptFailed string | Accepted

record accept_work =
  aw_sessions :: nat
  aw_log :: "string list"

definition accept_turn :: "accept_result \<Rightarrow> accept_work \<Rightarrow> accept_work" where
  "accept_turn r w =
     (case r of
        AcceptWouldBlock \<Rightarrow> w
      | AcceptFailed e \<Rightarrow> w\<lparr>aw_log := aw_log w @ [''accept failed: '' @ e]\<rparr>
      | Accepted \<Rightarrow> w\<lparr>aw_sessions := aw_sessions w + 1\<rparr>)"

text \<open>The turns go on while the gateway runs; the first component of a turn is \<^verbatim>\<open>running_\<close> in the
  condition of the loop.\<close>

fun accept_turns :: "(bool \<times> accept_result) list \<Rightarrow> accept_work \<Rightarrow> accept_work" where
  "accept_turns [] w = w"
| "accept_turns ((running, r) # rs) w = (if running then accept_turns rs (accept_turn r w) else w)"

definition AcceptLoop :: "string \<Rightarrow> acceptor_calls \<Rightarrow> (bool \<times> accept_result) list \<Rightarrow> accept_work \<Rightarrow> accept_work" where
  "AcceptLoop host os turns w =
     (case open_acceptor host os of
        Some e \<Rightarrow> w\<lparr>aw_log := aw_log w @ [e]\<rparr>
      | None \<Rightarrow> accept_turns turns w)"

text \<open>Every accepted connection gets a thread, and no thread is taken away while the gateway runs; when the
  acceptor cannot be set up there is none, and only the log tells.\<close>

lemma accept_loop_counts:
  "aw_sessions (AcceptLoop host os turns w) = aw_sessions w +
     (if open_acceptor host os = None then length (filter (\<lambda>t. snd t = Accepted) (takeWhile fst turns)) else 0)"
proof -
  have "aw_sessions (accept_turns ts v) = aw_sessions v + length (filter (\<lambda>t. snd t = Accepted) (takeWhile fst ts))" for ts v
    by (induction ts v rule: accept_turns.induct) (auto simp: accept_turn_def split: accept_result.split)
  then show ?thesis by (simp add: AcceptLoop_def split: option.split)
qed

subsection \<open>A thread is a run of the gateway\<close>

text \<open>The state of the step relation when the thread \<open>c\<close> is in a state: its web socket is open or
  gone, and the address of an exception is noted.\<close>

definition with_session ::
    "nat \<Rightarrow> string \<Rightarrow> gateway \<times> session_state \<Rightarrow> sockets \<Rightarrow> string list \<Rightarrow> gateway \<times> sockets \<times> string list" where
  "with_session c ip r ws ex =
     (case r of
        (g, Ended) \<Rightarrow> (g, ws, ex)
      | (g, Failed _) \<Rightarrow> (g, ws, ip # ex)
      | (g, Serving ip' x) \<Rightarrow> (g, ws(c \<mapsto> (ip', x)), ex))"

lemmas gateway_steps = converse_rtranclp_into_rtranclp [of "gateway_step clk" for clk]

lemma callbacks_run:
  "upstream_callbacks clk chunks (g, x) = (g', x') \<Longrightarrow> ws c = Some (ip, x) \<Longrightarrow>
     (gateway_step clk)\<^sup>*\<^sup>* (g, ws, ex) (g', ws(c \<mapsto> (ip, x')), ex)"
proof (induction chunks arbitrary: g x ws)
  case Nil
  then have "ws(c \<mapsto> (ip, x')) = ws" "g' = g" by (auto simp: upstream_callbacks_def)
  then show ?case by simp
next
  case (Cons chunk chunks)
  obtain h y where h: "upstream_callback clk chunk (g, x) = (h, y)" by fastforce
  then have "upstream_callbacks clk chunks (h, y) = (g', x')" using Cons.prems(1) by (simp add: upstream_callbacks_def)
  then have "(gateway_step clk)\<^sup>*\<^sup>* (h, ws(c \<mapsto> (ip, y)), ex) (g', ws(c \<mapsto> (ip, y), c \<mapsto> (ip, x')), ex)"
    by (rule Cons.IH) simp
  then have rest: "(gateway_step clk)\<^sup>*\<^sup>* (h, ws(c \<mapsto> (ip, y)), ex) (g', ws(c \<mapsto> (ip, x')), ex)"
    by (simp only: fun_upd_upd)
  show ?case
  proof (cases "px_upstream x")
    case True
    then have "gateway_step clk (g, ws, ex) (h, ws(c \<mapsto> (ip, y)), ex)"
      using h by (intro upstream_data [where ws = ws, OF Cons.prems(2)]) (simp_all add: upstream_callback_def)
    then show ?thesis using rest by (rule gateway_steps)
  next
    case False
    then have "h = g" "ws(c \<mapsto> (ip, y)) = ws" using h Cons.prems(2) by (auto simp: upstream_callback_def)
    then show ?thesis using rest by (simp only:)
  qed
qed

lemma chunk_keeps_open [simp]: "px_open (snd (proxy_chunk clk chunk s)) = px_open (snd s)"
proof -
  have "px_open (snd (proxy_packet clk pk s)) = px_open (snd s)" for pk s
    by (cases s) (simp add: proxy_packet_def Let_def gw_now_def push_outbound_def split: option.split)
  then have "px_open (snd (foldl (\<lambda>s pk. proxy_packet clk pk s) s pks)) = px_open (snd s)" for pks s
    by (induction pks arbitrary: s) simp_all
  then show ?thesis by (cases s) (simp add: proxy_chunk_def split: prod.split)
qed

lemma callbacks_keep_open: "px_open (snd (upstream_callbacks clk chunks s)) = px_open (snd s)"
  by (induction chunks arbitrary: s) (simp_all add: upstream_callbacks_def upstream_callback_def)

lemma read_run:
  assumes "proxy_read clk ip r e (g, x) = (g', x')" "ws c = Some (ip, x)" "px_open x"
  shows "gateway_step clk (g, ws, ex) (g', ws(c \<mapsto> (ip, x')), ex)"
  using assms by (cases r)
    (auto simp: proxy_read_def intro: peer_closed idle message)

lemma turn_run:
  assumes "proxy_turn clk ip t (g, x) = (g', x')" "ws c = Some (ip, x)" "px_open x"
  shows "(gateway_step clk)\<^sup>*\<^sup>* (g, ws, ex) (g', ws(c \<mapsto> (ip, x')), ex)"
proof -
  obtain h y where h: "upstream_callbacks clk (st_chunks t) (g, x) = (h, y)" by fastforce
  have y: "px_open y" using callbacks_keep_open [of clk "st_chunks t" "(g, x)"] h assms(3) by simp
  let ?ws = "ws(c \<mapsto> (ip, y))"
  have pre: "(gateway_step clk)\<^sup>*\<^sup>* (g, ws, ex) (h, ?ws, ex)" using h assms(2) by (rule callbacks_run)
  have flush: "gateway_step clk (h, ?ws, ex) (h, ws(c \<mapsto> (ip, proxy_flush y)), ex)"
    using flushed [of ?ws c ip y clk h ex] y by simp
  have read: "gateway_step clk (h, ws(c \<mapsto> (ip, proxy_flush y)), ex) (g', ws(c \<mapsto> (ip, x')), ex)"
    if "proxy_read clk ip (st_read t) (st_send_err t) (h, proxy_flush y) = (g', x')"
    using read_run [where ws = "ws(c \<mapsto> (ip, proxy_flush y))" and c = c and ex = ex, OF that] y
    by (simp add: proxy_flush_def)
  have "gateway_step clk (h, ?ws, ex) (g', ws(c \<mapsto> (ip, x')), ex)" if "proxy_write_failed n (h, y) = (g', x')" for n
    using write_failed [where ws = ?ws and c = c and ip = ip and ex = ex, OF _ y that] by simp
  then have "(gateway_step clk)\<^sup>*\<^sup>* (h, ?ws, ex) (g', ws(c \<mapsto> (ip, x')), ex)"
    using assms(1) h flush read by (auto simp: proxy_turn_def split: option.splits if_splits intro: gateway_steps)
  with pre show ?thesis by (rule rtranclp_trans)
qed

lemma loop_run:
  "proxy_loop clk ip ts (g, x) = (g', x') \<Longrightarrow> ws c = Some (ip, x) \<Longrightarrow>
     (gateway_step clk)\<^sup>*\<^sup>* (g, ws, ex) (g', ws(c \<mapsto> (ip, x')), ex)"
proof (induction ts arbitrary: g x ws)
  case Nil
  then have "ws(c \<mapsto> (ip, x')) = ws" "g' = g" by auto
  then show ?case by simp
next
  case (Cons t ts)
  show ?case
  proof (cases "px_open x")
    case True
    obtain h y where h: "proxy_turn clk ip t (g, x) = (h, y)" by fastforce
    then have l: "proxy_loop clk ip ts (h, y) = (g', x')" using Cons.prems(1) True by simp
    from l have "(gateway_step clk)\<^sup>*\<^sup>* (h, ws(c \<mapsto> (ip, y)), ex) (g', ws(c \<mapsto> (ip, y), c \<mapsto> (ip, x')), ex)"
      by (rule Cons.IH) simp
    then have "(gateway_step clk)\<^sup>*\<^sup>* (h, ws(c \<mapsto> (ip, y)), ex) (g', ws(c \<mapsto> (ip, x')), ex)"
      by (simp only: fun_upd_upd)
    with turn_run [where ws = ws, OF h Cons.prems(2) True] show ?thesis by (rule rtranclp_trans)
  next
    case False
    then have "ws(c \<mapsto> (ip, x')) = ws" "g' = g" using Cons.prems by auto
    then show ?thesis by simp
  qed
qed

lemma upgraded_address:
  "HandleGatewayConnection clk up g peer req = (g', Upgraded ip) \<Longrightarrow> ip = client_address (gw_cfg g) req peer"
  by (auto elim!: HandleGatewayConnection_cases open_socket_cases dest!: serve_http_frame)

text \<open>Whatever the thread \<open>c\<close> does is a run in the step relation.\<close>

lemma session_runs:
  assumes "session_thread clk up peer req env g = r" "ws c = None"
  shows "(gateway_step clk)\<^sup>*\<^sup>* (g, ws, ex) (with_session c (client_address (gw_cfg g) req peer) r ws ex)"
proof -
  obtain g1 out where H: "HandleGatewayConnection clk up g peer req = (g1, out)" by fastforce
  let ?ip = "client_address (gw_cfg g) req peer"
  show ?thesis
  proof (cases out)
    case (Respond resp)
    then have "with_session c ?ip r ws ex = (g1, ws, ex)"
      by (simp add: session_thread_def with_session_def H assms(1) [symmetric])
    then show ?thesis using responded [OF H [unfolded Respond], of ws ex] by auto
  next
    case (Upgraded ip')
    then have ip: "ip' = ?ip" using H upgraded_address by simp
    note H' = H [unfolded Upgraded ip]
    note r = assms(1) [unfolded session_thread_def H' prod.case connection_outcome.case]
    show ?thesis
    proof (cases "se_accepted env")
      case False
      then have "with_session c ?ip r ws ex = (connection_finished g1 ?ip, ws, ex)"
        by (simp add: RunWebSocketProxy_def with_session_def r [symmetric])
      then show ?thesis using not_opened [OF H', of ws ex] by auto
    next
      case True
      obtain g2 x2 where o: "proxy_open (se_resolve env) (se_connect env) g1 = (g2, x2)" by fastforce
      obtain g3 x3 where l: "proxy_loop clk ?ip (se_turns env) (g2, x2) = (g3, x3)" by fastforce
      let ?ws = "ws(c \<mapsto> (?ip, x3))"
      have "(gateway_step clk)\<^sup>*\<^sup>* (g2, ws(c \<mapsto> (?ip, x2)), ex) (g3, ws(c \<mapsto> (?ip, x2), c \<mapsto> (?ip, x3)), ex)"
        using l by (rule loop_run) simp
      then have run: "(gateway_step clk)\<^sup>*\<^sup>* (g, ws, ex) (g3, ?ws, ex)"
        using gateway_steps [OF opened [where ws = ws, OF H' assms(2) o]] by (simp only: fun_upd_upd)
      have gone: "?ws(c := None) = ws" using assms(2) by auto
      have fin: "gateway_step clk (g3, ?ws, ex) (connection_finished g3 ?ip, ws, ex)" if "\<not> px_open x3"
        using finished [of ?ws c ?ip x3 clk g3 ex] that gone by simp
      have exc: "gateway_step clk (g3, ?ws, ex) (upd_metrics RecordWsConnectionClosed g3, ws, ?ip # ex)" if "px_open x3"
        using exception [of ?ws c ?ip x3 clk g3 ex] that gone by simp
      have R: "RunWebSocketProxy clk ?ip env g1 =
          (if \<not> px_open x3 then (g3, Returned)
           else case se_exception env of Some what \<Rightarrow> (upd_metrics RecordWsConnectionClosed g3, Thrown what)
              | None \<Rightarrow> (g3, Looping x3))"
        using True by (simp add: RunWebSocketProxy_def o l)
      show ?thesis
      proof (cases "px_open x3")
        case False
        then have "with_session c ?ip r ws ex = (connection_finished g3 ?ip, ws, ex)"
          by (simp add: R with_session_def r [symmetric])
        then show ?thesis using rtranclp.rtrancl_into_rtrancl [OF run fin [OF False]] by (simp only:)
      next
        case True
        show ?thesis
        proof (cases "se_exception env")
          case None
          then have "with_session c ?ip r ws ex = (g3, ?ws, ex)"
            using True by (simp add: R with_session_def r [symmetric])
          then show ?thesis using run by (simp only:)
        next
          case (Some what)
          then have "with_session c ?ip r ws ex = (upd_metrics RecordWsConnectionClosed g3, ws, ?ip # ex)"
            using True by (simp add: R with_session_def r [symmetric])
          then show ?thesis using rtranclp.rtrancl_into_rtrancl [OF run exc [OF True]] by (simp only:)
        qed
      qed
    qed
  qed
qed

lemma run_counted: "(gateway_step clk)\<^sup>*\<^sup>* s s' \<Longrightarrow> counted s \<Longrightarrow> counted s'"
  by (induction rule: rtranclp_induct) (auto intro: gateway_step_counted)

text \<open>A thread that ends gives back the slot it has taken; one that ends by an exception keeps it.\<close>

lemma session_slots:
  assumes "session_thread clk up peer req env g = (g', r)" "gw_slots g = Map.empty"
    "ip = client_address (gw_cfg g) req peer"
  shows "r = Ended \<Longrightarrow> slots_of (gw_slots g') ip' = 0"
    "r = Failed line \<Longrightarrow> slots_of (gw_slots g') ip' = (if ip' = ip then 1 else 0)"
proof -
  have "counted (g, Map.empty, [])" by (simp add: counted_def slots_of_def sockets_of_def assms(2))
  with session_runs [where ws = Map.empty and c = 0 and ex = "[]", OF assms(1)]
  have "counted (with_session 0 ip (g', r) Map.empty [])"
    by (simp add: assms(3) run_counted)
  then show "r = Ended \<Longrightarrow> slots_of (gw_slots g') ip' = 0"
    "r = Failed line \<Longrightarrow> slots_of (gw_slots g') ip' = (if ip' = ip then 1 else 0)"
    by (auto simp: with_session_def counted_def sockets_of_def)
qed

subsection \<open>Nothing is lost while the socket is open\<close>

text \<open>The packets that the chunks of the game server make, from the reader's buffer on.\<close>

fun chunk_packets :: "gateway_config \<Rightarrow> bool \<Rightarrow> byte list \<Rightarrow> byte list list \<Rightarrow> packet list \<times> byte list \<times> bool" where
  "chunk_packets cfg running buffer [] = ([], buffer, running)"
| "chunk_packets cfg running buffer (chunk # chunks) =
     (if \<not> running then ([], buffer, running)
      else case upstream_read cfg buffer chunk of
             (pks, buffer', goes_on) \<Rightarrow>
               (case chunk_packets cfg goes_on buffer' chunks of (pks', r) \<Rightarrow> (pks @ pks', r)))"

definition turn_frames :: "socket_turn \<Rightarrow> string list" where
  "turn_frames t = (case st_read t of Frame payload \<Rightarrow> [payload] | _ \<Rightarrow> [])"

text \<open>What has been put out for the client, written or waiting for the next turn.\<close>

definition put_out :: "proxy \<Rightarrow> string list" where
  "put_out x = px_written x @ px_outbound x"

definition is_packet_of :: "string \<Rightarrow> packet \<Rightarrow> bool" where
  "is_packet_of payload pk \<longleftrightarrow> (\<exists>env trace. ParseEnvelopeJson payload = Inr env \<and> pk = client_packet env trace)"

definition shows_packet :: "string \<Rightarrow> packet \<Rightarrow> bool" where
  "shows_packet m pk \<longleftrightarrow> (\<exists>env. m = BuildEnvelopeJson env \<and> ge_msg_id env = pk_msg_id pk \<and> ge_seq_id env = pk_seq_id pk \<and>
     ge_player env = pk_player_id pk \<and> ge_body env = pk_body pk)"

text \<open>The step from \<open>x\<close> to \<open>x'\<close> reads the frames \<open>fs\<close> and gets the packets \<open>pks\<close>: what was put out stays and
  is added to, every frame is sent on or answered, and every packet is passed to the client.\<close>

definition accounts :: "proxy \<Rightarrow> string list \<Rightarrow> packet list \<Rightarrow> proxy \<Rightarrow> bool" where
  "accounts x fs pks x' \<longleftrightarrow>
     (\<exists>msgs sent taken shown. put_out x' = put_out x @ msgs \<and> px_sent x' = px_sent x @ sent \<and>
        subseq taken fs \<and> list_all2 is_packet_of taken sent \<and>
        subseq shown msgs \<and> list_all2 shows_packet shown pks \<and>
        length msgs + length sent + of_bool (px_notified x) = length fs + length pks + of_bool (px_notified x')) \<and>
     (px_notified x' \<longrightarrow> px_notified x \<or> \<not> px_upstream x') \<and> (\<not> px_upstream x \<longrightarrow> \<not> px_upstream x')"

lemma accounts_same:
  "put_out x' = put_out x \<Longrightarrow> px_sent x' = px_sent x \<Longrightarrow> px_notified x' = px_notified x \<Longrightarrow>
     (\<not> px_upstream x \<longrightarrow> \<not> px_upstream x') \<Longrightarrow> accounts x [] [] x'"
  by (simp add: accounts_def)

lemma accounts_trans:
  assumes "accounts x fs pks x'" "accounts x' fs' pks' x''"
  shows "accounts x (fs @ fs') (pks @ pks') x''"
proof -
  from assms(1) obtain m s k a where 1: "put_out x' = put_out x @ m" "px_sent x' = px_sent x @ s" "subseq k fs"
    "list_all2 is_packet_of k s" "subseq a m" "list_all2 shows_packet a pks"
    "length m + length s + of_bool (px_notified x) = length fs + length pks + of_bool (px_notified x')"
    by (auto simp: accounts_def)
  from assms(2) obtain m' s' k' a' where 2: "put_out x'' = put_out x' @ m'" "px_sent x'' = px_sent x' @ s'" "subseq k' fs'"
    "list_all2 is_packet_of k' s'" "subseq a' m'" "list_all2 shows_packet a' pks'"
    "length m' + length s' + of_bool (px_notified x') = length fs' + length pks' + of_bool (px_notified x'')"
    by (auto simp: accounts_def)
  have "(px_notified x'' \<longrightarrow> px_notified x \<or> \<not> px_upstream x'') \<and> (\<not> px_upstream x \<longrightarrow> \<not> px_upstream x'')"
    using assms by (auto simp: accounts_def)
  then show ?thesis
    unfolding accounts_def
    using 1 2 by (intro conjI exI [of _ "m @ m'"] exI [of _ "s @ s'"] exI [of _ "k @ k'"] exI [of _ "a @ a'"])
      (simp_all add: list_emb_append_mono list_all2_appendI)
qed

lemma accounts_push:
  "put_out x' = put_out x @ [m] \<Longrightarrow> px_sent x' = px_sent x \<Longrightarrow> px_notified x' = px_notified x \<Longrightarrow>
     px_upstream x' = px_upstream x \<Longrightarrow> accounts x [f] [] x'"
  unfolding accounts_def by (intro conjI exI [of _ "[m]"] exI [of _ "[]"]) simp_all

lemma accounts_show:
  "put_out x' = put_out x @ [m] \<Longrightarrow> px_sent x' = px_sent x \<Longrightarrow> px_notified x' = px_notified x \<Longrightarrow>
     px_upstream x' = px_upstream x \<Longrightarrow> shows_packet m pk \<Longrightarrow> accounts x [] [pk] x'"
  unfolding accounts_def by (intro conjI exI [of _ "[m]"] exI [of _ "[]"]) simp_all

lemma packet_accounts:
  assumes "proxy_packet clk pk (g, x) = (g', x')"
  shows "accounts x [] [pk] x' \<and> px_buffer x' = px_buffer x \<and> px_upstream x' = px_upstream x \<and> gw_cfg g' = gw_cfg g"
proof -
  obtain m p where x': "x' = push_outbound m (x\<lparr>px_pending := p\<rparr>)" "shows_packet m pk" "gw_cfg g' = gw_cfg g"
  proof (cases "px_pending x (pk_seq_id pk)")
    case None
    then have "x' = push_outbound (last (px_outbound x')) (x\<lparr>px_pending := px_pending x\<rparr>) \<and>
        shows_packet (last (px_outbound x')) pk \<and> gw_cfg g' = gw_cfg g"
      using assms by (auto simp: proxy_packet_def Let_def push_outbound_def shows_packet_def intro!: exI)
    with that show thesis by blast
  next
    case (Some t)
    then have "x' = push_outbound (last (px_outbound x')) (x\<lparr>px_pending := px_pending x'\<rparr>) \<and>
        shows_packet (last (px_outbound x')) pk \<and> gw_cfg g' = gw_cfg g"
      using assms by (auto simp: proxy_packet_def Let_def push_outbound_def gw_now_def shows_packet_def intro!: exI)
    with that show thesis by blast
  qed
  then show ?thesis by (simp add: push_outbound_def accounts_show [of _ _ m] put_out_def)
qed

lemma packets_account:
  "foldl (\<lambda>s pk. proxy_packet clk pk s) (g, x) pks = (g', x') \<Longrightarrow>
     accounts x [] pks x' \<and> px_buffer x' = px_buffer x \<and> px_upstream x' = px_upstream x \<and> gw_cfg g' = gw_cfg g"
proof (induction pks arbitrary: g x)
  case (Cons pk pks)
  obtain h y where h: "proxy_packet clk pk (g, x) = (h, y)" by fastforce
  then show ?case
    using packet_accounts [OF h] Cons.IH [of h y] Cons.prems accounts_trans [of x "[]" "[pk]" y "[]" pks x'] by simp
qed (simp add: accounts_def)

lemma callbacks_account:
  "upstream_callbacks clk chunks (g, x) = (g', x') \<Longrightarrow>
     (case chunk_packets (gw_cfg g) (px_upstream x) (px_buffer x) chunks of
        (pks, buffer, running) \<Rightarrow> accounts x [] pks x' \<and> px_buffer x' = buffer \<and> px_upstream x' = running) \<and>
     gw_cfg g' = gw_cfg g"
proof (induction chunks arbitrary: g x)
  case Nil
  then show ?case by (simp add: upstream_callbacks_def accounts_def)
next
  case (Cons chunk chunks)
  obtain h y where h: "upstream_callback clk chunk (g, x) = (h, y)" by fastforce
  then have rest: "upstream_callbacks clk chunks (h, y) = (g', x')" using Cons.prems by (simp add: upstream_callbacks_def)
  show ?case
  proof (cases "px_upstream x")
    case False
    then have "h = g" "y = x" using h by (auto simp: upstream_callback_def)
    then show ?thesis
      using Cons.IH [OF rest] False by (cases chunks) auto
  next
    case True
    obtain pks buffer goes_on where r: "upstream_read (gw_cfg g) (px_buffer x) chunk = (pks, buffer, goes_on)"
      using prod_cases3 by blast
    let ?x = "x\<lparr>px_buffer := buffer, px_upstream := goes_on\<rparr>"
    have f: "foldl (\<lambda>s pk. proxy_packet clk pk s) (g, ?x) pks = (h, y)"
      using h True r by (simp add: upstream_callback_def proxy_chunk_def)
    obtain pks' buffer' running' where c: "chunk_packets (gw_cfg g) goes_on buffer chunks = (pks', buffer', running')"
      using prod_cases3 by blast
    have y: "accounts ?x [] pks y" "px_buffer y = buffer" "px_upstream y = goes_on" "gw_cfg h = gw_cfg g"
      using packets_account [OF f] by simp_all
    then have "accounts x [] pks y" using True by (simp add: accounts_def put_out_def)
    moreover have "accounts y [] pks' x'" "px_buffer x' = buffer'" "px_upstream x' = running'" "gw_cfg g' = gw_cfg g"
      using Cons.IH [OF rest] unfolding y c by simp_all
    ultimately show ?thesis using accounts_trans [of x "[]" pks y "[]" pks' x'] True r c by simp
  qed
qed

text \<open>The configuration stays as it is, and so does the reader's state but for its chunks.\<close>

lemma payload_accounts:
  assumes "proxy_payload clk ip payload e (g, x) = (g', x')" "px_open x'"
  shows "accounts x [payload] [] x' \<and> px_buffer x' = px_buffer x \<and> px_upstream x' = px_upstream x \<and> gw_cfg g' = gw_cfg g"
proof -
  have trace: "BuildGatewayTraceId clk h = (h', t) \<Longrightarrow> gw_cfg h' = gw_cfg h" for h h' t
    by (auto dest: BuildGatewayTraceId_frame)
  have frame: "accounts x [payload] [] (x\<lparr>px_window := w, px_outbound := px_outbound x @ [m]\<rparr>)" for w m
    by (rule accounts_push [of _ _ m]) (simp_all add: put_out_def)
  have sent: "accounts x [payload] [] (x\<lparr>px_window := w, px_sent := px_sent x @ [pk], px_pending := p\<rparr>)"
    if "is_packet_of payload pk" for w pk p
    unfolding accounts_def
    using that by (intro conjI exI [of _ "[]"] exI [of _ "[pk]"] exI [of _ "[payload]"]) (simp_all add: put_out_def)
  show ?thesis
    using assms
    by (auto simp: proxy_payload_def Let_def gw_now_def proxy_close_def proxy_error_def push_outbound_def is_packet_of_def
        client_packet_def [symmetric] frame intro!: sent split: prod.splits bool.splits option.splits sum.splits if_splits
        dest!: trace)
qed

lemma idle_accounts:
  "accounts x [] [] (proxy_idle x) \<and> px_buffer (proxy_idle x) = px_buffer x \<and> px_upstream (proxy_idle x) = px_upstream x"
proof (cases "\<not> px_upstream x \<and> \<not> px_notified x")
  case True
  then show ?thesis
    unfolding proxy_idle_def accounts_def
    by (intro conjI exI [of _ "[BuildGatewayErrorEnvelope 1 ''upstream_disconnected'' ''upstream disconnected'' [] [] []]"]
        exI [of _ "[]"]) (simp_all add: put_out_def proxy_error_def push_outbound_def)
next
  case False
  then show ?thesis by (auto simp: proxy_idle_def intro: accounts_same)
qed

lemma read_accounts:
  assumes "proxy_read clk ip (st_read t) e (g, x) = (g', x')" "px_open x'"
  shows "accounts x (turn_frames t) [] x' \<and> px_buffer x' = px_buffer x \<and> px_upstream x' = px_upstream x \<and> gw_cfg g' = gw_cfg g"
proof (cases "st_read t")
  case NoBytes
  then show ?thesis
    using assms idle_accounts [of x] by (auto simp: proxy_read_def turn_frames_def)
next
  case (Frame payload)
  then show ?thesis using assms payload_accounts [of clk ip payload e g x g' x'] by (simp add: proxy_read_def turn_frames_def)
qed (use assms in \<open>simp_all add: proxy_read_def proxy_close_def\<close>, auto)

lemma chunk_packets_append:
  "chunk_packets cfg running buffer (cs @ cs') =
     (case chunk_packets cfg running buffer cs of
        (pks, b, r) \<Rightarrow> (case chunk_packets cfg r b cs' of (pks', q) \<Rightarrow> (pks @ pks', q)))"
proof (induction cs arbitrary: running buffer)
  case Nil
  then show ?case by (simp split: prod.split)
next
  case (Cons c cs)
  have stopped: "chunk_packets cfg False b cs = ([], b, False)" for b cs by (cases cs) simp_all
  show ?case
  proof (cases running)
    case True
    obtain ps b r where "upstream_read cfg buffer c = (ps, b, r)" using prod_cases3 by blast
    then show ?thesis using True by (simp add: Cons.IH split: prod.split)
  qed (simp add: stopped)
qed

text \<open>The packets of some turns, and what the reader of the upstream connection is left with.\<close>

definition reads_turns :: "gateway_config \<Rightarrow> proxy \<Rightarrow> socket_turn list \<Rightarrow> packet list \<Rightarrow> proxy \<Rightarrow> bool" where
  "reads_turns cfg x ts pks x' \<longleftrightarrow>
     chunk_packets cfg (px_upstream x) (px_buffer x) (concat (map st_chunks ts)) = (pks, px_buffer x', px_upstream x')"

lemma reads_append: "reads_turns cfg x ts pks x' \<Longrightarrow> reads_turns cfg x' ts' pks' x'' \<Longrightarrow> reads_turns cfg x (ts @ ts') (pks @ pks') x''"
  by (simp add: reads_turns_def chunk_packets_append)

lemma turn_accounts:
  assumes "proxy_turn clk ip t (g, x) = (g', x')" "px_open x'"
  shows "\<exists>pks. accounts x (turn_frames t) pks x' \<and> reads_turns (gw_cfg g) x [t] pks x' \<and> gw_cfg g' = gw_cfg g"
proof -
  obtain h y where h: "upstream_callbacks clk (st_chunks t) (g, x) = (h, y)" by fastforce
  obtain pks b r where c: "chunk_packets (gw_cfg g) (px_upstream x) (px_buffer x) (st_chunks t) = (pks, b, r)"
    using prod_cases3 by blast
  have y: "accounts x [] pks y" "px_buffer y = b" "px_upstream y = r" "gw_cfg h = gw_cfg g"
    using callbacks_account [OF h] c by simp_all
  have "accounts y [] [] (proxy_flush y)" by (rule accounts_same) (simp_all add: proxy_flush_def put_out_def)
  from accounts_trans [OF y(1) this] have f: "accounts x [] pks (proxy_flush y)" by simp
  have "proxy_read clk ip (st_read t) (st_send_err t) (h, proxy_flush y) = (g', x')"
    using assms h by (auto simp: proxy_turn_def proxy_write_failed_def split: option.splits if_splits)
  from read_accounts [OF this assms(2)] have r: "accounts (proxy_flush y) (turn_frames t) [] x'"
    "px_buffer x' = b" "px_upstream x' = r" "gw_cfg g' = gw_cfg g"
    using y by (auto simp: proxy_flush_def)
  from accounts_trans [OF f r(1)] show ?thesis
    using r c by (intro exI [of _ pks]) (simp add: reads_turns_def)
qed

lemma closed_stays: "\<not> px_open (snd s) \<Longrightarrow> proxy_loop clk ip ts s = s"
  by (cases ts) simp_all

lemma loop_accounts:
  "proxy_loop clk ip ts (g, x) = (g', x') \<Longrightarrow> px_open x' \<Longrightarrow>
     \<exists>pks. accounts x (concat (map turn_frames ts)) pks x' \<and> reads_turns (gw_cfg g) x ts pks x' \<and> gw_cfg g' = gw_cfg g"
proof (induction ts arbitrary: g x)
  case Nil
  then show ?case by (auto simp: accounts_def reads_turns_def)
next
  case (Cons t ts)
  have x: "px_open x"
    using Cons.prems closed_stays [of "(g, x)" clk ip "t # ts"] by (cases "px_open x") simp_all
  obtain h y where h: "proxy_turn clk ip t (g, x) = (h, y)" by fastforce
  with x Cons.prems(1) have l: "proxy_loop clk ip ts (h, y) = (g', x')" by simp
  then have y: "px_open y" using Cons.prems(2) closed_stays [of "(h, y)" clk ip ts] by auto
  from turn_accounts [OF h y] obtain pks where t: "accounts x (turn_frames t) pks y" "reads_turns (gw_cfg g) x [t] pks y"
    "gw_cfg h = gw_cfg g"
    by blast
  from Cons.IH [OF l Cons.prems(2)] obtain pks' where ts: "accounts y (concat (map turn_frames ts)) pks' x'"
    "reads_turns (gw_cfg g) y ts pks' x'" "gw_cfg g' = gw_cfg g"
    using t(3) by auto
  show ?case
    using accounts_trans [OF t(1) ts(1)] reads_append [OF t(2) ts(2)] ts(3) by (intro exI [of _ "pks @ pks'"]) simp
qed

text \<open>The reader of the upstream connection sees the packets of the stream, however it is cut.\<close>

lemma chunk_packets_unframe:
  "pk.unframe_pieces (word_of_int (gc_max_packet_size cfg)) chunks out buffer = Inr (out', rest) \<Longrightarrow> [] \<notin> set chunks \<Longrightarrow>
     \<exists>pks. out' = out @ pks \<and> chunk_packets cfg True buffer chunks = (pks, rest, True)"
proof (induction chunks arbitrary: out buffer)
  case (Cons c cs)
  let ?m = "word_of_int (gc_max_packet_size cfg)"
  from Cons.prems(1) obtain o1 r1 where 1: "pk.unframe ?m (buffer @ c) out = Inr (o1, r1)"
    "pk.unframe_pieces ?m cs o1 r1 = Inr (out', rest)"
    by (auto split: sum.splits prod.splits)
  with unframe_acc [of ?m "buffer @ c" out "[]"] obtain ps where
    2: "pk.unframe ?m (buffer @ c) [] = Inr (ps, r1)" "o1 = out @ ps"
    by (auto split: sum.splits prod.splits)
  then have "upstream_read cfg buffer c = (ps, r1, True)"
    using Cons.prems(2) by (auto simp: upstream_read_def Decode_def decode_loop_unframe)
  then show ?case using Cons.IH [OF 1(2)] Cons.prems(2) 2 by auto
qed simp

lemma answers_decoded:
  assumes "list_all (\<lambda>p. in_i64 (pk_player_id p)) answers"
    "map (\<lambda>p. Encode p (word_of_int (gc_max_packet_size cfg))) answers = map Encoded sent"
    "concat chunks = concat sent" "[] \<notin> set chunks"
  shows "chunk_packets cfg True [] chunks = (answers, [], True)"
  using stream_decodes [OF assms(1-3)] chunk_packets_unframe [of cfg chunks "[]" "[]" answers "[]"] assms(4) by auto


subsection \<open>A concrete run\<close>

text \<open>The client sends a message, and the game server answers it.\<close>

definition demo_answer_bytes :: "byte list" where
  "demo_answer_bytes = (case Encode demo_answer 65536 of Encoded bs \<Rightarrow> bs | _ \<Rightarrow> [])"

definition demo_turns :: "socket_turn list" where
  "demo_turns =
     [\<lparr>st_chunks = [], st_write_fails = None, st_read = Frame (BuildEnvelopeJson demo_envelope), st_send_err = None\<rparr>,
      \<lparr>st_chunks = [take 9 demo_answer_bytes, drop 9 demo_answer_bytes], st_write_fails = None, st_read = NoBytes,
       st_send_err = None\<rparr>]"

lemma demo_answer_encoded:
  "Encode demo_answer 65536 = Encoded demo_answer_bytes" "length demo_answer_bytes = 26" "in_i64 (pk_player_id demo_answer)"
  by (simp_all add: demo_answer_bytes_def demo_answer_def Encode_def Let_def kHeaderSize_def in_i64_def)

lemma demo_open: "px_open (snd (proxy_loop demo_clk ''10.0.0.1'' demo_turns (proxy_open None None demo_gateway)))"
proof -
  obtain g0 x0 where o: "proxy_open None None demo_gateway = (g0, x0)" by fastforce
  then have x0: "px_open x0" "px_window x0 = []" "gw_banned g0 = Map.empty" "gc_max_messages (gw_cfg g0) = 60"
    by (auto simp: proxy_open_def upstream_connect_def push_outbound_def Let_def demo_gateway_def default_gateway_config_def)
  obtain g1 x1 where p: "proxy_payload demo_clk ''10.0.0.1'' (BuildEnvelopeJson demo_envelope) None (g0, proxy_flush x0) = (g1, x1)"
    by fastforce
  then have x1: "px_open x1"
    using x0 by (auto simp: proxy_payload_def gw_now_def IsIpBanned_def consume_def window_tail_def Let_def to_i32_def
        proxy_flush_def proxy_error_def push_outbound_def split: sum.splits option.splits prod.splits if_splits)
  have kept: "px_open (proxy_idle x) = px_open x" "px_open (proxy_flush x) = px_open x" for x
    by (simp_all add: proxy_idle_def proxy_flush_def proxy_error_def push_outbound_def)
  have 1: "proxy_turn demo_clk ''10.0.0.1'' (demo_turns ! 0) (g0, x0) = (g1, x1)"
    by (simp add: demo_turns_def proxy_turn_def upstream_callbacks_def proxy_read_def p)
  obtain g2 x2 where 2: "upstream_callbacks demo_clk (st_chunks (demo_turns ! 1)) (g1, x1) = (g2, x2)" by fastforce
  then have "proxy_turn demo_clk ''10.0.0.1'' (demo_turns ! 1) (g1, x1) = (g2, proxy_idle (proxy_flush x2))"
    by (simp add: proxy_turn_def) (simp add: demo_turns_def proxy_read_def)
  moreover have "demo_turns = [demo_turns ! 0, demo_turns ! 1]" by (simp add: demo_turns_def)
  moreover have "px_open x2" using callbacks_keep_open [of demo_clk "st_chunks (demo_turns ! 1)" "(g1, x1)"] x1 2 by simp
  ultimately show ?thesis using x0(1) x1 1 by (metis (no_types) kept o proxy_loop.simps snd_conv)
qed


end
