(* ===== verification/DdzMain.thy ===== *)
theory DdzMain
  imports DdzSystem DdzGatewayRun
begin

text \<open>
  The two programs, \<^verbatim>\<open>server/main.cpp\<close> and \<^verbatim>\<open>gateway/main.cpp\<close>: the command line, the start, the time
  until a line is read, and the stop. \<open>work\<close> is what happens in that time; the server's part of it is
  the step relation of \<^verbatim>\<open>DdzServerProps\<close>, the gateway's that of \<^verbatim>\<open>DdzGatewayProps\<close>. A program ends with
  its exit code and the lines of its two streams.
\<close>

text \<open>The last \<^verbatim>\<open>--config=\<close> of the arguments wins; the name of the program is not among them.\<close>

definition config_path :: "string \<Rightarrow> string list \<Rightarrow> string" where
  "config_path path0 args =
     foldl (\<lambda>path arg. if take 9 arg = ''--config='' then drop 9 arg else path) path0 args"

record program_end =
  pe_code :: int
  pe_out :: "string list"
  pe_err :: "string list"

definition server_main ::
    "'w env \<Rightarrow> string \<Rightarrow> (string \<Rightarrow> string option) \<Rightarrow> string option \<Rightarrow> string option \<Rightarrow> ('w server \<Rightarrow> 'w server)
     \<Rightarrow> string list \<Rightarrow> 'w server \<Rightarrow> 'w server \<times> program_end" where
  "server_main e what files log_err tcp_err work args s =
     (let path = config_path ''config/dev/server.yaml'' args in
      case Start e what path (files path) log_err tcp_err s of
        (s1, Some err) \<Rightarrow> (s1, \<lparr>pe_code = 1, pe_out = [], pe_err = [''failed to start server: '' @ err]\<rparr>)
      | (s1, None) \<Rightarrow>
          (Stop (work s1),
           \<lparr>pe_code = 0, pe_out = [''ddz_server running with config: '' @ path, ''press ENTER to stop...''], pe_err = []\<rparr>))"

definition gateway_main ::
    "string \<Rightarrow> (string \<Rightarrow> string option) \<Rightarrow> string option \<Rightarrow> (gateway \<Rightarrow> gateway)
     \<Rightarrow> string list \<Rightarrow> gateway \<Rightarrow> gateway \<times> program_end" where
  "gateway_main what files log_err work args g =
     (let path = config_path ''config/dev/gateway.yaml'' args in
      case GatewayStart what path (files path) log_err g of
        (g1, Some err) \<Rightarrow> (g1, \<lparr>pe_code = 1, pe_out = [], pe_err = [''failed to start gateway: '' @ err]\<rparr>)
      | (g1, None) \<Rightarrow>
          (GatewayStop (work g1),
           \<lparr>pe_code = 0, pe_out = [''ddz_gateway running with config: '' @ path, ''press ENTER to stop...''], pe_err = []\<rparr>))"

lemma config_path_last: "config_path path0 (args @ [''--config='' @ path]) = path"
  by (simp add: config_path_def)

lemma config_path_other: "\<forall>arg \<in> set args. take 9 arg \<noteq> ''--config='' \<Longrightarrow> config_path path0 args = path0"
  unfolding config_path_def by (induction args arbitrary: path0) auto

text \<open>The server does not start on a file that does not load or a configuration that its checks
  refuse: it reports the error and touches neither the storage nor Redis nor the players. When it
  starts, the configuration has passed the checks.\<close>

lemma start_checks_config:
  assumes "Start e what path file log_err tcp_err s = (s', err)" "\<not> sv_running s"
  shows "(sv_running s' \<longleftrightarrow> err = None) \<and>
    (case LoadFromFile what path file (sv_cfg s) of
       (cfg, load_err) \<Rightarrow>
         (if load_err \<noteq> None \<or> config_error cfg \<noteq> None
          then s' = s\<lparr>sv_cfg := cfg\<rparr> \<and> err = (if load_err \<noteq> None then load_err else config_error cfg)
          else sv_cfg s' = cfg \<and> sv_core s' = sv_core s \<and>
            kHeaderSize \<le> nat (ac_max_packet_size cfg) \<and> 0 < ac_heartbeat_timeout cfg \<and>
            0 < ac_match_timeout cfg \<and> 0 < ac_io_threads cfg \<and> 0 < ac_token_ttl cfg \<and>
            0 < ac_metrics_interval cfg))"
proof -
  obtain cfg load_err where L: "LoadFromFile what path file (sv_cfg s) = (cfg, load_err)" by fastforce
  let ?s1 = "s\<lparr>sv_cfg := cfg\<rparr>"
  obtain s2 e2 where S: "init_storage e ?s1 = (s2, e2)" by fastforce
  obtain s3 e3 where R: "init_redis e s2 = (s3, e3)" by fastforce
  have s2: "sv_cfg s2 = cfg" "sv_core s2 = sv_core s" "\<not> sv_running s2"
    using S assms(2) by (auto simp: init_storage_def sv_core_def split: prod.splits)
  have s3: "sv_cfg s3 = cfg" "sv_core s3 = sv_core s" "\<not> sv_running s3"
    using R s2 by (auto simp: init_redis_def sv_core_def split: prod.splits option.splits)
  have ok: "config_error cfg = None \<Longrightarrow> kHeaderSize \<le> nat (ac_max_packet_size cfg) \<and> 0 < ac_heartbeat_timeout cfg \<and>
      0 < ac_match_timeout cfg \<and> 0 < ac_io_threads cfg \<and> 0 < ac_token_ttl cfg \<and> 0 < ac_metrics_interval cfg"
    by (auto simp: config_error_def split: if_splits)
  show ?thesis
  proof (cases "load_err \<noteq> None \<or> config_error cfg \<noteq> None")
    case True
    then have "s' = ?s1 \<and> err = (if load_err \<noteq> None then load_err else config_error cfg)"
      using assms L by (cases load_err; cases "config_error cfg") (auto simp: Start_def Let_def)
    then show ?thesis using True L assms(2) by (cases load_err; cases "config_error cfg") auto
  next
    case False
    have E: "case log_err of Some err' \<Rightarrow> s' = ?s1 \<and> err = Some err'
      | None \<Rightarrow> (case e2 of Some err' \<Rightarrow> s' = s2 \<and> err = Some err'
        | None \<Rightarrow> (case e3 of Some err' \<Rightarrow> s' = s3 \<and> err = Some err'
          | None \<Rightarrow> sv_cfg s' = sv_cfg s3 \<and> sv_core s' = sv_core s3 \<and> err = tcp_err \<and>
                    (sv_running s' \<longleftrightarrow> sv_running s3 \<or> tcp_err = None)))"
      using assms False L S R
      by (cases log_err; cases e2; cases e3; cases tcp_err) (simp_all add: Start_def Let_def sv_core_def, auto)
    have "sv_cfg s' = cfg \<and> sv_core s' = sv_core s \<and> (sv_running s' \<longleftrightarrow> err = None)"
      using E s2 s3 assms(2) by (cases log_err; cases e2; cases e3) (simp_all add: sv_core_def)
    then show ?thesis using False ok L by simp
  qed
qed

lemma Stop_stops [simp]: "\<not> sv_running (Stop s)" "\<not> gw_running (GatewayStop g)"
  by (simp_all add: Stop_def GatewayStop_def)

text \<open>The exit code tells whether the program started, and nothing runs when it has ended. On a
  configuration that is refused the server's program does nothing but print the error.\<close>

lemma server_main_ends:
  assumes "server_main e what files log_err tcp_err work args s = (s', r)" "\<not> sv_running s"
    "path = config_path ''config/dev/server.yaml'' args" "LoadFromFile what path (files path) (sv_cfg s) = (cfg, load_err)"
  shows "\<not> sv_running s'"
    "pe_code r = (if snd (Start e what path (files path) log_err tcp_err s) = None then 0 else 1)"
    "load_err = Some err \<Longrightarrow> s' = s\<lparr>sv_cfg := cfg\<rparr> \<and> pe_err r = [''failed to start server: '' @ err]"
    "load_err = None \<Longrightarrow> config_error cfg = Some err \<Longrightarrow>
       s' = s\<lparr>sv_cfg := cfg\<rparr> \<and> pe_err r = [''failed to start server: '' @ err]"
proof -
  obtain s1 e1 where S: "Start e what path (files path) log_err tcp_err s = (s1, e1)" by fastforce
  note checks = start_checks_config [OF S assms(2), unfolded assms(4) prod.case]
  have m: "e1 = None \<and> s' = Stop (work s1) \<and> pe_code r = 0 \<or>
      (\<exists>e2. e1 = Some e2 \<and> s' = s1 \<and> pe_code r = 1 \<and> pe_err r = [''failed to start server: '' @ e2])"
    using assms(1) S by (auto simp: server_main_def assms(3) [symmetric] Let_def split: option.splits)
  show "\<not> sv_running s'" using m checks by auto
  show "pe_code r = (if snd (Start e what path (files path) log_err tcp_err s) = None then 0 else 1)"
    using m by (auto simp: S)
  show "s' = s\<lparr>sv_cfg := cfg\<rparr> \<and> pe_err r = [''failed to start server: '' @ err]" if "load_err = Some err"
    using m checks that by auto
  show "s' = s\<lparr>sv_cfg := cfg\<rparr> \<and> pe_err r = [''failed to start server: '' @ err]"
    if "load_err = None" "config_error cfg = Some err"
    using m checks that by auto
qed

lemma gateway_main_ends:
  assumes "gateway_main what files log_err work args g = (g', r)" "\<not> gw_running g"
  shows "\<not> gw_running g' \<and> (pe_code r = 0 \<or> pe_code r = 1) \<and>
    (pe_code r = 1 \<longrightarrow> pe_out r = [] \<and> pe_err r \<noteq> [] \<and> gw_slots g' = gw_slots g)"
  using assms by (auto simp: gateway_main_def Let_def GatewayStart_def
      split: prod.splits option.splits if_splits)

end
