(* ===== verification/DdzWire.thy ===== *)
theory DdzWire
  imports DdzSystem "HOL-Library.Sublist"
begin

text \<open>
  A request from the bytes that arrive on a connection to the bytes of its answer: the network, the
  codec, the server and again the network.
\<close>

subsection \<open>What a connection gets\<close>

definition frame_of :: "32 word \<Rightarrow> packet \<Rightarrow> byte list" where
  "frame_of max_size pk = (case Encode pk max_size of Encoded bs \<Rightarrow> bs | _ \<Rightarrow> [])"

fun sent_on :: "conn_id \<Rightarrow> effect list \<Rightarrow> packet list" where
  "sent_on conn [] = []"
| "sent_on conn (Send c pk # xs) = (if c = conn then pk # sent_on conn xs else sent_on conn xs)"
| "sent_on conn (x # xs) = sent_on conn xs"

lemma sent_on_append [simp]: "sent_on conn (xs @ ys) = sent_on conn xs @ sent_on conn ys"
  by (induction xs rule: sent_on.induct) simp_all

lemma send_bytes_positive: "\<forall>i. 0 < send i \<Longrightarrow> send_bytes send i bs = (bs, True)"
proof (induction send i bs rule: send_bytes.induct)
  case (1 send i bs)
  have "\<not> send i \<le> 0" using 1(2) by (simp add: not_le)
  then show ?case using 1 by (subst send_bytes.simps) auto
qed

lemma ConnectionSend_positive:
  assumes "\<forall>i. 0 < send i" "cn_running c"
  shows "fst (ConnectionSend m send pk c) = c\<lparr>cn_wire := cn_wire c @ frame_of m pk\<rparr>"
  using assms by (simp add: ConnectionSend_def frame_of_def send_bytes_positive split: encode_result.split)

lemma nt_max_Remove [simp]: "nt_max (RemoveConnection conn n) = nt_max n"
  by (simp add: RemoveConnection_def split: option.split)

lemma idle_frame:
  "nt_max (foldl (\<lambda>m c. RemoveConnection c m) n cs) = nt_max n"
  "nt_conns (foldl (\<lambda>m c. RemoveConnection c m) n cs) conn \<in> {None, nt_conns n conn}"
proof -
  show "nt_max (foldl (\<lambda>m c. RemoveConnection c m) n cs) = nt_max n" by (induction cs arbitrary: n) simp_all
  have "nt_conns (foldl (\<lambda>m c. RemoveConnection c m) n cs) conn = (if conn \<in> set cs then None else nt_conns n conn)"
    by (induction cs arbitrary: n) auto
  then show "nt_conns (foldl (\<lambda>m c. RemoveConnection c m) n cs) conn \<in> {None, nt_conns n conn}" by simp
qed

lemma effect_max [simp]: "nt_max (apply_effect os x n) = nt_max n"
  by (cases x) (simp_all add: TcpSend_def CloseConnection_def CloseIdleConnections_def idle_frame split: option.split prod.split)

lemma effects_max: "nt_max (foldl (\<lambda>m x. apply_effect os x m) n xs) = nt_max n"
  by (induction xs arbitrary: n) simp_all

text \<open>One effect, seen from a connection that outlives it.\<close>

lemma effect_wire:
  assumes "net_ok n" "nt_conns n conn = Some c" "\<forall>i. 0 < os_send os n conn i"
    "nt_conns (apply_effect os x n) conn = Some c'"
  shows "cn_wire c' = cn_wire c @ concat (map (frame_of (nt_max n)) (sent_on conn [x]))"
proof (cases x)
  case (Send conn' pk)
  then show ?thesis
    using assms ConnectionSend_positive [OF assms(3), of c "nt_max n" pk] net_okD(3) [OF assms(1,2)]
    by (auto simp: TcpSend_def split: option.splits prod.splits if_splits)
next
  case (CloseConn conn')
  then show ?thesis using assms by (auto simp: CloseConnection_def split: if_splits)
next
  case (CloseIdle timeout)
  then show ?thesis
    using assms idle_frame(2) [of n "filter (idle_at n (os_now os n) timeout) (os_order os n)" conn]
    by (auto simp: CloseIdleConnections_def)
qed

lemma effects_wire:
  "net_ok n \<Longrightarrow> nt_conns n conn = Some c \<Longrightarrow> \<forall>m i. 0 < os_send os m conn i \<Longrightarrow>
     nt_conns (foldl (\<lambda>m x. apply_effect os x m) n xs) conn = Some c' \<Longrightarrow>
     cn_wire c' = cn_wire c @ concat (map (frame_of (nt_max n)) (sent_on conn xs))"
proof (induction xs arbitrary: n c)
  case (Cons x xs)
  let ?n = "apply_effect os x n"
  show ?case
  proof (cases "nt_conns ?n conn")
    case None
    then show ?thesis using effects_keep_removed [OF None, of os xs] Cons.prems(4) by simp
  next
    case (Some c1)
    have "cn_wire c' = cn_wire c1 @ concat (map (frame_of (nt_max n)) (sent_on conn xs))"
      using Cons.IH [OF apply_effect_ok [OF Cons.prems(1)] Some Cons.prems(3)] Cons.prems(4) by simp
    moreover have "sent_on conn (x # xs) = sent_on conn [x] @ sent_on conn xs"
      using sent_on_append [of conn "[x]" xs] by simp
    ultimately show ?thesis
      using effect_wire [OF Cons.prems(1,2) _ Some] Cons.prems(3) by simp
  qed
qed simp

subsection \<open>Requests and answers\<close>

definition answers_to :: "packet \<Rightarrow> packet \<Rightarrow> bool" where
  "answers_to request answer \<longleftrightarrow>
     pk_msg_id answer = pk_msg_id request + 1 \<and> pk_seq_id answer = pk_seq_id request"

lemma answer_ids:
  "\<exists>before p body. sv_out (OnMessage e s conn pk) = before @
     [Send conn \<lparr>pk_msg_id = pk_msg_id pk + 1, pk_seq_id = pk_seq_id pk, pk_player_id = p, pk_body = body\<rparr>]"
proof (rule OnMessage_eq [of s e pk conn])
  fix s2 s3 :: "'a server" and response xs
  assume D: "Dispatch (server_dispatcher e) s2 pk conn = (s3, response, True)"
    and M: "sv_out (OnMessage e s conn pk) = sv_out s3 @ [Send conn (response\<lparr>pk_body := pk_body response @ xs\<rparr>)]"
  then show ?thesis using dispatched(2-4) [OF D] by (cases response) auto
qed

text \<open>The effects of one message: the last is its answer.\<close>

lemma message_effects:
  assumes "core_ok (sv_core s)" "is_shuffle (en_shuffle e)"
  obtains xs answer where "sv_out (OnMessage e s conn pk) = sv_out s @ xs" "answers_to pk answer"
    "subseq [answer] (sent_on conn xs)" "core_ok (sv_core (OnMessage e s conn pk))"
proof (rule OnMessage_eq [of s e pk conn])
  fix s2 s3 :: "'a server" and response xs
  assume 2: "sv_core s2 = sv_core s" "sv_out s2 = sv_out s"
    and D: "Dispatch (server_dispatcher e) s2 pk conn = (s3, response, True)"
    and M: "sv_out (OnMessage e s conn pk) = sv_out s3 @ [Send conn (response\<lparr>pk_body := pk_body response @ xs\<rparr>)]"
      "sv_core (OnMessage e s conn pk) = sv_core s3"
  obtain ys where ys: "sv_out s3 = sv_out s @ ys" "core_ok (sv_core s3)"
    using dispatched(5) [OF D assms(2)] assms(1) by (auto simp: serves_def 2)
  let ?answer = "response\<lparr>pk_body := pk_body response @ xs\<rparr>"
  show thesis
  proof (rule that [of "ys @ [Send conn ?answer]" ?answer])
    show "answers_to pk ?answer" using dispatched(2,3) [OF D] by (simp add: answers_to_def)
    show "subseq [?answer] (sent_on conn (ys @ [Send conn ?answer]))"
      unfolding subseq_singleton_left by simp
  qed (use M ys in simp_all)
qed

lemma messages_effects:
  assumes "core_ok (sv_core s)" "is_shuffle (en_shuffle e)" "net_ok n" "nt_conns n conn = Some c"
    "\<forall>m i. 0 < os_send os m conn i"
    "foldl (\<lambda>st pk. message_callback e os conn pk st) (n, s) pks = (n', s')" "nt_conns n' conn = Some c'"
  shows "s' = foldl (\<lambda>s pk. OnMessage e s conn pk) s pks \<and>
    (\<exists>xs answers. sv_out s' = sv_out s @ xs \<and> subseq answers (sent_on conn xs) \<and> list_all2 answers_to pks answers \<and>
       cn_wire c' = cn_wire c @ concat (map (frame_of (nt_max n)) (sent_on conn xs)))"
  using assms(1,3,4,6)
proof (induction pks arbitrary: n s c)
  case Nil
  then show ?case using assms(7) by (auto intro!: exI [of _ "[]"])
next
  case (Cons pk pks)
  let ?s = "OnMessage e s conn pk"
  obtain xs answer where m: "sv_out ?s = sv_out s @ xs" "answers_to pk answer" "subseq [answer] (sent_on conn xs)"
    "core_ok (sv_core ?s)"
    using message_effects [OF Cons.prems(1) assms(2), of conn pk] by blast
  let ?n = "foldl (\<lambda>m x. apply_effect os x m) n xs"
  have cb: "message_callback e os conn pk (n, s) = (?n, ?s)"
    by (simp add: message_callback_def with_effects_def m(1))
  have n: "net_ok ?n" using with_effects_ok [OF Cons.prems(2) cb [unfolded message_callback_def]] by simp
  have rest: "foldl (\<lambda>st pk. message_callback e os conn pk st) (?n, ?s) pks = (n', s')"
    using Cons.prems(4) by (simp add: cb)
  show ?case
  proof (cases "nt_conns ?n conn")
    case None
    have "nt_conns m conn = None \<Longrightarrow>
        nt_conns (fst (foldl (\<lambda>st pk. message_callback e os conn pk st) (m, t) qs)) conn = None" for m t qs
      by (induction qs arbitrary: m t)
        (simp_all add: message_callback_def with_effects_def Let_def effects_keep_removed)
    from this [OF None, of ?s pks] rest assms(7) show ?thesis by simp
  next
    case (Some c1)
    obtain ys answers where IH: "s' = foldl (\<lambda>s pk. OnMessage e s conn pk) ?s pks" "sv_out s' = sv_out ?s @ ys"
      "subseq answers (sent_on conn ys)" "list_all2 answers_to pks answers"
      "cn_wire c' = cn_wire c1 @ concat (map (frame_of (nt_max ?n)) (sent_on conn ys))"
      using Cons.IH [OF m(4) n Some rest] by blast
    have max: "nt_max ?n = nt_max n" by (rule effects_max)
    have "cn_wire c1 = cn_wire c @ concat (map (frame_of (nt_max n)) (sent_on conn xs))"
      by (rule effects_wire [OF Cons.prems(2,3) assms(5) Some])
    then show ?thesis
      using IH m max list_emb_append_mono [OF m(3) IH(3)]
      by (intro conjI exI [of _ "xs @ ys"] exI [of _ "answer # answers"]) simp_all
  qed
qed

lemma recv_loop_wire: "recv_loop rs c g = (c', r) \<Longrightarrow> cn_wire c' = cn_wire c"
  by (induction rs c g rule: recv_loop.induct) (auto simp: Let_def split: if_splits)

lemma Read_wire: "ReadAvailablePackets m rs c = (c', r) \<Longrightarrow> cn_wire c' = cn_wire c"
  by (auto simp: ReadAvailablePackets_def split: if_splits prod.splits recv_end.splits bool.splits dest!: recv_loop_wire)

text \<open>The bytes of some requests, in whatever pieces they come, are these requests to the handlers.\<close>

lemma requests_reach:
  assumes "net_ok n" "nt_conns n conn = Some c" "cn_buffer c = []" "ready conn = Some rs" "undisturbed rs"
    "received rs = concat frames" "map (\<lambda>p. Encode p (nt_max n)) requests = map Encoded frames"
    "list_all (\<lambda>p. in_i64 (pk_player_id p)) requests"
  obtains c1 where "net_ok (n\<lparr>nt_conns := (nt_conns n)(conn \<mapsto> c1)\<rparr>)" "cn_wire c1 = cn_wire c"
    "\<And>message closed s. serve_connection message closed ready conn (n, s) =
       foldl (\<lambda>st pk. message conn pk st) (n\<lparr>nt_conns := (nt_conns n)(conn \<mapsto> c1)\<rparr>, s) requests"
proof -
  have "pk.unframe_pieces (nt_max n) [received rs] [] [] = Inr (requests, [])"
    using stream_decodes [OF assms(8,7), of "[received rs]"] assms(6) by simp
  then have "pk.unframe (nt_max n) (cn_buffer c @ received rs) [] = Inr (requests, [])"
    using assms(3) by (auto split: sum.splits prod.splits)
  from Read_undisturbed [OF assms(5) _ this] net_okD(3) [OF assms(1,2)]
  obtain c1 where R: "ReadAvailablePackets (nt_max n) rs c = (c1, ReadPackets requests)" by blast
  show thesis
    using that [of c1] net_ok_update [OF assms(1,2)] Read_frame [OF R] Read_wire [OF R]
    by (simp add: serve_connection_def assms(2,4) R)
qed

text \<open>Whoever decodes the frames of some packets gets these packets.\<close>

lemma frames_decode:
  assumes "\<forall>p \<in> set ps. in_i64 (pk_player_id p) \<and> frame_of max_size p \<noteq> []"
  shows "Decode (concat (map (frame_of max_size) ps)) max_size = (True, ps, [])"
proof -
  have "map (\<lambda>p. Encode p max_size) ps = map Encoded (map (frame_of max_size) ps)"
    using assms by (auto simp: frame_of_def split: encode_result.splits)
  then show ?thesis
    using stream_decodes [of ps max_size _ "[concat (map (frame_of max_size) ps)]"] assms by (simp add: list_all_iff)
qed

end
