(* ===== verification/DdzLogger.thy ===== *)
theory DdzLogger
  imports DdzPrelude
begin

text \<open>
  The logger, \<^verbatim>\<open>log/logger.cpp\<close>: a level, a file that is open or not, and what has been written to
  the two streams and the file. The formatted time of a line and the outcome of creating the directory
  and of opening the file are parameters. The log lines of the other components are not modelled.
\<close>

datatype log_level = LevelDebug | LevelInfo | LevelWarn | LevelError

definition level_num :: "log_level \<Rightarrow> int" where
  "level_num l = (case l of LevelDebug \<Rightarrow> 0 | LevelInfo \<Rightarrow> 1 | LevelWarn \<Rightarrow> 2 | LevelError \<Rightarrow> 3)"

lemma level_num_inj: "level_num a = level_num b \<longleftrightarrow> a = b"
  by (cases a; cases b) (simp_all add: level_num_def)

instantiation log_level :: linorder
begin

definition less_eq_log_level :: "log_level \<Rightarrow> log_level \<Rightarrow> bool" where
  "less_eq_log_level a b \<longleftrightarrow> level_num a \<le> level_num b"

definition less_log_level :: "log_level \<Rightarrow> log_level \<Rightarrow> bool" where
  "less_log_level a b \<longleftrightarrow> level_num a < level_num b"

instance
  by standard (auto simp: less_eq_log_level_def less_log_level_def level_num_inj [symmetric])

end

record logger =
  lg_level :: log_level
  lg_open :: bool
  lg_ready :: bool
  lg_out :: "string list"
  lg_err :: "string list"
  lg_file :: "string list"

definition default_logger :: logger where
  "default_logger = \<lparr>lg_level = LevelInfo, lg_open = False, lg_ready = False, lg_out = [], lg_err = [], lg_file = []\<rparr>"

definition ParseLevel :: "string \<Rightarrow> log_level" where
  "ParseLevel s =
     (if s = ''debug'' then LevelDebug
      else if s = ''warn'' then LevelWarn
      else if s = ''error'' then LevelError
      else LevelInfo)"

definition LevelName :: "log_level \<Rightarrow> string" where
  "LevelName l =
     (case l of LevelDebug \<Rightarrow> ''DEBUG'' | LevelInfo \<Rightarrow> ''INFO'' | LevelWarn \<Rightarrow> ''WARN'' | LevelError \<Rightarrow> ''ERROR'')"

definition LoggerInit :: "string \<Rightarrow> string \<Rightarrow> bool \<Rightarrow> bool \<Rightarrow> logger \<Rightarrow> logger \<times> string option" where
  "LoggerInit level_str dir created opened lg =
     (let lg1 = lg\<lparr>lg_level := ParseLevel level_str\<rparr> in
      if \<not> created then (lg1, Some (''failed to create log dir: '' @ dir))
      else if \<not> opened then (lg1\<lparr>lg_open := False\<rparr>, Some (''failed to open log file: '' @ dir @ ''/server.log''))
      else (lg1\<lparr>lg_open := True, lg_ready := True\<rparr>, None))"

definition LoggerShutdown :: "logger \<Rightarrow> logger" where
  "LoggerShutdown lg = lg\<lparr>lg_open := False, lg_ready := False\<rparr>"

text \<open>A line that goes to a file that is not open is lost.\<close>

definition LoggerWrite :: "string \<Rightarrow> log_level \<Rightarrow> string \<Rightarrow> logger \<Rightarrow> logger" where
  "LoggerWrite at level msg lg =
     (if \<not> lg_ready lg \<or> level < lg_level lg then lg
      else
        let line = at @ '' ['' @ LevelName level @ ''] '' @ msg;
            lg1 = (if level \<ge> LevelWarn then lg\<lparr>lg_err := lg_err lg @ [line]\<rparr> else lg\<lparr>lg_out := lg_out lg @ [line]\<rparr>)
        in if lg_open lg then lg1\<lparr>lg_file := lg_file lg @ [line]\<rparr> else lg1)"

lemma LoggerWrite_file:
  "lg_ready lg \<Longrightarrow> lg_open lg \<Longrightarrow> lg_file (LoggerWrite at level msg lg) =
     (if level < lg_level lg then lg_file lg else lg_file lg @ [at @ '' ['' @ LevelName level @ ''] '' @ msg])"
  by (simp add: LoggerWrite_def Let_def)

lemma LoggerWrite_streams:
  "LevelWarn \<le> level \<Longrightarrow> lg_out (LoggerWrite at level msg lg) = lg_out lg"
  "level < LevelWarn \<Longrightarrow> lg_err (LoggerWrite at level msg lg) = lg_err lg"
  by (auto simp: LoggerWrite_def Let_def)

end
