(* ===== verification/Spec2Isabelle.thy ===== *)
theory Spec2Isabelle
  imports DdzRulesSpec DdzMain DdzWire DdzLogger
begin

text \<open>
  A model of the server of the card game Dou Dizhu (``ddz'') under \<^verbatim>\<open>src/ddz_server\<close>, with the
  theorems that make it correct.

  \<^bold>\<open>The program.\<close> Clients speak a binary packet protocol over TCP to the game server, or JSON over
  HTTP and web sockets to the gateway, which turns their messages into packets and back. A packet
  that arrives is decoded (\<^verbatim>\<open>network\<close>), dispatched by its identifier to a handler of
  \<^verbatim>\<open>server/game_server.cpp\<close>, and answered. The handlers work through services (login, reconnection,
  matching, settlement) on managers that own the state: sessions, players, queues, rooms. A room
  plays one game under the rule engine. A timer closes idle connections, times matches out, lets a
  trustee play for players who are away and settles their games after two minutes. Settlement
  writes to the storage, in memory or a MySQL command line; tokens and presence may go to Redis.

  \<^bold>\<open>Theories and sources\<close> (paths under \<^verbatim>\<open>src/ddz_server\<close>).
  \<^item> \<open>DdzPrelude\<close>, \<open>DdzText\<close>: integer ranges, and the C++ text functions (\<^verbatim>\<open>std::stoll\<close>, \<^verbatim>\<open>std::getline\<close>, ...).
  \<^item> \<open>DdzRules\<close>, \<open>DdzRulesSpec\<close>: \<^verbatim>\<open>service/rule\<close>. \<open>Analyze\<close> and \<open>CanBeat\<close> against a reference
    definition of the card types by multisets of ranks.
  \<^item> \<open>DdzRoom\<close>, \<open>DdzRoomSpec\<close>, \<open>DdzRoomProps\<close>: \<^verbatim>\<open>service/room\<close>. The record \<open>room\<close> is the struct
    \<^verbatim>\<open>Room\<close>; \<open>apply_action\<close> is \<^verbatim>\<open>ApplyPlayerAction\<close>. The invariant of a game and of the manager, the deal, what
    each action does, versions, termination of a game.
  \<^item> \<open>DdzCodec\<close>: \<^verbatim>\<open>common/util/kv_codec.h\<close>, \<^verbatim>\<open>network/packet_codec.cpp\<close>, \<^verbatim>\<open>network/dispatcher.cpp\<close>.
  \<^item> \<open>DdzNetwork\<close>, \<open>DdzSystem\<close>, \<open>DdzWire\<close>: \<^verbatim>\<open>network/tcp_connection.cpp\<close>, \<^verbatim>\<open>network/tcp_server.cpp\<close>, and the
    callbacks by which the network drives the game server; the last follows requests from the bytes that
    arrive on a connection to the bytes of their answers.
  \<^item> \<open>DdzSession\<close>, \<open>DdzMatch\<close>, \<open>DdzLobby\<close>: \<^verbatim>\<open>service/session\<close>, \<^verbatim>\<open>service/player\<close>, \<^verbatim>\<open>service/match\<close>. The record
    \<open>core\<close> holds the four managers; \<open>core_ok\<close> is the invariant across them.
  \<^item> \<open>DdzPool\<close>, \<open>DdzStorage\<close>, \<open>DdzSettlement\<close>: \<^verbatim>\<open>service/storage\<close>, \<^verbatim>\<open>service/settlement\<close>.
  \<^item> \<open>DdzSha256\<close>, \<open>DdzAuth\<close>, \<open>DdzRedis\<close>, \<open>DdzLogin\<close>: \<^verbatim>\<open>common/util/sha256.cpp\<close>, \<^verbatim>\<open>service/login\<close>,
    \<^verbatim>\<open>service/redis\<close>, \<^verbatim>\<open>service/reconnect\<close>.
  \<^item> \<open>DdzConfig\<close>, \<open>DdzMetrics\<close>, \<open>DdzGatewayMetrics\<close>, \<open>DdzLogger\<close>: both configuration loaders, both
    observability services, the logger.
  \<^item> \<open>DdzServer\<close>, \<open>DdzServerProps\<close>, \<open>DdzServerOffline\<close>: \<^verbatim>\<open>server/game_server.cpp\<close>, every handler, notification, the
    timer, start and stop. \<open>sv_out\<close> is the list of effects on the network.
  \<^item> \<open>DdzJson\<close>, \<open>DdzGateway\<close>, \<open>DdzGatewayProps\<close>, \<open>DdzGatewayRun\<close>: \<^verbatim>\<open>gateway/json_codec.cpp\<close>,
    \<^verbatim>\<open>gateway/gateway_server.cpp\<close>, \<^verbatim>\<open>gateway/upstream_tcp_client.cpp\<close>. The last has the loop of a web socket from
    its opening to its end, the thread of a connection and the accept loop, and shows that a thread is
    a run of the step relation in which the threads interleave.
  \<^item> \<open>DdzMain\<close>: \<^verbatim>\<open>server/main.cpp\<close>, \<^verbatim>\<open>gateway/main.cpp\<close>.

  \<^bold>\<open>How the code is rendered.\<close> A class is a record of its fields and a method a function from the
  state to the new state and the result; out parameters are part of the result; an error is the
  error code or \<open>Inl\<close>. \<^verbatim>\<open>int64_t\<close> values are \<open>int\<close>, with the range stated where an overflow matters and
  conversions to 32 bits written out (\<open>to_i32\<close>); unsigned counters and the fields of packets are
  words, which wrap. \<^verbatim>\<open>std::map\<close> and \<^verbatim>\<open>std::unordered_map\<close> are maps; where the order of a traversal of an
  unordered map shows, the order is a parameter. Locks make each handler atomic: the handlers of
  different threads interleave as the steps of \<open>server_step\<close>, \<open>system_step\<close> and \<open>gateway_step\<close>.
  Loops are recursive functions with a termination proof, so no fuel is needed anywhere; the loops
  of the threads are the step relations, and in \<open>DdzGatewayRun\<close> functions of the turns they get.

  \<^bold>\<open>Parameters\<close> (not under the source tree): the clock (the \<open>i\<close>-th reading is \<open>en_clock e i\<close>), the shuffle of
  the standard library (a permutation of its input, \<open>is_shuffle\<close>), the shell commands for MySQL and
  Redis (\<open>shell\<close>), the answers of the sockets and of the file system, the HTTP and web socket library
  (a request is a record), how C++ prints a double.

  \<^bold>\<open>The interfaces.\<close> Locales state what one component promises another, and are interpreted on the
  model: \<open>framing\<close> (packets in a byte stream), \<open>play_judge\<close> (rule engine), \<open>bounded_machine\<close> (a game ends),
  \<open>fifo_pool\<close> (queues), \<open>conn_registry\<close> (sessions), \<open>slot_pool\<close> (MySQL slots), \<open>row_table\<close> and \<open>ledger\<close>
  (storage and coins), \<open>expiring_table\<close> (Redis), \<open>token_format\<close>, \<open>bounded_window\<close>, \<open>rate_limit\<close> (gateway),
  \<open>net_client\<close> (callbacks of the network).

  \<^bold>\<open>What is shown.\<close> The rule engine agrees with the reference definition of the card types. Every
  reachable room manager is consistent, the deal splits the deck, an action is accepted exactly when
  the rules allow it and has the effect they prescribe, and every game ends within a bound. The
  whole server keeps the invariant across its managers in every run and refines an abstract lobby
  (players wait, are seated by three, rooms close); a player's cards go to that player only; the
  requests whose bytes arrive on a connection are answered there, in order; who stays away loses. Settlement pays zero-sum amounts once and is atomic in
  the storage. Tokens are accepted exactly when genuine and unexpired, and logins and reconnections
  need them; a ticket issued by the gateway logs in at the server. The network delivers what was sent,
  in order, and drives the server only through its events. The gateway admits web sockets and requests
  within its limits, leaves an audit line for every refusal and nothing else, loses no message while a
  web socket is open, and what a client asks through it is answered by the server to that client.

  \<^bold>\<open>Not modelled.\<close> The creation of threads, the log lines other than the audit log and the accept loop's,
  Beast and Asio, the scripts and tests. Data races inside a handler are
  not visible, as handlers are atomic. A packet whose length exceeds 32 bits is the outcome \<open>Overrun\<close> of
  the codec, on which the callers here send nothing.
\<close>

subsection \<open>A concrete server\<close>

text \<open>Players 7 and 8 wait for a match and player 9 is in the lobby, on connections 1, 2 and 3; or
  the three of them sit in room 1. The storage keeps its books in memory and Redis is off.\<close>

definition demo_env :: "unit env" where
  "demo_env = \<lparr>en_shell = no_shell, en_shuffle = demo_shuf, en_clock = (\<lambda>i. 130000 + int i),
     en_order = (\<lambda>m. [7, 8, 9])\<rparr>"

definition demo_server :: "core \<Rightarrow> unit server" where
  "demo_server c =
     \<lparr>sv_cfg = default_config,
      sv_front = \<lparr>fo_core = c, fo_auth = default_auth, fo_redis = None, fo_world = ()\<rparr>,
      sv_store = demo_storage, sv_settling = {}, sv_metrics = default_metrics, sv_out = [], sv_ticks = 0,
      sv_trace = 0, sv_running = True\<rparr>"

definition demo_packet :: "32 word \<Rightarrow> string \<Rightarrow> packet" where
  "demo_packet m body = \<lparr>pk_msg_id = m, pk_seq_id = 5, pk_player_id = 0, pk_body = body\<rparr>"

text \<open>Player 7 has lost the connection at time 1000.\<close>

definition demo_absent :: core where
  "demo_absent = (ts_core demo_settle)\<lparr>co_match := (if GetState (co_players (ts_core demo_settle)) 7 = Matching
        then fst (Cancel (co_match (ts_core demo_settle)) 7) else co_match (ts_core demo_settle)),
     co_sessions := fst (MarkOfflineByConnection (co_sessions (ts_core demo_settle)) 1 1000),
     co_players := ForceState (co_players (ts_core demo_settle)) 7 Offline\<rparr>"

lemma demo_server_sel [simp]:
  "sv_core (demo_server c) = c" "sv_store (demo_server c) = demo_storage" "sv_settling (demo_server c) = {}"
  "sv_ticks (demo_server c) = 0" "sv_out (demo_server c) = []"
  by (simp_all add: demo_server_def sv_core_def)

lemma demo_env_shuffle: "is_shuffle (en_shuffle demo_env)"
  by (simp add: demo_env_def demo_shuffle)

subsection \<open>Properties\<close>










lemma demo_unhandled:
  assumes "pk_msg_id pk = 7"
  shows "\<exists>body. sv_out (OnMessage demo_env (demo_server demo_core) conn pk) =
    [Send conn \<lparr>pk_msg_id = 8, pk_seq_id = pk_seq_id pk, pk_player_id = pk_player_id pk, pk_body = body\<rparr>]"
proof (rule OnMessage_eq [of "demo_server demo_core" demo_env pk conn])
  fix s2 s3 :: "unit server" and response xs
  assume O: "sv_out s2 = sv_out (demo_server demo_core)"
    and D: "Dispatch (server_dispatcher demo_env) s2 pk conn = (s3, response, True)"
    and M: "sv_out (OnMessage demo_env (demo_server demo_core) conn pk) =
      sv_out s3 @ [Send conn (response\<lparr>pk_body := pk_body response @ xs\<rparr>)]"
  have "7 \<notin> request_ids" by code_simp
  then show ?thesis using dispatched(4) [OF D] assms O M by (simp add: reply_error_def)
qed

text \<open>A server with one connection, whose sends take everything.\<close>

definition demo_net :: tcp_server where
  "demo_net = AcceptConnection True 1000 (fst (TcpStart ''0.0.0.0''
     \<lparr>lc_socket = True, lc_host = True, lc_bind = True, lc_listen = True\<rparr> (new_tcp_server 65536 2)))"

definition demo_os :: net_os where
  "demo_os = \<lparr>os_send = (\<lambda>n conn i. 100), os_now = (\<lambda>n. 2000), os_order = (\<lambda>n. [])\<rparr>"

lemma demo_net_facts:
  "net_ok demo_net" "nt_max demo_net = 65536"
  "\<exists>c. nt_conns demo_net 1 = Some c \<and> cn_buffer c = [] \<and> cn_wire c = []"
proof -
  obtain n0 err where S: "TcpStart ''0.0.0.0'' \<lparr>lc_socket = True, lc_host = True, lc_bind = True, lc_listen = True\<rparr>
      (new_tcp_server 65536 2) = (n0, err)" by fastforce
  then have n0: "err = None" "nt_running n0" "nt_next_id n0 = 1" "nt_max n0 = 65536"
    by (auto simp: TcpStart_def new_tcp_server_def Let_def)
  have d: "demo_net = AcceptConnection True 1000 n0" by (simp add: demo_net_def S)
  show "net_ok demo_net" unfolding d by (rule AcceptConnection_ok) (use TcpStart_ok S n0 in auto)
  show "nt_max demo_net = 65536" "\<exists>c. nt_conns demo_net 1 = Some c \<and> cn_buffer c = [] \<and> cn_wire c = []"
    using n0 by (simp_all add: d AcceptConnection_def ConnectionStart_def new_connection_def Let_def)
qed


text \<open>Every message is answered, last and on the connection it came from, with the identifier
  that follows the request's and the request's sequence number. A message that has no handler
  changes nothing but the clock, the trace counter and the metrics.\<close>

lemma request_answered:
  "\<exists>before p body. sv_out (OnMessage e s conn pk) =
     before @ [Send conn \<lparr>pk_msg_id = pk_msg_id pk + 1, pk_seq_id = pk_seq_id pk, pk_player_id = p, pk_body = body\<rparr>] \<and>
   (pk_msg_id pk \<in> request_ids \<or>
      before = sv_out s \<and> take 17 body = ''ERR:UNHANDLED_MSG'' \<and> sv_front (OnMessage e s conn pk) = sv_front s \<and>
      sv_store (OnMessage e s conn pk) = sv_store s \<and> sv_settling (OnMessage e s conn pk) = sv_settling s)"
proof (rule OnMessage_eq [of s e pk conn])
  fix s2 s3 :: "'a server" and response xs
  assume same: "sv_out s2 = sv_out s" "sv_front s2 = sv_front s" "sv_store s2 = sv_store s" "sv_settling s2 = sv_settling s"
    and D: "Dispatch (server_dispatcher e) s2 pk conn = (s3, response, True)"
    and M: "sv_front (OnMessage e s conn pk) = sv_front s3" "sv_store (OnMessage e s conn pk) = sv_store s3"
      "sv_settling (OnMessage e s conn pk) = sv_settling s3"
      "sv_out (OnMessage e s conn pk) = sv_out s3 @ [Send conn (response\<lparr>pk_body := pk_body response @ xs\<rparr>)]"
  note R = dispatched(2-4) [OF D]
  have "response\<lparr>pk_body := pk_body response @ xs\<rparr> = \<lparr>pk_msg_id = pk_msg_id pk + 1, pk_seq_id = pk_seq_id pk,
      pk_player_id = pk_player_id response, pk_body = pk_body response @ xs\<rparr>"
    using R(1,2) by (cases response) simp
  then show ?thesis using M same R(3) by (auto simp: reply_error_def)
qed




lemma HandleMatch_sessions:
  "sm_conn (co_sessions (fst (HandleMatch c conn body now))) = sm_conn (co_sessions c)"
  "map_option ss_player (sm_sessions (co_sessions (fst (HandleMatch c conn body now))) p) =
     map_option ss_player (sm_sessions (co_sessions c) p)"
  by (auto simp: HandleMatch_def Let_def seat_players_sel option.map_comp o_def
      split: option.split prod.split bool.split)

lemma demo_settle_session:
  "sm_conn (co_sessions (ts_core demo_settle)) 1 = Some 7"
  "map_option ss_player (sm_sessions (co_sessions (ts_core demo_settle)) 7) = Some 7"
  by (simp_all add: demo_settle_def HandleMatch_sessions) (simp_all add: demo_core_def demo_session_def)

lemma demo_absent_ok: "core_ok demo_absent"
  unfolding demo_absent_def by (rule closed_core(1) [OF demo_settle_facts(1) demo_settle_session(1)])

lemma demo_absent_facts:
  "mg_rooms (co_rooms demo_absent) 1 = Some (new_room 1 3 [7, 8, 9])"
  "q \<in> {7, 8, 9} \<Longrightarrow> GetPlayer (co_players demo_absent) q \<noteq> None"
  "\<exists>x. GetSessionByPlayer (co_sessions demo_absent) 7 = Some x \<and> ss_player x = 7 \<and> \<not> ss_online x \<and> ss_offline_at x = 1000"
  using demo_settle_facts(2) demo_settle_facts(3) [of q] demo_settle_session
  by (auto simp: demo_absent_def GetPlayer_def ForceState_def Let_def GetSessionByPlayer_def MarkOfflineByConnection_def)


text \<open>C39: an action request that is accepted for execution is well typed: a positive room identifier
  of 64 bits, an action of the protocol, and numbers and cards of 32 bits.\<close>

theorem action_request_typed:
  assumes "ParseActionBody body = Some (rid, q)"
  shows "0 < rid \<and> in_i64 rid \<and> rq_type q \<in> {ActCallScore, ActRobLandlord, ActPlayCards, ActPass} \<and>
    in_i32 (rq_call_score q) \<and> in_i32 (rq_rob q) \<and> list_all in_i32 (rq_cards q) \<and>
    (rq_type q \<noteq> ActPlayCards \<longrightarrow> rq_cards q = [])"
proof -
  obtain rt tt rn k t k' where P: "stoll rt = Some (rid, k)" "0 < rid" "read_action (ParseKvBody body) t = Some q"
    using assms by (auto simp: ParseActionBody_def Let_def split: option.splits if_splits prod.splits)
  have num: "in_i32 n" if "action_number kv key = Some n" for kv key n
    using that by (auto simp: action_number_def split: option.splits)
  have cards: "list_all in_i32 cs" if "ParseCardList v = Some cs" for v cs
  proof -
    have "parse_cards items = Some cs \<Longrightarrow> list_all in_i32 cs" for items cs
      by (induction items arbitrary: cs) (auto split: if_splits option.splits)
    then show ?thesis using that by (auto simp: ParseCardList_def split: if_splits)
  qed
  have "rq_type q \<in> {ActCallScore, ActRobLandlord, ActPlayCards, ActPass} \<and>
    in_i32 (rq_call_score q) \<and> in_i32 (rq_rob q) \<and> list_all in_i32 (rq_cards q) \<and>
    (rq_type q \<noteq> ActPlayCards \<longrightarrow> rq_cards q = [])"
    using P(3) num cards
    by (auto simp: read_action_def empty_request_def in_i32_def split: if_splits option.splits)
  then show ?thesis using P(1,2) stoll_range by blast
qed

lemma demo_action_parses:
  "ParseActionBody ''room_id=12;action_type=3;cards=3,17'' =
     Some (12, \<lparr>rq_type = ActPlayCards, rq_call_score = -1, rq_rob = -1, rq_cards = [3, 17]\<rparr>)"
  by code_simp

theorem action_request_typed_witness:
  "\<exists>q. ParseActionBody ''room_id=12;action_type=3;cards=3,17'' = Some (12, q) \<and> list_all in_i32 (rq_cards q)"
  using action_request_typed [OF demo_action_parses] demo_action_parses by blast

end
